(* ===== verification/Prelude.thy ===== *)
theory Prelude
  imports Main "HOL-Library.Multiset" "HOL-Library.Word" "HOL-Library.Signed_Division"
begin

text \<open>
  Shared vocabulary of the development: Go's fixed-width signed integers as \<^typ>\<open>int\<close> with the
  wrap-around written out, Go's truncating division, results with an error, and the generic
  list, option and map lemmas the component theories use.
\<close>

named_theorems go_int \<open>facts about wrapped machine integers\<close>
named_theorems opt_field \<open>get/set laws of the options records\<close>

section \<open>Results\<close>

text \<open>
  A Go function \<^verbatim>\<open>func f(..) (T, error)\<close> returns \<^typ>\<open>'e + 'a\<close>: \<^term>\<open>Inl e\<close> is the error.
\<close>

type_synonym ('e, 'a) result = "'e + 'a"

text \<open>
  A Go function that may panic returns an \<open>outcome\<close>; a panic carries the value passed to it.
\<close>

datatype ('p, 'a) outcome = Panic 'p | Ret 'a

fun bind_outcome :: "('p, 'a) outcome \<Rightarrow> ('a \<Rightarrow> ('p, 'b) outcome) \<Rightarrow> ('p, 'b) outcome" where
  "bind_outcome (Panic p) f = Panic p"
| "bind_outcome (Ret a) f = f a"

fun the_ret :: "('p, 'a) outcome \<Rightarrow> 'a" where
  "the_ret (Ret a) = a"
| "the_ret (Panic p) = undefined"

lemma bind_outcome_Ret_iff [simp]:
  "bind_outcome m f = Ret b \<longleftrightarrow> (\<exists>a. m = Ret a \<and> f a = Ret b)"
  by (cases m) auto

lemma bind_outcome_Panic_iff:
  "bind_outcome m f = Panic p \<longleftrightarrow> m = Panic p \<or> (\<exists>a. m = Ret a \<and> f a = Panic p)"
  by (cases m) auto

section \<open>Signed machine integers\<close>

text \<open>
  \<open>wrap_s w x\<close> is the value of \<open>x\<close> stored in a two's complement integer of \<open>w\<close> bits.
\<close>

definition wrap_s :: "nat \<Rightarrow> int \<Rightarrow> int" where
  "wrap_s w x = (x + 2 ^ (w - 1)) mod 2 ^ w - 2 ^ (w - 1)"

abbreviation wrap32 :: "int \<Rightarrow> int" where "wrap32 \<equiv> wrap_s 32"
abbreviation wrap64 :: "int \<Rightarrow> int" where "wrap64 \<equiv> wrap_s 64"

definition fits_s :: "nat \<Rightarrow> int \<Rightarrow> bool" where
  "fits_s w x \<longleftrightarrow> - (2 ^ (w - 1)) \<le> x \<and> x < 2 ^ (w - 1)"

abbreviation int32_ok :: "int \<Rightarrow> bool" where "int32_ok \<equiv> fits_s 32"
abbreviation int64_ok :: "int \<Rightarrow> bool" where "int64_ok \<equiv> fits_s 64"

lemma two_power_pred: "0 < w \<Longrightarrow> (2::int) ^ w = 2 * 2 ^ (w - 1)"
  by (cases w) simp_all

lemma wrap_s_fits [go_int, intro]: "0 < w \<Longrightarrow> fits_s w (wrap_s w x)"
  using pos_mod_bound [of "2 ^ w" "x + 2 ^ (w - 1)"] pos_mod_sign [of "2 ^ w" "x + 2 ^ (w - 1)"]
  by (auto simp: wrap_s_def fits_s_def two_power_pred)

lemma wrap_s_id [go_int]: "fits_s w x \<Longrightarrow> 0 < w \<Longrightarrow> wrap_s w x = x"
  unfolding wrap_s_def fits_s_def
  by (subst mod_pos_pos_trivial) (auto simp: two_power_pred)

lemma wrap_s_idem [go_int, simp]: "0 < w \<Longrightarrow> wrap_s w (wrap_s w x) = wrap_s w x"
  by (rule wrap_s_id) auto

lemma wrap_s_add_left [go_int, simp]: "wrap_s w (wrap_s w x + y) = wrap_s w (x + y)"
  unfolding wrap_s_def by (simp add: algebra_simps mod_simps)

lemma wrap_s_add_right [go_int, simp]: "wrap_s w (x + wrap_s w y) = wrap_s w (x + y)"
  using wrap_s_add_left [of w y x] by (simp add: add.commute)

lemma wrap_s_diff_left [go_int, simp]: "wrap_s w (wrap_s w x - y) = wrap_s w (x - y)"
  using wrap_s_add_left [of w x "- y"] by simp

lemma wrap_s_eq_iff: "wrap_s w x = wrap_s w y \<longleftrightarrow> x mod 2 ^ w = y mod 2 ^ w"
proof -
  have "(x + c) mod 2 ^ w = (y + c) mod 2 ^ w \<longleftrightarrow> x mod 2 ^ w = y mod 2 ^ w" for c :: int
    by (simp add: mod_eq_dvd_iff)
  then show ?thesis by (simp add: wrap_s_def)
qed

lemma int64_ok_iff: "int64_ok x \<longleftrightarrow> - 9223372036854775808 \<le> x \<and> x < 9223372036854775808"
  by (simp add: fits_s_def)

lemma int32_ok_iff: "int32_ok x \<longleftrightarrow> - 2147483648 \<le> x \<and> x < 2147483648"
  by (simp add: fits_s_def)

lemma wrap64_id [go_int]: "int64_ok x \<Longrightarrow> wrap64 x = x"
  by (rule wrap_s_id) simp_all

lemma wrap32_id [go_int]: "int32_ok x \<Longrightarrow> wrap32 x = x"
  by (rule wrap_s_id) simp_all

section \<open>Truncating division\<close>

text \<open>Go's \<open>/\<close> and \<open>%\<close> truncate towards zero: \<^const>\<open>signed_divide\<close> and \<^const>\<open>signed_modulo\<close>.\<close>

lemma sdiv_nonneg: "0 \<le> (a::int) \<Longrightarrow> 0 < b \<Longrightarrow> a sdiv b = a div b"
  by (simp add: signed_divide_int_def sgn_if)

lemma smod_nonneg: "0 \<le> (a::int) \<Longrightarrow> 0 < b \<Longrightarrow> a smod b = a mod b"
  by (cases "a = 0") (simp_all add: signed_modulo_int_def)

section \<open>Decimal numerals\<close>

text \<open>\<^verbatim>\<open>strconv.Itoa\<close>.\<close>

definition digit_char :: "nat \<Rightarrow> char" where
  "digit_char n = char_of (48 + n)"

fun dec :: "nat \<Rightarrow> string" where
  "dec n = (if n < 10 then [digit_char n] else dec (n div 10) @ [digit_char (n mod 10)])"

declare dec.simps [simp del]

definition Itoa :: "int \<Rightarrow> string" where
  "Itoa x = (if x < 0 then CHR ''-'' # dec (nat (- x)) else dec (nat x))"

lemma of_char_digit [simp]: "n < 10 \<Longrightarrow> of_char (digit_char n) = (48 + n :: nat)"
  by (simp add: digit_char_def)

lemma dec_nonempty [simp]: "dec n \<noteq> []"
  by (subst dec.simps) simp

lemma dec_digits: "c \<in> set (dec n) \<Longrightarrow> \<exists>k<10. c = digit_char k"
proof (induction n rule: dec.induct)
  case (1 n)
  have "\<exists>k<10. digit_char (n mod 10) = digit_char k" by (rule exI [of _ "n mod 10"]) simp
  with 1 show ?case by (cases "n < 10") (auto simp: dec.simps [of n])
qed

section \<open>Lists\<close>

lemma takeWhile_append_stop:
  "\<forall>x\<in>set xs. P x \<Longrightarrow> ys = [] \<or> \<not> P (hd ys) \<Longrightarrow> takeWhile P (xs @ ys) = xs"
  by (cases ys) (simp_all add: takeWhile_append)

lemma dropWhile_append_stop:
  "\<forall>x\<in>set xs. P x \<Longrightarrow> ys = [] \<or> \<not> P (hd ys) \<Longrightarrow> dropWhile P (xs @ ys) = ys"
  by (cases ys) (simp_all add: dropWhile_append)

lemma fold_map_upd: "fold (\<lambda>(a, b) m. m(b \<mapsto> a)) xs m = m ++ map_of (rev (map prod.swap xs))"
  by (induction xs arbitrary: m) (auto simp: map_add_def fun_eq_iff split: option.splits)

lemma fold_map_upd_cong:
  assumes "mset xs = mset ys" and "distinct (map snd ys)"
  shows "fold (\<lambda>(a, b) m. m(b \<mapsto> a)) xs Map.empty = fold (\<lambda>(a, b) m. m(b \<mapsto> a)) ys Map.empty"
proof -
  have "mset (map snd xs) = mset (map snd ys)" using assms(1) by (metis mset_map)
  then have "distinct (map snd xs)" using assms(2) mset_eq_imp_distinct_iff by blast
  moreover have "set xs = set ys" using assms(1) by (rule mset_eq_setD)
  moreover have "map fst (rev (map prod.swap zs)) = rev (map snd zs)" for zs :: "('a \<times> 'b) list"
    by (simp add: rev_map)
  ultimately have "map_of (rev (map prod.swap xs)) = map_of (rev (map prod.swap ys))"
    using assms(2) by (subst map_of_inject_set) auto
  then show ?thesis by (simp add: fold_map_upd)
qed

lemma sort_key_unique:
  assumes "mset xs = mset ys" and "distinct ys" and "inj_on key (set ys)"
  shows "sort_key key xs = sort_key key ys"
proof -
  have s: "set (sort_key key xs) = set ys" "set (sort_key key ys) = set ys"
    using assms(1) by (auto dest: mset_eq_setD)
  have "distinct xs" using assms(1,2) mset_eq_imp_distinct_iff by blast
  then have "distinct (map key (sort_key key xs))" "distinct (map key (sort_key key ys))"
    using assms(2,3) s mset_eq_setD [OF assms(1)] by (simp_all add: distinct_map)
  moreover have "set (map key (sort_key key xs)) = set (map key (sort_key key ys))"
    by (simp only: set_map s)
  ultimately have "map key (sort_key key xs) = map key (sort_key key ys)"
    by (intro sorted_distinct_set_unique) simp_all
  then show ?thesis using assms(3) s by (metis inj_on_map_eq_map sup.idem)
qed

text \<open>The list without its \<open>i\<close>-th element.\<close>

definition remove_nth :: "nat \<Rightarrow> 'a list \<Rightarrow> 'a list" where
  "remove_nth i xs = take i xs @ drop (Suc i) xs"

lemma mset_nth_split:
  assumes "i < length xs"
  obtains M where "mset xs = add_mset (xs ! i) M" "\<And>y. mset (xs[i := y]) = add_mset y M" "mset (remove_nth i xs) = M"
proof
  have s: "xs = take i xs @ xs ! i # drop (Suc i) xs" using assms by (rule id_take_nth_drop)
  show "mset xs = add_mset (xs ! i) (mset (remove_nth i xs))"
    unfolding remove_nth_def by (subst s) simp
  show "mset (xs[i := y]) = add_mset y (mset (remove_nth i xs))" for y
    using assms by (simp add: remove_nth_def upd_conv_take_nth_drop)
qed simp

section \<open>Options\<close>

text \<open>
  The options structs of the packages are copied by their setters: \<^verbatim>\<open>SetX\<close> returns a changed copy and \<^verbatim>\<open>X\<close>
  reads the field.  A getter and a setter form a field when they satisfy the laws below; the
  packages interpret the locale for each of their fields.
\<close>

locale option_field =
  fixes getter :: "'o \<Rightarrow> 'v" and setter :: "'o \<Rightarrow> 'v \<Rightarrow> 'o"
  assumes get_set: "getter (setter opts v) = v"
    and set_get: "setter opts (getter opts) = opts"
    and set_set: "setter (setter opts v) w = setter opts w"
begin

text \<open>The idiom \<^verbatim>\<open>if cond { opts = opts.SetX(v) }\<close> of the configuration code.\<close>

definition override :: "bool \<Rightarrow> 'v \<Rightarrow> 'o \<Rightarrow> 'o" where
  "override c v opts = (if c then setter opts v else opts)"

lemma get_override: "getter (override c v opts) = (if c then v else getter opts)"
  by (simp add: override_def get_set)

lemma set_id_iff: "setter opts v = opts \<longleftrightarrow> getter opts = v"
  by (metis get_set set_get)

end

end
