(* ===== verification/XTime.thy ===== *)
theory XTime
  imports Prelude
begin

text \<open>
  Package \<^verbatim>\<open>time\<close>: \<^verbatim>\<open>time.go\<close>, \<^verbatim>\<open>unix_nano.go\<close>, \<^verbatim>\<open>range.go\<close>, \<^verbatim>\<open>range_iter.go\<close> and \<^verbatim>\<open>ranges.go\<close>.
  A \<^verbatim>\<open>time.Time\<close> is the instant it denotes, in nanoseconds since the Unix epoch; a range denotes
  the half-open set of its instants, a collection of ranges the union of them. The lemmas show
  that the in-place list algorithms keep the collection sorted and disjoint and compute union and
  difference of the sets they denote.
\<close>

section \<open>Instants and durations of the standard library\<close>

type_synonym instant = int
type_synonym duration = int

text \<open>\<^verbatim>\<open>time.Time{}\<close> is January 1, year 1, 00:00:00 UTC.\<close>

definition zero_time :: instant where
  "zero_time = - 62135596800 * 1000000000"

definition minDuration :: duration where "minDuration = - (2 ^ 63)"
definition maxDuration :: duration where "maxDuration = 2 ^ 63 - 1"

text \<open>\<^verbatim>\<open>Time.Sub\<close> saturates, \<^verbatim>\<open>Time.UnixNano\<close> wraps, \<^verbatim>\<open>Time.Truncate\<close> rounds down since the zero time.\<close>

definition Time_Sub :: "instant \<Rightarrow> instant \<Rightarrow> duration" where
  "Time_Sub t u =
     (if t - u > maxDuration then maxDuration
      else if t - u < minDuration then minDuration else t - u)"

definition Time_UnixNano :: "instant \<Rightarrow> int" where
  "Time_UnixNano t = wrap64 t"

definition Time_Unix0 :: "int \<Rightarrow> instant" where
  "Time_Unix0 nsec = nsec"

definition Time_Truncate :: "instant \<Rightarrow> duration \<Rightarrow> instant" where
  "Time_Truncate t d = (if d \<le> 0 then t else t - (t - zero_time) mod d)"

section \<open>time.go\<close>

datatype time_error = DivideByZero

definition nanosPerMillis :: int where "nanosPerMillis = 1000000"

definition ToNormalizedTime :: "instant \<Rightarrow> duration \<Rightarrow> (time_error, int) result" where
  "ToNormalizedTime t u =
     (if u = 0 then Inl DivideByZero else Inr (wrap64 (Time_UnixNano t sdiv u)))"

definition FromNormalizedTime :: "int \<Rightarrow> duration \<Rightarrow> instant" where
  "FromNormalizedTime nt u = Time_Unix0 (wrap64 (u * nt))"

definition ToNormalizedDuration :: "duration \<Rightarrow> duration \<Rightarrow> (time_error, int) result" where
  "ToNormalizedDuration d u = (if u = 0 then Inl DivideByZero else Inr (wrap64 (d sdiv u)))"

definition FromNormalizedDuration :: "int \<Rightarrow> duration \<Rightarrow> duration" where
  "FromNormalizedDuration nd u = wrap64 (nd * u)"

definition ToNanoseconds :: "instant \<Rightarrow> int" where
  "ToNanoseconds t = Time_UnixNano t"

definition FromNanoseconds :: "int \<Rightarrow> instant" where
  "FromNanoseconds nsecs = Time_Unix0 nsecs"

definition ToUnixMillis :: "instant \<Rightarrow> int" where
  "ToUnixMillis t = Time_UnixNano t sdiv nanosPerMillis"

definition FromUnixMillis :: "int \<Rightarrow> instant" where
  "FromUnixMillis ms = Time_Unix0 (wrap64 (ms * nanosPerMillis))"

definition Ceil :: "instant \<Rightarrow> duration \<Rightarrow> instant" where
  "Ceil t d = (let res = Time_Truncate t d in if res < t then res + d else res)"

definition MinTime :: "instant \<Rightarrow> instant \<Rightarrow> instant" where
  "MinTime t1 t2 = (if t1 < t2 then t1 else t2)"

definition MaxTime :: "instant \<Rightarrow> instant \<Rightarrow> instant" where
  "MaxTime t1 t2 = (if t1 > t2 then t1 else t2)"

section \<open>unix\_nano.go\<close>

type_synonym UnixNano = int

definition UnixNano_ToTime :: "UnixNano \<Rightarrow> instant" where
  "UnixNano_ToTime u = Time_Unix0 u"

definition ToUnixNano :: "instant \<Rightarrow> UnixNano" where
  "ToUnixNano t = Time_UnixNano t"

definition UnixNano_Before :: "UnixNano \<Rightarrow> UnixNano \<Rightarrow> bool" where
  "UnixNano_Before u t \<longleftrightarrow> u < t"

definition UnixNano_After :: "UnixNano \<Rightarrow> UnixNano \<Rightarrow> bool" where
  "UnixNano_After u t \<longleftrightarrow> u > t"

definition UnixNano_Equal :: "UnixNano \<Rightarrow> UnixNano \<Rightarrow> bool" where
  "UnixNano_Equal u t \<longleftrightarrow> u = t"

section \<open>range.go\<close>

record Range =
  Start :: instant
  End :: instant

definition zero_range :: Range where
  "zero_range = \<lparr>Start = zero_time, End = zero_time\<rparr>"

definition Range_IsEmpty :: "Range \<Rightarrow> bool" where
  "Range_IsEmpty r \<longleftrightarrow> Start r = End r"

definition Range_Equal :: "Range \<Rightarrow> Range \<Rightarrow> bool" where
  "Range_Equal r other \<longleftrightarrow> Start r = Start other \<and> End r = End other"

definition Range_Before :: "Range \<Rightarrow> Range \<Rightarrow> bool" where
  "Range_Before r other \<longleftrightarrow> \<not> End r > Start other"

definition Range_After :: "Range \<Rightarrow> Range \<Rightarrow> bool" where
  "Range_After r other \<longleftrightarrow> Range_Before other r"

definition Range_Contains :: "Range \<Rightarrow> Range \<Rightarrow> bool" where
  "Range_Contains r other \<longleftrightarrow> \<not> Start r > Start other \<and> \<not> End r < End other"

definition Range_Overlaps :: "Range \<Rightarrow> Range \<Rightarrow> bool" where
  "Range_Overlaps r other \<longleftrightarrow> End r > Start other \<and> Start r < End other"

definition Range_Duration :: "Range \<Rightarrow> duration" where
  "Range_Duration r = Time_Sub (End r) (Start r)"

definition Range_Intersect :: "Range \<Rightarrow> Range \<Rightarrow> Range \<times> bool" where
  "Range_Intersect r other =
     (if \<not> Range_Overlaps r other then (zero_range, False)
      else
        let n1 = (if Start r < Start other then r\<lparr>Start := Start other\<rparr> else r);
            n2 = (if End n1 > End other then n1\<lparr>End := End other\<rparr> else n1)
        in (n2, True))"

definition Range_Since :: "Range \<Rightarrow> instant \<Rightarrow> Range" where
  "Range_Since r t =
     (if t < Start r then r
      else if t > End r then zero_range
      else \<lparr>Start = t, End = End r\<rparr>)"

definition Range_Merge :: "Range \<Rightarrow> Range \<Rightarrow> Range" where
  "Range_Merge r other =
     \<lparr>Start = MinTime (Start r) (Start other), End = MaxTime (End r) (End other)\<rparr>"

text \<open>The nil slice and the empty slice are both \<open>[]\<close>: every non-nil result of the code is non-empty.\<close>

definition Range_Subtract :: "Range \<Rightarrow> Range \<Rightarrow> Range list" where
  "Range_Subtract r other =
     (if \<not> Range_Overlaps r other then [r]
      else if Range_Contains other r then []
      else
        let left = \<lparr>Start = Start r, End = Start other\<rparr>;
            right = \<lparr>Start = End other, End = End r\<rparr>
        in if Range_Contains r other then
             (if \<not> Range_IsEmpty left then [left] else []) @
             (if \<not> Range_IsEmpty right then [right] else [])
           else if \<not> Start r > Start other then
             (if \<not> Range_IsEmpty left then [left] else [])
           else (if \<not> Range_IsEmpty right then [right] else []))"

definition Range_String :: "(instant \<Rightarrow> string) \<Rightarrow> Range \<Rightarrow> string" where
  "Range_String timeString r = ''('' @ timeString (Start r) @ '','' @ timeString (End r) @ '')''"

lemmas range_defs = Range_IsEmpty_def Range_Equal_def Range_Before_def Range_After_def
  Range_Contains_def Range_Overlaps_def Range_Merge_def MinTime_def MaxTime_def

section \<open>range\_iter.go\<close>

text \<open>The list element \<open>cur\<close> points at is its position in the list.\<close>

record RangeIter =
  it_ranges :: "Range list option"
  it_cur :: "nat option"

definition newRangeIter :: "Range list option \<Rightarrow> RangeIter" where
  "newRangeIter ranges = \<lparr>it_ranges = ranges, it_cur = None\<rparr>"

definition RangeIter_Next :: "RangeIter \<Rightarrow> bool \<times> RangeIter" where
  "RangeIter_Next it =
     (case it_ranges it of
        None \<Rightarrow> (False, it)
      | Some xs \<Rightarrow>
          let c = (case it_cur it of
                     None \<Rightarrow> (if xs = [] then None else Some 0)
                   | Some i \<Rightarrow> (if Suc i < length xs then Some (Suc i) else None))
          in (c \<noteq> None, it\<lparr>it_cur := c\<rparr>))"

definition RangeIter_Value :: "RangeIter \<Rightarrow> Range" where
  "RangeIter_Value it =
     (case (it_ranges it, it_cur it) of
        (Some xs, Some i) \<Rightarrow> (if i < length xs then xs ! i else zero_range)
      | _ \<Rightarrow> zero_range)"

text \<open>The loop \<^verbatim>\<open>for it.Next() { ... it.Value() ... }\<close> of \<^verbatim>\<open>AddRanges\<close> and \<^verbatim>\<open>RemoveRanges\<close>.\<close>

function iter_loop :: "(Range \<Rightarrow> 'a \<Rightarrow> 'a) \<Rightarrow> RangeIter \<Rightarrow> 'a \<Rightarrow> 'a" where
  "iter_loop f it res =
     (case RangeIter_Next it of
        (ok, it') \<Rightarrow> if ok then iter_loop f it' (f (RangeIter_Value it') res) else res)"
  by pat_completeness auto
termination
  by (relation "measure (\<lambda>(f, it, res).
        case it_ranges it of None \<Rightarrow> 0
        | Some xs \<Rightarrow> (case it_cur it of None \<Rightarrow> length xs | Some i \<Rightarrow> length xs - Suc i))")
     (auto simp: RangeIter_Next_def Let_def split: option.splits if_splits)

declare iter_loop.simps [simp del]

section \<open>ranges.go\<close>

text \<open>\<^verbatim>\<open>sortedRanges\<close> is a pointer to a linked list: \<^term>\<open>None\<close> is the nil pointer.\<close>

record Ranges =
  sortedRanges :: "Range list option"

definition Ranges_Len :: "Ranges \<Rightarrow> nat" where
  "Ranges_Len tr = (case sortedRanges tr of None \<Rightarrow> 0 | Some xs \<Rightarrow> length xs)"

definition Ranges_IsEmpty :: "Ranges \<Rightarrow> bool" where
  "Ranges_IsEmpty tr \<longleftrightarrow> Ranges_Len tr = 0"

text \<open>
  The element \<open>findFirstNotBefore\<close> returns is given by the elements in front of it and the list
  that starts at it; an empty second part is the nil element.
\<close>

fun find_not_before :: "Range list \<Rightarrow> Range \<Rightarrow> Range list \<times> Range list" where
  "find_not_before [] r = ([], [])"
| "find_not_before (e # es) r =
     (if \<not> Range_Before e r then ([], e # es)
      else case find_not_before es r of (pre, rest) \<Rightarrow> (e # pre, rest))"

definition findFirstNotBefore :: "Ranges \<Rightarrow> Range \<Rightarrow> Range list \<times> Range list" where
  "findFirstNotBefore tr r =
     (case sortedRanges tr of None \<Rightarrow> ([], []) | Some xs \<Rightarrow> find_not_before xs r)"

definition Ranges_Overlaps :: "Ranges \<Rightarrow> Range \<Rightarrow> bool" where
  "Ranges_Overlaps tr r =
     (if Range_IsEmpty r then False
      else case snd (findFirstNotBefore tr r) of
             [] \<Rightarrow> False
           | lr # _ \<Rightarrow> Range_Overlaps lr r)"

fun add_loop :: "Range \<Rightarrow> Range list \<Rightarrow> Range list" where
  "add_loop r [] = [r]"
| "add_loop r (lr # ne) =
     (if \<not> Range_Overlaps lr r then r # lr # ne else add_loop (Range_Merge r lr) ne)"

definition addRangeInPlace :: "Range \<Rightarrow> Range list \<Rightarrow> Range list" where
  "addRangeInPlace r xs =
     (if Range_IsEmpty r then xs
      else case find_not_before xs r of (pre, e) \<Rightarrow> pre @ add_loop r e)"

fun remove_loop :: "Range \<Rightarrow> Range list \<Rightarrow> Range list" where
  "remove_loop r [] = []"
| "remove_loop r (lr # ne) =
     (if \<not> Range_Overlaps lr r then lr # ne
      else case Range_Subtract lr r of
             [] \<Rightarrow> remove_loop r ne
           | res \<Rightarrow> res @ remove_loop r ne)"

definition removeRangeInPlace :: "Range \<Rightarrow> Range list \<Rightarrow> Range list" where
  "removeRangeInPlace r xs =
     (if Range_IsEmpty r then xs
      else case find_not_before xs r of (pre, e) \<Rightarrow> pre @ remove_loop r e)"

definition Ranges_clone :: "Ranges \<Rightarrow> Range list" where
  "Ranges_clone tr = (case sortedRanges tr of None \<Rightarrow> [] | Some xs \<Rightarrow> xs)"

definition AddRange :: "Ranges \<Rightarrow> Range \<Rightarrow> Ranges" where
  "AddRange tr r = \<lparr>sortedRanges = Some (addRangeInPlace r (Ranges_clone tr))\<rparr>"

definition RemoveRange :: "Ranges \<Rightarrow> Range \<Rightarrow> Ranges" where
  "RemoveRange tr r = \<lparr>sortedRanges = Some (removeRangeInPlace r (Ranges_clone tr))\<rparr>"

definition Ranges_Iter :: "Ranges \<Rightarrow> RangeIter" where
  "Ranges_Iter tr = newRangeIter (sortedRanges tr)"

definition AddRanges :: "Ranges \<Rightarrow> Ranges \<Rightarrow> Ranges" where
  "AddRanges tr other =
     \<lparr>sortedRanges = Some (iter_loop addRangeInPlace (Ranges_Iter other) (Ranges_clone tr))\<rparr>"

definition RemoveRanges :: "Ranges \<Rightarrow> Ranges \<Rightarrow> Ranges" where
  "RemoveRanges tr other =
     \<lparr>sortedRanges = Some (iter_loop removeRangeInPlace (Ranges_Iter other) (Ranges_clone tr))\<rparr>"

definition NewRanges :: "Range list \<Rightarrow> Ranges" where
  "NewRanges ranges = foldl AddRange \<lparr>sortedRanges = None\<rparr> ranges"

fun ranges_text :: "(instant \<Rightarrow> string) \<Rightarrow> Range list \<Rightarrow> string" where
  "ranges_text timeString [] = []"
| "ranges_text timeString (r # rs) =
     Range_String timeString r @ (if rs \<noteq> [] then '','' else []) @ ranges_text timeString rs"

definition Ranges_String :: "(instant \<Rightarrow> string) \<Rightarrow> Ranges \<Rightarrow> string" where
  "Ranges_String timeString tr =
     ''['' @ (case sortedRanges tr of None \<Rightarrow> [] | Some xs \<Rightarrow> ranges_text timeString xs) @ '']''"

section \<open>What ranges denote\<close>

definition instants :: "Range \<Rightarrow> instant set" where
  "instants r = {t. Start r \<le> t \<and> t < End r}"

definition covered :: "Range list \<Rightarrow> instant set" where
  "covered xs = (\<Union>r\<in>set xs. instants r)"

definition ordered :: "Range \<Rightarrow> bool" where
  "ordered r \<longleftrightarrow> Start r \<le> End r"

definition ranges_inv :: "Range list \<Rightarrow> bool" where
  "ranges_inv xs \<longleftrightarrow> (\<forall>r\<in>set xs. Start r < End r) \<and> sorted_wrt Range_Before xs"

lemma ranges_inv_Nil [simp]: "ranges_inv []"
  by (simp add: ranges_inv_def)

lemma ranges_inv_Cons:
  "ranges_inv (r # xs) \<longleftrightarrow> Start r < End r \<and> (\<forall>x\<in>set xs. End r \<le> Start x) \<and> ranges_inv xs"
  by (auto simp: ranges_inv_def Range_Before_def)

lemma ranges_inv_append:
  "ranges_inv (xs @ ys) \<longleftrightarrow>
     ranges_inv xs \<and> ranges_inv ys \<and> (\<forall>x\<in>set xs. \<forall>y\<in>set ys. End x \<le> Start y)"
  by (auto simp: ranges_inv_def sorted_wrt_append Range_Before_def not_less)

lemma covered_simps [simp]:
  "covered [] = {}"
  "covered (r # xs) = instants r \<union> covered xs"
  "covered (xs @ ys) = covered xs \<union> covered ys"
  by (auto simp: covered_def)

lemma instants_empty_iff: "ordered r \<Longrightarrow> instants r = {} \<longleftrightarrow> Range_IsEmpty r"
  by (force simp: ordered_def instants_def Range_IsEmpty_def)

lemma ranges_inv_nonempty: "ranges_inv xs \<Longrightarrow> r \<in> set xs \<Longrightarrow> Start r < End r"
  by (simp add: ranges_inv_def)

subsection \<open>Single ranges\<close>

lemma Overlaps_iff:
  "Start a < End a \<Longrightarrow> Start b < End b \<Longrightarrow>
   Range_Overlaps a b \<longleftrightarrow> instants a \<inter> instants b \<noteq> {}"
proof
  assume "Range_Overlaps a b" "Start a < End a" "Start b < End b"
  then have "max (Start a) (Start b) \<in> instants a \<inter> instants b"
    by (auto simp: Range_Overlaps_def instants_def)
  then show "instants a \<inter> instants b \<noteq> {}" by blast
qed (auto simp: Range_Overlaps_def instants_def)

lemma instants_Intersect:
  "ordered r \<Longrightarrow> ordered other \<Longrightarrow>
   instants (fst (Range_Intersect r other)) = instants r \<inter> instants other"
  by (auto simp: Range_Intersect_def Range_Overlaps_def instants_def ordered_def zero_range_def
      Let_def)

lemma Intersect_ok_iff:
  "Start r < End r \<Longrightarrow> Start other < End other \<Longrightarrow>
   snd (Range_Intersect r other) \<longleftrightarrow> instants r \<inter> instants other \<noteq> {}"
  by (simp add: Range_Intersect_def Let_def Overlaps_iff [symmetric])

lemma instants_Merge_overlap:
  "Range_Overlaps a b \<Longrightarrow> instants (Range_Merge a b) = instants a \<union> instants b"
  by (auto simp: range_defs instants_def)

lemma Merge_least:
  "Range_Contains c a \<Longrightarrow> Range_Contains c b \<Longrightarrow> Range_Contains c (Range_Merge a b)"
  by (auto simp: range_defs)

lemma Merge_contains: "Range_Contains (Range_Merge a b) a" "Range_Contains (Range_Merge a b) b"
  by (auto simp: range_defs)

lemma covered_Subtract:
  "Start r < End r \<Longrightarrow> Start other < End other \<Longrightarrow>
   covered (Range_Subtract r other) = instants r - instants other"
  by (auto simp: Range_Subtract_def range_defs Let_def instants_def)

lemma Subtract_inv:
  "Start r < End r \<Longrightarrow> Start other < End other \<Longrightarrow> ranges_inv (Range_Subtract r other)"
  by (auto simp: Range_Subtract_def range_defs Let_def ranges_inv_Cons)

lemma Subtract_within:
  "Start r < End r \<Longrightarrow> Start other < End other \<Longrightarrow> x \<in> set (Range_Subtract r other) \<Longrightarrow>
   Start r \<le> Start x \<and> End x \<le> End r"
  by (auto simp: Range_Subtract_def range_defs Let_def split: if_splits)

subsection \<open>The search\<close>

lemma find_not_before_eq:
  "find_not_before xs r =
     (takeWhile (\<lambda>e. Range_Before e r) xs, dropWhile (\<lambda>e. Range_Before e r) xs)"
  by (induction xs) auto

lemma find_not_before_split: "find_not_before xs r = (pre, rest) \<Longrightarrow> xs = pre @ rest"
  by (auto simp: find_not_before_eq)

lemma find_not_before_pre:
  "find_not_before xs r = (pre, rest) \<Longrightarrow> x \<in> set pre \<Longrightarrow> End x \<le> Start r"
  by (auto simp: find_not_before_eq Range_Before_def dest: set_takeWhileD)

lemma find_not_before_rest:
  assumes "ranges_inv xs" and "find_not_before xs r = (pre, rest)" and "x \<in> set rest"
  shows "Start r < End x"
proof (cases rest)
  case Nil
  with assms(3) show ?thesis by simp
next
  case (Cons y ys)
  with assms(2) have "\<not> Range_Before y r"
    by (auto simp: find_not_before_eq dropWhile_eq_Cons_conv)
  then have y: "Start r < End y" by (simp add: Range_Before_def)
  from assms(1,2) Cons have "ranges_inv (y # ys)"
    by (auto dest: find_not_before_split simp: ranges_inv_append)
  with y assms(3) Cons show ?thesis
    by (fastforce simp: ranges_inv_Cons dest: ranges_inv_nonempty)
qed

subsection \<open>Adding and removing a range\<close>

lemma add_loop_starts: "y \<in> set (add_loop r es) \<Longrightarrow> Start y \<in> insert (Start r) (Start ` set es)"
  by (induction r es rule: add_loop.induct) (auto simp: range_defs split: if_splits)

lemma add_loop_correct:
  assumes "ranges_inv es" and "Start r < End r" and "\<forall>x\<in>set es. Start r < End x"
  shows "ranges_inv (add_loop r es) \<and> covered (add_loop r es) = instants r \<union> covered es"
  using assms
proof (induction r es rule: add_loop.induct)
  case (1 r)
  then show ?case by (simp add: ranges_inv_Cons)
next
  case (2 r lr ne)
  show ?case
  proof (cases "Range_Overlaps lr r")
    case False
    with "2.prems" show ?thesis
      by (fastforce simp: ranges_inv_Cons Range_Overlaps_def)
  next
    case True
    let ?m = "Range_Merge r lr"
    have "\<forall>x\<in>set ne. Start ?m < End x"
      using "2.prems" True by (fastforce simp: ranges_inv_Cons range_defs dest: ranges_inv_nonempty)
    moreover have "Start ?m < End ?m"
      using "2.prems" by (auto simp: range_defs)
    ultimately have "ranges_inv (add_loop ?m ne) \<and> covered (add_loop ?m ne) = instants ?m \<union> covered ne"
      using "2.IH" "2.prems" True by (simp add: ranges_inv_Cons)
    moreover have "instants ?m = instants r \<union> instants lr"
      using True by (intro instants_Merge_overlap) (auto simp: Range_Overlaps_def)
    ultimately show ?thesis using True by auto
  qed
qed

lemma addRangeInPlace_correct:
  assumes "ranges_inv xs" and "ordered r"
  shows "ranges_inv (addRangeInPlace r xs) \<and> covered (addRangeInPlace r xs) = covered xs \<union> instants r"
proof (cases "Range_IsEmpty r")
  case True
  with assms show ?thesis using instants_empty_iff [of r] by (simp add: addRangeInPlace_def)
next
  case False
  obtain pre e where s: "find_not_before xs r = (pre, e)" by force
  from False assms(2) have r: "Start r < End r" by (simp add: ordered_def Range_IsEmpty_def)
  have inv: "ranges_inv pre" "ranges_inv e" "\<forall>x\<in>set pre. \<forall>y\<in>set e. End x \<le> Start y"
    using assms(1) find_not_before_split [OF s] by (auto simp: ranges_inv_append)
  have loop: "ranges_inv (add_loop r e)" "covered (add_loop r e) = instants r \<union> covered e"
    using add_loop_correct [of e r] inv(2) r find_not_before_rest [OF assms(1) s] by auto
  have "\<forall>x\<in>set pre. \<forall>y\<in>set (add_loop r e). End x \<le> Start y"
    using inv(3) find_not_before_pre [OF s] by (fastforce dest: add_loop_starts)
  then show ?thesis
    using False s loop inv(1) find_not_before_split [OF s]
    by (auto simp: addRangeInPlace_def ranges_inv_append)
qed

lemma remove_loop_within:
  "ranges_inv es \<Longrightarrow> Start r < End r \<Longrightarrow> y \<in> set (remove_loop r es) \<Longrightarrow>
   \<exists>x\<in>set es. Start x \<le> Start y"
proof (induction r es rule: remove_loop.induct)
  case (2 r lr ne)
  then show ?case
    by (auto simp: ranges_inv_Cons split: if_splits list.splits dest: Subtract_within)
qed simp

lemma remove_loop_Cons_overlap:
  "Range_Overlaps lr r \<Longrightarrow> remove_loop r (lr # ne) = Range_Subtract lr r @ remove_loop r ne"
  by (simp split: list.split)

lemma remove_loop_correct:
  assumes "ranges_inv es" and "Start r < End r" and "\<forall>x\<in>set es. Start r < End x"
  shows "ranges_inv (remove_loop r es) \<and> covered (remove_loop r es) = covered es - instants r"
  using assms
proof (induction es)
  case Nil
  then show ?case by simp
next
  case (Cons lr ne)
  show ?case
  proof (cases "Range_Overlaps lr r")
    case False
    then have "End r \<le> Start lr" using Cons.prems by (auto simp: Range_Overlaps_def)
    then have "\<forall>x\<in>set (lr # ne). instants x \<inter> instants r = {}"
      using Cons.prems(1) by (fastforce simp: ranges_inv_Cons instants_def)
    then have "covered (lr # ne) \<inter> instants r = {}" by (auto simp: covered_def)
    then show ?thesis using False Cons.prems(1) by auto
  next
    case True
    from Cons have IH: "ranges_inv (remove_loop r ne)" "covered (remove_loop r ne) = covered ne - instants r"
      by (auto simp: ranges_inv_Cons)
    have lr: "Start lr < End lr" "\<forall>x\<in>set ne. End lr \<le> Start x"
      using Cons.prems(1) by (auto simp: ranges_inv_Cons)
    have "\<forall>x\<in>set (Range_Subtract lr r). \<forall>y\<in>set (remove_loop r ne). End x \<le> Start y"
      using Subtract_within [OF lr(1) Cons.prems(2)] lr(2) Cons.prems
        remove_loop_within [of ne r] by (fastforce simp: ranges_inv_Cons)
    then show ?thesis
      using True IH lr(1) Cons.prems(2)
      by (auto simp: remove_loop_Cons_overlap ranges_inv_append covered_Subtract Subtract_inv
          simp del: remove_loop.simps)
  qed
qed

lemma removeRangeInPlace_correct:
  assumes "ranges_inv xs" and "ordered r"
  shows "ranges_inv (removeRangeInPlace r xs) \<and>
         covered (removeRangeInPlace r xs) = covered xs - instants r"
proof (cases "Range_IsEmpty r")
  case True
  with assms show ?thesis using instants_empty_iff [of r] by (simp add: removeRangeInPlace_def)
next
  case False
  obtain pre e where s: "find_not_before xs r = (pre, e)" by force
  from False assms(2) have r: "Start r < End r" by (simp add: ordered_def Range_IsEmpty_def)
  have inv: "ranges_inv pre" "ranges_inv e" "\<forall>x\<in>set pre. \<forall>y\<in>set e. End x \<le> Start y"
    using assms(1) find_not_before_split [OF s] by (auto simp: ranges_inv_append)
  have loop: "ranges_inv (remove_loop r e)" "covered (remove_loop r e) = covered e - instants r"
    using remove_loop_correct [of e r] inv(2) r find_not_before_rest [OF assms(1) s] by auto
  have "\<forall>x\<in>set pre. \<forall>y\<in>set (remove_loop r e). End x \<le> Start y"
    using inv(3) remove_loop_within [OF inv(2) r] by fastforce
  moreover have "covered pre \<inter> instants r = {}"
    using find_not_before_pre [OF s] by (force simp: covered_def instants_def)
  ultimately show ?thesis
    using False s loop inv(1) find_not_before_split [OF s]
    by (auto simp: removeRangeInPlace_def ranges_inv_append)
qed

section \<open>Set updates, once for both directions\<close>

text \<open>
  The contract of an in-place operation that combines the denoted set with that of its argument;
  its clients run it over a sequence of ranges.
\<close>

locale set_update =
  fixes inv :: "'s \<Rightarrow> bool"
    and den :: "'s \<Rightarrow> 't set"
    and ok :: "'r \<Rightarrow> bool"
    and elems :: "'r \<Rightarrow> 't set"
    and upd :: "'r \<Rightarrow> 's \<Rightarrow> 's"
    and comb :: "'t set \<Rightarrow> 't set \<Rightarrow> 't set"
  assumes upd_inv: "inv s \<Longrightarrow> ok r \<Longrightarrow> inv (upd r s)"
    and upd_den: "inv s \<Longrightarrow> ok r \<Longrightarrow> den (upd r s) = comb (den s) (elems r)"
begin

lemma fold_inv: "inv s \<Longrightarrow> \<forall>r\<in>set rs. ok r \<Longrightarrow> inv (fold upd rs s)"
  by (induction rs arbitrary: s) (auto simp: upd_inv)

lemma fold_den:
  "inv s \<Longrightarrow> \<forall>r\<in>set rs. ok r \<Longrightarrow> den (fold upd rs s) = foldl comb (den s) (map elems rs)"
  by (induction rs arbitrary: s) (auto simp: upd_inv upd_den)

end

interpretation add_upd: set_update ranges_inv covered ordered instants addRangeInPlace "(\<union>)"
  by unfold_locales (auto simp: addRangeInPlace_correct)

interpretation remove_upd: set_update ranges_inv covered ordered instants removeRangeInPlace "(-)"
  by unfold_locales (auto simp: removeRangeInPlace_correct)

lemma foldl_union: "foldl (\<union>) A Bs = A \<union> \<Union>(set Bs)"
  by (induction Bs arbitrary: A) auto

lemma foldl_minus: "foldl (-) (A :: 'a set) Bs = A - \<Union>(set Bs)"
  by (induction Bs arbitrary: A) auto

lemma covered_Union: "\<Union>(set (map instants rs)) = covered rs"
  by (simp add: covered_def)

section \<open>The iterator enumerates the list\<close>

lemma iter_loop_from:
  "it_ranges it = Some xs \<Longrightarrow> it_cur it = Some i \<Longrightarrow> i < length xs \<Longrightarrow>
   iter_loop f it res = fold f (drop (Suc i) xs) res"
proof (induction "length xs - i" arbitrary: it i res)
  case 0
  then show ?case by simp
next
  case (Suc n)
  show ?case
  proof (cases "Suc i < length xs")
    case True
    with Suc.prems have
      "RangeIter_Next it = (True, it\<lparr>it_cur := Some (Suc i)\<rparr>)"
      "RangeIter_Value (it\<lparr>it_cur := Some (Suc i)\<rparr>) = xs ! Suc i"
      by (simp_all add: RangeIter_Next_def RangeIter_Value_def)
    then have "iter_loop f it res = iter_loop f (it\<lparr>it_cur := Some (Suc i)\<rparr>) (f (xs ! Suc i) res)"
      by (subst iter_loop.simps) simp
    also have "\<dots> = fold f (drop (Suc (Suc i)) xs) (f (xs ! Suc i) res)"
      using Suc.prems Suc.hyps(2) True by (intro Suc.hyps(1)) auto
    finally show ?thesis using True by (simp add: Cons_nth_drop_Suc [symmetric])
  next
    case False
    with Suc.prems show ?thesis
      by (subst iter_loop.simps) (simp add: RangeIter_Next_def)
  qed
qed

lemma iter_loop_fold:
  "iter_loop f (newRangeIter ranges) res = fold f (case ranges of None \<Rightarrow> [] | Some xs \<Rightarrow> xs) res"
proof (cases ranges)
  case None
  then show ?thesis by (subst iter_loop.simps) (simp add: newRangeIter_def RangeIter_Next_def)
next
  case (Some xs)
  show ?thesis
  proof (cases xs)
    case Nil
    with Some show ?thesis
      by (subst iter_loop.simps) (simp add: newRangeIter_def RangeIter_Next_def)
  next
    case (Cons y ys)
    with Some show ?thesis
      by (subst iter_loop.simps)
         (simp add: newRangeIter_def RangeIter_Next_def RangeIter_Value_def iter_loop_from)
  qed
qed

section \<open>The collection\<close>

definition Ranges_inv :: "Ranges \<Rightarrow> bool" where
  "Ranges_inv tr \<longleftrightarrow> ranges_inv (Ranges_clone tr)"

definition denotes :: "Ranges \<Rightarrow> instant set" where
  "denotes tr = covered (Ranges_clone tr)"

lemma clone_Some [simp]: "Ranges_clone \<lparr>sortedRanges = Some xs\<rparr> = xs"
  by (simp add: Ranges_clone_def)

lemma clone_None [simp]: "Ranges_clone \<lparr>sortedRanges = None\<rparr> = []"
  by (simp add: Ranges_clone_def)

lemma ranges_inv_ordered: "ranges_inv xs \<Longrightarrow> \<forall>r\<in>set xs. ordered r"
  by (auto simp: ranges_inv_def ordered_def)

lemma foldl_AddRange:
  "Ranges_clone (foldl AddRange tr rs) = fold addRangeInPlace rs (Ranges_clone tr)"
  by (induction rs arbitrary: tr) (simp_all add: AddRange_def)

lemma findFirst_clone: "findFirstNotBefore tr r = find_not_before (Ranges_clone tr) r"
  by (simp add: findFirstNotBefore_def Ranges_clone_def split: option.split)


section \<open>Properties\<close>

text \<open>
  C4: adding a range whose start is not after its end keeps the collection sorted, disjoint and
  free of empty ranges, and adds exactly the instants of the range.
\<close>

theorem AddRange_union:
  assumes "Ranges_inv tr" and "ordered r"
  shows "Ranges_inv (AddRange tr r) \<and> denotes (AddRange tr r) = denotes tr \<union> instants r"
  using assms addRangeInPlace_correct [of "Ranges_clone tr" r]
  by (simp add: Ranges_inv_def denotes_def AddRange_def)

abbreviation rng :: "instant \<Rightarrow> instant \<Rightarrow> Range" where
  "rng a b \<equiv> \<lparr>Start = a, End = b\<rparr>"

definition ex_ranges :: Ranges where
  "ex_ranges = \<lparr>sortedRanges = Some [rng 0 10, rng 20 30, rng 30 40]\<rparr>"

lemma ex_ranges_inv: "Ranges_inv ex_ranges"
  by (simp add: ex_ranges_def Ranges_inv_def ranges_inv_Cons)

theorem AddRange_union_witness:
  "AddRange ex_ranges (rng 5 25) = \<lparr>sortedRanges = Some [rng 0 30, rng 30 40]\<rparr> \<and>
   denotes (AddRange ex_ranges (rng 5 25)) = denotes ex_ranges \<union> instants (rng 5 25)"
proof -
  have "ordered (rng 5 25)" by (simp add: ordered_def)
  from AddRange_union [OF ex_ranges_inv this] show ?thesis
    by (simp add: ex_ranges_def AddRange_def addRangeInPlace_def range_defs)
qed

text \<open>
  C5: removing a range whose start is not after its end keeps the collection sorted, disjoint and
  free of empty ranges, and removes exactly the instants of the range.
\<close>

theorem RemoveRange_difference:
  assumes "Ranges_inv tr" and "ordered r"
  shows "Ranges_inv (RemoveRange tr r) \<and> denotes (RemoveRange tr r) = denotes tr - instants r"
  using assms removeRangeInPlace_correct [of "Ranges_clone tr" r]
  by (simp add: Ranges_inv_def denotes_def RemoveRange_def)

theorem RemoveRange_difference_witness:
  "RemoveRange ex_ranges (rng 5 25) =
     \<lparr>sortedRanges = Some [rng 0 5, rng 25 30, rng 30 40]\<rparr> \<and>
   denotes (RemoveRange ex_ranges (rng 5 25)) = denotes ex_ranges - instants (rng 5 25)"
proof -
  have "ordered (rng 5 25)" by (simp add: ordered_def)
  from RemoveRange_difference [OF ex_ranges_inv this] show ?thesis
    by (simp add: ex_ranges_def RemoveRange_def removeRangeInPlace_def Range_Subtract_def range_defs)
qed

text \<open>
  C6: the bulk operations run over the iterator of their argument and compute the union and the
  difference of the two collections; \<^verbatim>\<open>NewRanges\<close> builds a well-formed collection of exactly the
  instants of its arguments, in whatever order they are given.
\<close>

theorem bulk_operations:
  assumes "Ranges_inv tr" and "Ranges_inv other" and "\<forall>r\<in>set rs. ordered r"
  shows "Ranges_inv (AddRanges tr other) \<and> denotes (AddRanges tr other) = denotes tr \<union> denotes other \<and>
         Ranges_inv (RemoveRanges tr other) \<and>
         denotes (RemoveRanges tr other) = denotes tr - denotes other \<and>
         Ranges_inv (NewRanges rs) \<and> denotes (NewRanges rs) = covered rs"
proof -
  have ok: "\<forall>r\<in>set (Ranges_clone other). ordered r"
    using assms(2) by (simp add: Ranges_inv_def ranges_inv_ordered)
  note defs = Ranges_inv_def denotes_def AddRanges_def RemoveRanges_def Ranges_Iter_def
    iter_loop_fold Ranges_clone_def [of other, symmetric]
  have "Ranges_inv (AddRanges tr other) \<and> denotes (AddRanges tr other) = denotes tr \<union> denotes other"
    using add_upd.fold_inv [OF _ ok] add_upd.fold_den [OF _ ok] assms(1)
    by (simp add: defs foldl_union covered_Union [symmetric])
  moreover have "Ranges_inv (RemoveRanges tr other) \<and>
        denotes (RemoveRanges tr other) = denotes tr - denotes other"
    using remove_upd.fold_inv [OF _ ok] remove_upd.fold_den [OF _ ok] assms(1)
    by (simp add: defs foldl_minus covered_Union [symmetric])
  moreover have "Ranges_inv (NewRanges rs) \<and> denotes (NewRanges rs) = covered rs"
    using add_upd.fold_inv [OF _ assms(3), of "[]"] add_upd.fold_den [OF _ assms(3), of "[]"]
    by (simp add: Ranges_inv_def denotes_def NewRanges_def foldl_AddRange foldl_union
        covered_Union [symmetric])
  ultimately show ?thesis by blast
qed

theorem bulk_operations_witness:
  "RemoveRanges ex_ranges (NewRanges [rng 25 35, rng 5 26]) =
     \<lparr>sortedRanges = Some [rng 0 5, rng 35 40]\<rparr> \<and>
   denotes (RemoveRanges ex_ranges (NewRanges [rng 25 35, rng 5 26])) =
     denotes ex_ranges - denotes (NewRanges [rng 25 35, rng 5 26])"
proof -
  have ok: "\<forall>r\<in>set [rng 25 35, rng 5 26]. ordered r" by (simp add: ordered_def)
  have new: "NewRanges [rng 25 35, rng 5 26] = \<lparr>sortedRanges = Some [rng 5 35]\<rparr>"
    by (simp add: NewRanges_def AddRange_def addRangeInPlace_def range_defs)
  have "Ranges_inv (NewRanges [rng 25 35, rng 5 26])"
    by (simp add: new Ranges_inv_def ranges_inv_Cons)
  from bulk_operations [OF ex_ranges_inv this ok]
  have "denotes (RemoveRanges ex_ranges (NewRanges [rng 25 35, rng 5 26])) =
      denotes ex_ranges - denotes (NewRanges [rng 25 35, rng 5 26])" by blast
  then show ?thesis
    by (simp add: new RemoveRanges_def Ranges_Iter_def iter_loop_fold)
       (simp add: ex_ranges_def removeRangeInPlace_def Range_Subtract_def range_defs)
qed

text \<open>
  Although it looks at a single element of the list, \<^verbatim>\<open>Ranges.Overlaps\<close> decides whether the
  collection and the range have an instant in common.
\<close>

theorem Ranges_Overlaps_iff:
  assumes "Ranges_inv tr" and "ordered r"
  shows "Ranges_Overlaps tr r \<longleftrightarrow> denotes tr \<inter> instants r \<noteq> {}"
proof (cases "Range_IsEmpty r")
  case True
  with assms(2) show ?thesis using instants_empty_iff [of r] by (simp add: Ranges_Overlaps_def)
next
  case False
  with assms(2) have r: "Start r < End r" by (simp add: ordered_def Range_IsEmpty_def)
  obtain pre e where s: "find_not_before (Ranges_clone tr) r = (pre, e)" by force
  have inv: "ranges_inv e" using assms(1) find_not_before_split [OF s]
    by (auto simp: Ranges_inv_def ranges_inv_append)
  have pre: "covered pre \<inter> instants r = {}"
    using find_not_before_pre [OF s] by (force simp: covered_def instants_def)
  have later: "covered ne \<inter> instants r = {}" if "e = lr # ne" "\<not> Range_Overlaps lr r" for lr ne
  proof -
    have "Start r < End lr"
      using find_not_before_rest [OF _ s, of lr] assms(1) that(1) by (simp add: Ranges_inv_def)
    with that(2) have "End r \<le> Start lr" by (simp add: Range_Overlaps_def)
    then show ?thesis using inv that(1) by (force simp: ranges_inv_Cons covered_def instants_def)
  qed
  have den: "denotes tr \<inter> instants r = covered e \<inter> instants r"
    using pre find_not_before_split [OF s] by (auto simp: denotes_def)
  show ?thesis
  proof (cases e)
    case Nil
    with den s show ?thesis by (simp add: Ranges_Overlaps_def findFirst_clone)
  next
    case (Cons lr ne)
    then have "Range_Overlaps lr r \<longleftrightarrow> instants lr \<inter> instants r \<noteq> {}"
      using inv r by (simp add: Overlaps_iff ranges_inv_Cons)
    with Cons later den s False show ?thesis
      by (auto simp: Ranges_Overlaps_def findFirst_clone)
  qed
qed

theorem Ranges_Overlaps_iff_witness:
  "Ranges_Overlaps ex_ranges (rng 9 21) \<and> denotes ex_ranges \<inter> instants (rng 9 21) \<noteq> {} \<and>
   \<not> Ranges_Overlaps ex_ranges (rng 10 20)"
proof -
  have "ordered (rng 9 21)" by (simp add: ordered_def)
  from Ranges_Overlaps_iff [OF ex_ranges_inv this] show ?thesis
    by (simp add: Ranges_Overlaps_def findFirst_clone ex_ranges_def range_defs)
qed

text \<open>
  C11: for a positive duration, \<^verbatim>\<open>Ceil\<close> is the least instant not before its argument whose distance
  from the zero time is a multiple of the duration.
\<close>

theorem Ceil_least_multiple:
  assumes "0 < d"
  shows "t \<le> Ceil t d \<and> d dvd (Ceil t d - zero_time) \<and>
         (\<forall>u. t \<le> u \<and> d dvd (u - zero_time) \<longrightarrow> Ceil t d \<le> u)"
proof -
  let ?x = "t - zero_time"
  define m where "m = ?x mod d"
  have m: "0 \<le> m" "m < d" and dvd: "d dvd (?x - m)" using assms by (auto simp: m_def)
  have c: "Ceil t d = (if m = 0 then t else t - m + d)"
    using assms m by (auto simp: Ceil_def Time_Truncate_def Let_def m_def)
  have mult: "d dvd (Ceil t d - zero_time)"
  proof -
    have "Ceil t d - zero_time = ?x - m + (if m = 0 then 0 else d)" by (simp add: c)
    moreover have "d dvd (if m = 0 then 0 else d)" by simp
    ultimately show ?thesis using dvd by (metis dvd_add)
  qed
  moreover have "Ceil t d \<le> u" if u: "t \<le> u" "d dvd (u - zero_time)" for u
  proof (rule ccontr)
    assume "\<not> Ceil t d \<le> u"
    then have "0 < Ceil t d - u" "Ceil t d - u < d" using u(1) m by (auto simp: c split: if_splits)
    moreover have "d dvd (Ceil t d - u)" using dvd_diff [OF mult u(2)] by simp
    ultimately show False using zdvd_imp_le [of d "Ceil t d - u"] by linarith
  qed
  ultimately show ?thesis using m by (auto simp: c)
qed

theorem Ceil_least_multiple_witness:
  "Ceil 1500000001 1000000000 = 2000000000 \<and> 1500000001 \<le> Ceil 1500000001 1000000000"
proof -
  have "(0::int) < 1000000000" by simp
  from Ceil_least_multiple [OF this, of 1500000001] show ?thesis
    by (simp add: Ceil_def Time_Truncate_def zero_time_def)
qed

text \<open>
  C12: converting an instant to whole units and back (\<^verbatim>\<open>ToNormalizedTime\<close>, \<^verbatim>\<open>FromNormalizedTime\<close>) moves
  it towards the epoch by less than one unit, for every instant that fits 64 bits and every
  positive unit; no step of the conversion overflows.
\<close>

theorem normalized_time_roundtrip:
  assumes "int64_ok t" and "0 < u" and "int64_ok u"
  shows "\<exists>n. ToNormalizedTime t u = Inr n \<and> FromNormalizedTime n u = t - t smod u \<and>
             \<bar>t - FromNormalizedTime n u\<bar> < u"
proof -
  let ?q = "t sdiv u"
  have tu: "wrap64 t = t" using assms(1) by (rule wrap64_id)
  have eq: "t - t smod u = u * ?q" using sdiv_mult_smod_eq [of t u] by (simp add: mult.commute)
  have small: "\<bar>t smod u\<bar> < u" using assms(2)
    by (auto simp: signed_modulo_int_def abs_mult sgn_if)
  define k where "k = \<bar>t\<bar> div u"
  have q: "?q = (if 0 \<le> t then k else - k)"
    using assms(2) by (auto simp: k_def signed_divide_int_def sgn_if)
  have "0 \<le> k" using assms(2) by (simp add: k_def pos_imp_zdiv_nonneg_iff)
  moreover have "u * k \<le> \<bar>t\<bar>" unfolding k_def
    using pos_mod_sign [OF assms(2), of "\<bar>t\<bar>"] mult_div_mod_eq [of u "\<bar>t\<bar>"] by linarith
  moreover have "1 * k \<le> u * k" using assms(2) calculation(1) by (intro mult_right_mono) auto
  ultimately have k: "0 \<le> k" "k \<le> \<bar>t\<bar>" "0 \<le> u * k" "u * k \<le> \<bar>t\<bar>" by auto
  then have "int64_ok ?q" "int64_ok (u * ?q)" using assms(1) by (auto simp: int64_ok_iff q)
  then show ?thesis using assms(2) small eq
    by (simp add: ToNormalizedTime_def FromNormalizedTime_def Time_UnixNano_def Time_Unix0_def tu
        wrap64_id)
qed

theorem normalized_time_roundtrip_witness:
  "ToNormalizedTime (- 1999) 1000 = Inr (- 1) \<and> FromNormalizedTime (- 1) 1000 = - 1000 \<and>
   \<bar>- 1999 - FromNormalizedTime (- 1) 1000\<bar> < 1000"
proof -
  have h: "int64_ok (- 1999)" "(0::int) < 1000" "int64_ok 1000" by (simp_all add: int64_ok_iff)
  have n: "ToNormalizedTime (- 1999) 1000 = Inr (- 1)"
    by (simp add: ToNormalizedTime_def Time_UnixNano_def wrap64_id int64_ok_iff)
  from normalized_time_roundtrip [OF h] n show ?thesis by auto
qed

end
