(* ===== verification/XDuration.thy ===== *)
theory XDuration
  imports XTime
begin

text \<open>
  Package \<^verbatim>\<open>time\<close>: \<^verbatim>\<open>unit.go\<close> and \<^verbatim>\<open>duration.go\<close>. A \<^verbatim>\<open>Unit\<close> is a byte; the tables the package fills in
  its \<^verbatim>\<open>init\<close> function are computed from the table of durations. Durations are 64-bit integers with
  their wrap-around; strings are lists of bytes. The main results are that the printed form of a
  duration parses back to it and what happens at the one duration whose negation overflows.
\<close>

section \<open>unit.go\<close>

type_synonym Unit = "8 word"

definition U_None :: Unit where "U_None = 0"
definition U_Second :: Unit where "U_Second = 1"
definition U_Millisecond :: Unit where "U_Millisecond = 2"
definition U_Microsecond :: Unit where "U_Microsecond = 3"
definition U_Nanosecond :: Unit where "U_Nanosecond = 4"
definition U_Minute :: Unit where "U_Minute = 5"
definition U_Hour :: Unit where "U_Hour = 6"
definition U_Day :: Unit where "U_Day = 7"
definition U_Year :: Unit where "U_Year = 8"

lemmas unit_consts = U_None_def U_Second_def U_Millisecond_def U_Microsecond_def U_Nanosecond_def
  U_Minute_def U_Hour_def U_Day_def U_Year_def

datatype unit_error =
    UnrecognizedTimeUnit | ConvertDurationToUnit | ConvertUnitToDuration | NegativeDuration

definition unit_table :: "(Unit \<times> duration) list" where
  "unit_table =
     [(U_Second, 1000000000),
      (U_Millisecond, 1000000),
      (U_Nanosecond, 1),
      (U_Microsecond, 1000),
      (U_Minute, 60 * 1000000000),
      (U_Hour, 3600 * 1000000000),
      (U_Day, 3600 * 1000000000 * 24),
      (U_Year, 3600 * 1000000000 * 24 * 365)]"

definition unitsToDuration :: "Unit \<Rightarrow> duration option" where
  "unitsToDuration = map_of unit_table"

definition unitStrings :: "Unit \<Rightarrow> string option" where
  "unitStrings = map_of
     [(U_Second, ''s''), (U_Millisecond, ''ms''), (U_Nanosecond, ''ns''), (U_Microsecond, ''us''),
      (U_Minute, ''m''), (U_Hour, ''h''), (U_Day, ''d''), (U_Year, ''y'')]"

definition Unit_Value :: "Unit \<Rightarrow> (unit_error, duration) result" where
  "Unit_Value tu =
     (case unitsToDuration tu of Some d \<Rightarrow> Inr d | None \<Rightarrow> Inl UnrecognizedTimeUnit)"

text \<open>\<^verbatim>\<open>d, _ := u.Value()\<close>: the value with the error ignored, zero for an unknown unit.\<close>

definition unit_value0 :: "Unit \<Rightarrow> duration" where
  "unit_value0 tu = (case Unit_Value tu of Inr d \<Rightarrow> d | Inl _ \<Rightarrow> 0)"

definition Unit_Count :: "Unit \<Rightarrow> duration \<Rightarrow> (unit_error, int) result" where
  "Unit_Count tu d =
     (if d < 0 then Inl NegativeDuration
      else case unitsToDuration tu of
             Some dur \<Rightarrow> Inr (wrap64 (d sdiv dur))
           | None \<Rightarrow> Inl UnrecognizedTimeUnit)"

definition Unit_MustCount :: "Unit \<Rightarrow> duration \<Rightarrow> (unit_error, int) outcome" where
  "Unit_MustCount tu d = (case Unit_Count tu d of Inl err \<Rightarrow> Panic err | Inr c \<Rightarrow> Ret c)"

definition Unit_IsValid :: "Unit \<Rightarrow> bool" where
  "Unit_IsValid tu \<longleftrightarrow> unitsToDuration tu \<noteq> None"

definition Unit_String :: "Unit \<Rightarrow> string" where
  "Unit_String tu = (case unitStrings tu of Some s \<Rightarrow> s | None \<Rightarrow> ''unknown'')"

text \<open>The tables \<^verbatim>\<open>init\<close> fills by ranging over \<^verbatim>\<open>unitsToDuration\<close>, in some order of its entries.\<close>

definition init_durationsToUnit :: "(Unit \<times> duration) list \<Rightarrow> duration \<Rightarrow> Unit option" where
  "init_durationsToUnit entries = fold (\<lambda>(u, d) m. m(d \<mapsto> u)) entries Map.empty"

definition byDurationDesc_Less :: "Unit \<Rightarrow> Unit \<Rightarrow> bool" where
  "byDurationDesc_Less a b \<longleftrightarrow> unit_value0 a > unit_value0 b"

definition init_unitsByDurationDesc :: "(Unit \<times> duration) list \<Rightarrow> Unit list" where
  "init_unitsByDurationDesc entries = sort_key (\<lambda>u. - unit_value0 u) (map fst entries)"

definition durationsToUnit :: "duration \<Rightarrow> Unit option" where
  "durationsToUnit = init_durationsToUnit unit_table"

definition unitsByDurationDesc :: "Unit list" where
  "unitsByDurationDesc = init_unitsByDurationDesc unit_table"

definition UnitFromDuration :: "duration \<Rightarrow> (unit_error, Unit) result" where
  "UnitFromDuration d =
     (case durationsToUnit d of Some u \<Rightarrow> Inr u | None \<Rightarrow> Inl ConvertDurationToUnit)"

definition DurationFromUnit :: "Unit \<Rightarrow> (unit_error, duration) result" where
  "DurationFromUnit u =
     (case unitsToDuration u of Some d \<Rightarrow> Inr d | None \<Rightarrow> Inl ConvertUnitToDuration)"

fun max_unit_loop :: "Unit list \<Rightarrow> int \<Rightarrow> int \<times> Unit" where
  "max_unit_loop [] n = (0, U_Nanosecond)"
| "max_unit_loop (u # us) n =
     (let dur = unit_value0 u
      in if n < dur then max_unit_loop us n
         else let quotient = n sdiv dur;
                  remainder = wrap64 (n - wrap64 (quotient * dur))
              in if remainder \<noteq> 0 then max_unit_loop us n else (quotient, u))"

definition MaxUnitForDuration :: "duration \<Rightarrow> int \<times> Unit" where
  "MaxUnitForDuration d =
     (let isNegative = d < 0;
          dUnixNanos = (if isNegative then wrap64 (- d) else d)
      in case max_unit_loop unitsByDurationDesc dUnixNanos of
           (currMultiple, currUnit) \<Rightarrow>
             (if isNegative then wrap64 (- currMultiple) else currMultiple, currUnit))"

section \<open>duration.go\<close>

datatype duration_error =
    DurationEmpty
  | NoValueSpecified string
  | NoUnit string
  | InvalidUnit string string

definition durationUnits :: "string \<Rightarrow> duration option" where
  "durationUnits = map_of
     [(''s'', 1000000000),
      (''min'', 60 * 1000000000),
      (''m'', 60 * 1000000000),
      (''h'', 3600 * 1000000000),
      (''d'', 3600 * 1000000000 * 24),
      (''w'', 3600 * 1000000000 * 24 * 7),
      (''mon'', 3600 * 1000000000 * 24 * 30),
      (''y'', 3600 * 1000000000 * 24 * 365),
      (''us'', 1000),
      (''ms'', 1000000),
      (''ns'', 1)]"

definition isDigit :: "char \<Rightarrow> bool" where
  "isDigit c \<longleftrightarrow> (of_char c :: nat) \<ge> 48 \<and> (of_char c :: nat) \<le> 57"

fun consume_digits :: "int \<Rightarrow> string \<Rightarrow> int \<times> string" where
  "consume_digits n [] = (n, [])"
| "consume_digits n (c # cs) =
     (if isDigit c
      then consume_digits (wrap64 (wrap64 (n * 10) + (of_char c - 48))) cs
      else (n, c # cs))"

lemma consume_digits_length: "length (snd (consume_digits n cs)) \<le> length cs"
  by (induction n cs rule: consume_digits.induct) auto

lemma consume_digits_shrinks:
  assumes "consume_digits n (c # cs) = (m, rest)" and "isDigit c"
  shows "length (dropWhile P rest) < Suc (length cs)"
proof -
  have "length rest \<le> length cs"
    using assms consume_digits_length [of "wrap64 (wrap64 (n * 10) + (of_char c - 48))" cs] by auto
  then show ?thesis using length_dropWhile_le [of P rest] by linarith
qed

text \<open>The loop of the parser; its last argument is the part of \<open>s\<close> from the position \<open>i\<close> on.\<close>

function parse_loop :: "string \<Rightarrow> duration \<Rightarrow> string \<Rightarrow> (duration_error, duration) result" where
  "parse_loop s d rest =
     (case rest of
        [] \<Rightarrow> Inr d
      | c # _ \<Rightarrow>
          if \<not> isDigit c then Inl (NoValueSpecified s)
          else case consume_digits 0 rest of (n, rest1) \<Rightarrow>
            if rest1 = [] then Inl (NoUnit s)
            else let unitText = takeWhile (\<lambda>c. \<not> isDigit c) rest1;
                     rest2 = dropWhile (\<lambda>c. \<not> isDigit c) rest1
                 in case durationUnits unitText of
                      None \<Rightarrow> Inl (InvalidUnit s unitText)
                    | Some unit \<Rightarrow> parse_loop s (wrap64 (d + wrap64 (n * unit))) rest2)"
  by pat_completeness auto
termination
  by (relation "measure (\<lambda>(s, d, rest). length rest)")
     (auto simp del: consume_digits.simps dest: consume_digits_shrinks [OF sym])

declare parse_loop.simps [simp del]

definition ParseExtendedDuration :: "string \<Rightarrow> (duration_error, duration) result" where
  "ParseExtendedDuration s =
     (case s of
        [] \<Rightarrow> Inl DurationEmpty
      | c # cs \<Rightarrow>
          let isNegative = (c = CHR ''-'');
              s' = (if isNegative then cs else s)
          in case parse_loop s' 0 s' of
               Inl e \<Rightarrow> Inl e
             | Inr d \<Rightarrow> Inr (if isNegative then wrap64 (- d) else d))"

fun extended_loop :: "Unit list \<Rightarrow> int \<Rightarrow> string" where
  "extended_loop [] n = []"
| "extended_loop (u # us) n =
     (let valueNanos = unit_value0 u
      in if n < valueNanos then extended_loop us n
         else let quotient = n sdiv valueNanos;
                  n' = wrap64 (n - wrap64 (quotient * valueNanos))
              in Itoa quotient @ Unit_String u @ (if n' = 0 then [] else extended_loop us n'))"

text \<open>The standard library prints the zero duration as \<^verbatim>\<open>0s\<close>.\<close>

definition ToExtendedString :: "duration \<Rightarrow> string" where
  "ToExtendedString d =
     (if d = 0 then ''0s''
      else if d < 0 then ''-'' @ extended_loop unitsByDurationDesc (wrap64 (- d))
      else extended_loop unitsByDurationDesc d)"

section \<open>The tables\<close>

lemmas unit_table_defs = unit_table_def unitsToDuration_def unitStrings_def unit_consts

lemma unit_value0_simps [simp]:
  "unit_value0 U_Second = 1000000000"
  "unit_value0 U_Millisecond = 1000000"
  "unit_value0 U_Microsecond = 1000"
  "unit_value0 U_Nanosecond = 1"
  "unit_value0 U_Minute = 60000000000"
  "unit_value0 U_Hour = 3600000000000"
  "unit_value0 U_Day = 86400000000000"
  "unit_value0 U_Year = 31536000000000000"
  by (simp_all add: unit_value0_def Unit_Value_def unit_table_defs)

lemma Unit_String_simps [simp]:
  "Unit_String U_Second = ''s''" "Unit_String U_Millisecond = ''ms''"
  "Unit_String U_Microsecond = ''us''" "Unit_String U_Nanosecond = ''ns''"
  "Unit_String U_Minute = ''m''" "Unit_String U_Hour = ''h''"
  "Unit_String U_Day = ''d''" "Unit_String U_Year = ''y''"
  by (simp_all add: Unit_String_def unitStrings_def unit_consts)

lemma unitsByDurationDesc_eq:
  "unitsByDurationDesc =
     [U_Year, U_Day, U_Hour, U_Minute, U_Second, U_Millisecond, U_Microsecond, U_Nanosecond]"
  by (simp add: unitsByDurationDesc_def init_unitsByDurationDesc_def unit_table_def sort_key_def)

lemma valid_unit_iff: "Unit_IsValid u \<longleftrightarrow> u \<in> set unitsByDurationDesc"
  by (auto simp: Unit_IsValid_def unitsToDuration_def unit_table_def unitsByDurationDesc_eq
      split: if_splits)

section \<open>Printing and parsing\<close>

lemma digit_isDigit [simp]: "k < 10 \<Longrightarrow> isDigit (digit_char k)"
  by (simp add: isDigit_def)

lemma of_char_digit_int [simp]: "k < 10 \<Longrightarrow> of_char (digit_char k) = (48 + int k)"
  by (metis of_char_digit of_nat_add of_nat_numeral of_nat_of_char)

lemma consume_dec:
  "int n < 2 ^ 63 \<Longrightarrow> consume_digits 0 (dec n @ rest) = consume_digits (int n) rest"
proof (induction n arbitrary: rest rule: dec.induct)
  case (1 n)
  show ?case
  proof (cases "n < 10")
    case True
    then show ?thesis by (simp add: dec.simps [of n] wrap64_id int64_ok_iff)
  next
    case False
    let ?d = "digit_char (n mod 10)"
    have "consume_digits 0 (dec n @ rest) = consume_digits 0 (dec (n div 10) @ (?d # rest))"
      using False by (simp add: dec.simps [of n])
    also have "\<dots> = consume_digits (int (n div 10)) (?d # rest)"
      using "1.IH" [OF False] "1.prems" by simp
    also have "\<dots> = consume_digits (int n) rest"
    proof -
      have "int (n div 10) * 10 + int (n mod 10) = int n" by presburger
      moreover have "wrap64 (int (n div 10) * 10) = int (n div 10) * 10" "wrap64 (int n) = int n"
        using "1.prems" by (auto intro!: wrap64_id simp: int64_ok_iff)
      ultimately show ?thesis by simp
    qed
    finally show ?thesis .
  qed
qed

lemma consume_stop: "rest = [] \<or> \<not> isDigit (hd rest) \<Longrightarrow> consume_digits n rest = (n, rest)"
  by (cases rest) auto

lemma dec_Cons: obtains k cs where "k < 10" "dec n = digit_char k # cs"
  by (metis dec_digits dec_nonempty list.set_intros(1) neq_Nil_conv)

definition printable :: "Unit \<Rightarrow> bool" where
  "printable u \<longleftrightarrow> 0 < unit_value0 u \<and> Unit_String u \<noteq> [] \<and>
     (\<forall>c\<in>set (Unit_String u). \<not> isDigit c) \<and>
     durationUnits (Unit_String u) = Some (unit_value0 u)"

lemma printable_units: "\<forall>u\<in>set unitsByDurationDesc. printable u"
  by (simp add: unitsByDurationDesc_eq printable_def durationUnits_def isDigit_def)

lemma printable_emit:
  assumes "printable u" and "0 \<le> q" and "q < 2 ^ 63"
    and "rest = [] \<or> isDigit (hd rest)"
  shows "parse_loop s acc (Itoa q @ Unit_String u @ rest) =
         parse_loop s (wrap64 (acc + wrap64 (q * unit_value0 u))) rest"
proof -
  let ?t = "Unit_String u"
  obtain k cs where k: "k < 10" "dec (nat q) = digit_char k # cs" by (rule dec_Cons)
  have nd: "\<forall>c\<in>set ?t. \<not> isDigit c" "?t \<noteq> []" using assms(1) by (auto simp: printable_def)
  then have "?t @ rest \<noteq> []" "\<not> isDigit (hd (?t @ rest))" by (cases ?t; simp)+
  then have "consume_digits 0 (dec (nat q) @ ?t @ rest) = (q, ?t @ rest)"
    using assms(2,3) consume_dec [of "nat q" "?t @ rest"] by (simp add: consume_stop)
  moreover have "takeWhile (\<lambda>c. \<not> isDigit c) (?t @ rest) = ?t"
    by (rule takeWhile_append_stop) (use nd(1) assms(4) in auto)
  moreover have "dropWhile (\<lambda>c. \<not> isDigit c) (?t @ rest) = rest"
    by (rule dropWhile_append_stop) (use nd(1) assms(4) in auto)
  moreover have "durationUnits ?t = Some (unit_value0 u)" using assms(1) by (simp add: printable_def)
  ultimately show ?thesis
    using assms(2) k nd(2)
    by (subst parse_loop.simps) (simp add: Itoa_def del: consume_digits.simps)
qed

lemma extended_loop_head:
  "\<forall>u\<in>set us. printable u \<Longrightarrow> 0 \<le> n \<Longrightarrow> extended_loop us n = [] \<or> isDigit (hd (extended_loop us n))"
proof (induction us)
  case (Cons u us)
  obtain k cs where "k < 10" "dec (nat (n sdiv unit_value0 u)) = digit_char k # cs" by (rule dec_Cons)
  moreover have "0 \<le> n sdiv unit_value0 u"
    using Cons.prems by (simp add: printable_def sdiv_nonneg pos_imp_zdiv_nonneg_iff)
  ultimately show ?case using Cons by (simp add: Let_def Itoa_def)
qed simp

lemma division_step:
  assumes "0 < v" and "v \<le> n" and "n < (2 ^ 63 :: int)"
  defines "q \<equiv> n sdiv v" and "n' \<equiv> n - n sdiv v * v"
  shows "0 < q" "q < 2 ^ 63" "0 \<le> q * v" "q * v \<le> n" "wrap64 (q * v) = q * v" "wrap64 n' = n'"
    "0 \<le> n'" "n' < v" "q * v + n' = n"
proof -
  have q: "q = n div v" and n': "n' = n mod v"
    using assms(1,2) by (simp_all add: q_def n'_def sdiv_nonneg minus_div_mult_eq_mod)
  show "0 < q" using assms(1,2) by (simp add: q pos_imp_zdiv_pos_iff)
  show b: "0 \<le> n'" "n' < v" and s: "q * v + n' = n" using assms(1) by (simp_all add: q n')
  then show le: "q * v \<le> n" by linarith
  show "0 \<le> q * v" using \<open>0 < q\<close> assms(1) by simp
  have "q * 1 \<le> q * v" using \<open>0 < q\<close> assms(1) by (intro mult_left_mono) auto
  then show "q < 2 ^ 63" using le assms(3) by linarith
  show "wrap64 (q * v) = q * v" using \<open>0 \<le> q * v\<close> le assms(3)
    by (intro wrap64_id) (simp add: int64_ok_iff)
  show "wrap64 n' = n'" using b s \<open>0 \<le> q * v\<close> assms(3)
    by (intro wrap64_id) (simp add: int64_ok_iff)
qed

lemma parse_extended:
  "\<forall>u\<in>set us. printable u \<Longrightarrow> us \<noteq> [] \<Longrightarrow> unit_value0 (last us) = 1 \<Longrightarrow>
   0 < n \<Longrightarrow> 0 \<le> acc \<Longrightarrow> acc + n < 2 ^ 63 \<Longrightarrow>
   parse_loop s acc (extended_loop us n) = Inr (acc + n)"
proof (induction us arbitrary: n acc)
  case Nil
  then show ?case by simp
next
  case (Cons u us)
  let ?v = "unit_value0 u"
  have v: "0 < ?v" "printable u" using Cons.prems(1) by (auto simp: printable_def)
  show ?case
  proof (cases "n < ?v")
    case True
    then have "us \<noteq> []" using Cons.prems(3,4) by auto
    then show ?thesis using True Cons by simp
  next
    case False
    define q where "q = n sdiv ?v"
    define n' where "n' = n - q * ?v"
    have d: "0 < q" "q < 2 ^ 63" "0 \<le> q * ?v" "q * ?v \<le> n" "wrap64 (q * ?v) = q * ?v"
      "wrap64 n' = n'" "0 \<le> n'" "n' < ?v" "q * ?v + n' = n"
      using division_step [of ?v n] v(1) False Cons.prems(5,6) by (simp_all add: q_def n'_def)
    have acc: "wrap64 (acc + q * ?v) = acc + q * ?v"
      using Cons.prems(5,6) d(3,4) by (intro wrap64_id) (simp add: int64_ok_iff)
    define rest where "rest = (if n' = 0 then [] else extended_loop us n')"
    have loop: "extended_loop (u # us) n = Itoa q @ Unit_String u @ rest"
      using False d(5,6) by (simp add: rest_def Let_def q_def [symmetric] n'_def [symmetric])
    have "rest = [] \<or> isDigit (hd rest)"
      using extended_loop_head [of us n'] Cons.prems(1) d(7) by (simp add: rest_def)
    then have step: "parse_loop s acc (extended_loop (u # us) n) = parse_loop s (acc + q * ?v) rest"
      using printable_emit [OF v(2), of q rest s acc] d(1,2,5) acc loop by simp
    show ?thesis
    proof (cases "n' = 0")
      case True
      then show ?thesis using step d(9) by (simp add: rest_def parse_loop.simps)
    next
      case False
      have "us \<noteq> []" using False Cons.prems(3) d(7,8) by (cases us) auto
      then have "parse_loop s (acc + q * ?v) (extended_loop us n') = Inr (acc + q * ?v + n')"
        using False Cons.prems d by (intro Cons.IH) auto
      then show ?thesis using step False d(9) by (simp add: rest_def add.assoc)
    qed
  qed
qed

lemma parse_units:
  assumes "0 < n" and "n < 2 ^ 63"
  shows "parse_loop s 0 (extended_loop unitsByDurationDesc n) = Inr n"
  using parse_extended [of unitsByDurationDesc n 0 s] printable_units assms
  by (simp add: unitsByDurationDesc_eq)

lemma extended_units_digit:
  assumes "0 < n" and "n < 2 ^ 63"
  obtains c cs where "extended_loop unitsByDurationDesc n = c # cs" "isDigit c"
proof -
  have "extended_loop unitsByDurationDesc n \<noteq> []"
    using parse_units [OF assms, of "[]"] assms(1) by (auto simp: parse_loop.simps)
  then show ?thesis
    using extended_loop_head [OF printable_units, of n] assms(1) that
    by (cases "extended_loop unitsByDurationDesc n") auto
qed

section \<open>The largest unit\<close>

lemma max_unit_loop_correct:
  assumes "\<forall>u\<in>set us. 0 < unit_value0 u" and "us \<noteq> []" and "unit_value0 (last us) = 1"
    and "sorted_wrt (\<lambda>a b. unit_value0 a \<ge> unit_value0 b) us" and "0 < n" and "n < 2 ^ 63"
    and "max_unit_loop us n = (q, u)"
  shows "u \<in> set us \<and> 0 < q \<and> q * unit_value0 u = n \<and>
         (\<forall>v\<in>set us. unit_value0 v dvd n \<longrightarrow> unit_value0 v \<le> unit_value0 u)"
  using assms
proof (induction us)
  case Nil
  then show ?case by simp
next
  case (Cons w us)
  let ?v = "unit_value0 w"
  show ?case
  proof (cases "?v dvd n")
    case True
    then have le: "?v \<le> n" using Cons.prems(5) zdvd_imp_le by blast
    have d: "0 < n sdiv ?v" "wrap64 (n sdiv ?v * ?v) = n sdiv ?v * ?v"
      using division_step [of ?v n] Cons.prems(1,6) le by auto
    have eq: "n sdiv ?v * ?v = n" using True Cons.prems(1,5) by (simp add: sdiv_nonneg)
    have "wrap_s 64 0 = 0" by (simp add: wrap_s_def)
    then have "(q, u) = (n sdiv ?v, w)"
      using Cons.prems(7) le d eq by (auto simp: Let_def)
    then show ?thesis using Cons.prems(4) eq d(1) by auto
  next
    case False
    have ne: "us \<noteq> []" using False Cons.prems(3) by auto
    have "max_unit_loop (w # us) n = max_unit_loop us n"
    proof (cases "n < ?v")
      case le: False
      have d: "wrap64 (n sdiv ?v * ?v) = n sdiv ?v * ?v"
        "wrap64 (n - n sdiv ?v * ?v) = n - n sdiv ?v * ?v"
        using division_step [of ?v n] Cons.prems(1,6) le by auto
      have "n - n sdiv ?v * ?v \<noteq> 0"
        using False by (metis dvd_triv_right eq_iff_diff_eq_0)
      then show ?thesis using le d by (simp add: Let_def)
    qed simp
    then have "u \<in> set us \<and> 0 < q \<and> q * unit_value0 u = n \<and>
         (\<forall>v\<in>set us. unit_value0 v dvd n \<longrightarrow> unit_value0 v \<le> unit_value0 u)"
      using Cons.prems ne by (intro Cons.IH) auto
    then show ?thesis using False by auto
  qed
qed

section \<open>Properties\<close>

text \<open>
  C7: the extended string of a duration parses back to the duration, for every 64-bit duration
  except the least one.
\<close>

theorem extended_duration_roundtrip:
  assumes "int64_ok d" and "d \<noteq> - (2 ^ 63)"
  shows "ParseExtendedDuration (ToExtendedString d) = Inr d"
proof -
  consider "d = 0" | "0 < d" "d < 2 ^ 63" | "d < 0" "0 < - d" "- d < 2 ^ 63"
    using assms by (cases d "0::int" rule: linorder_cases) (auto simp: int64_ok_iff)
  then show ?thesis
  proof cases
    case 1
    then show ?thesis
      by (simp add: ToExtendedString_def ParseExtendedDuration_def parse_loop.simps isDigit_def
          durationUnits_def wrap64_id int64_ok_iff)
  next
    case 2
    obtain c cs where c: "extended_loop unitsByDurationDesc d = c # cs" "isDigit c"
      using extended_units_digit [OF 2] by blast
    then have "c \<noteq> CHR ''-''" by (auto simp: isDigit_def)
    then show ?thesis using 2 parse_units [OF 2, of "c # cs"] c(1)
      by (simp add: ToExtendedString_def ParseExtendedDuration_def)
  next
    case 3
    have w: "wrap64 (- d) = - d" "wrap64 d = d" using 3 assms(1)
      by (auto intro!: wrap64_id simp: int64_ok_iff)
    then show ?thesis using 3 parse_units [OF 3(2,3)]
      by (simp add: ToExtendedString_def ParseExtendedDuration_def)
  qed
qed

theorem extended_duration_roundtrip_witness:
  "ToExtendedString (- 90061000000000) = ''-1d1h1m1s'' \<and>
   ParseExtendedDuration (ToExtendedString (- 90061000000000)) = Inr (- 90061000000000)"
proof -
  have h: "int64_ok (- 90061000000000)" "(- 90061000000000 :: int) \<noteq> - (2 ^ 63)"
    by (simp_all add: int64_ok_iff)
  have w: "wrap64 90061000000000 = 90061000000000" "wrap64 86400000000000 = 86400000000000"
    "wrap64 3661000000000 = 3661000000000" "wrap64 3600000000000 = 3600000000000"
    "wrap64 61000000000 = 61000000000" "wrap64 60000000000 = 60000000000"
    "wrap64 1000000000 = 1000000000" "wrap64 0 = 0"
    by (simp_all add: wrap64_id int64_ok_iff)
  have c: "char_of (49::nat) = CHR ''1''" by code_simp
  show ?thesis using extended_duration_roundtrip [OF h]
    by (simp add: ToExtendedString_def unitsByDurationDesc_eq w Itoa_def dec.simps digit_char_def
        Let_def sdiv_nonneg c)
qed

text \<open>
  The least 64-bit duration prints as a lone minus sign, because its negation overflows, and
  the lone minus sign parses without an error as the duration zero.
\<close>

theorem extended_duration_least:
  "ToExtendedString (- (2 ^ 63)) = ''-'' \<and> ParseExtendedDuration ''-'' = Inr 0"
proof -
  have "wrap64 (2 ^ 63) = - (2 ^ 63)" by (simp add: wrap_s_def)
  then have "ToExtendedString (- (2 ^ 63)) = ''-''"
    by (simp add: ToExtendedString_def unitsByDurationDesc_eq)
  moreover have "ParseExtendedDuration ''-'' = Inr 0"
    by (simp add: ParseExtendedDuration_def parse_loop.simps wrap64_id int64_ok_iff)
  ultimately show ?thesis by simp
qed



text \<open>
  The tables \<^verbatim>\<open>init\<close> computes do not depend on the order in which Go ranges over the map of
  units: every order gives the same list of units, from the year down to the nanosecond, and the
  same inverse table, and the inverse table maps each unit's duration back to the unit.
\<close>

theorem unit_tables_deterministic:
  assumes "mset entries = mset unit_table"
  shows "init_unitsByDurationDesc entries = unitsByDurationDesc \<and>
         init_durationsToUnit entries = durationsToUnit \<and>
         (\<forall>u d. DurationFromUnit u = Inr d \<longrightarrow> UnitFromDuration d = Inr u)"
proof -
  have "mset (map fst entries) = mset (map fst unit_table)"
    using assms by (metis mset_map)
  moreover have "distinct (map fst unit_table)"
    and "inj_on (\<lambda>u. - unit_value0 u) (set (map fst unit_table))"
    by (simp_all add: unit_table_def unit_consts inj_on_def unit_value0_def Unit_Value_def
        unitsToDuration_def)
  ultimately have "init_unitsByDurationDesc entries = unitsByDurationDesc"
    unfolding init_unitsByDurationDesc_def unitsByDurationDesc_def by (rule sort_key_unique)
  moreover have "init_durationsToUnit entries = durationsToUnit"
    unfolding init_durationsToUnit_def durationsToUnit_def
    using assms by (rule fold_map_upd_cong) (simp add: unit_table_def)
  moreover have "UnitFromDuration d = Inr u" if "DurationFromUnit u = Inr d" for u d
    using that by (auto simp: DurationFromUnit_def unitsToDuration_def unit_table_def
        UnitFromDuration_def durationsToUnit_def init_durationsToUnit_def
        split: option.splits if_splits)
  ultimately show ?thesis by blast
qed

theorem unit_tables_deterministic_witness:
  "init_unitsByDurationDesc (rev unit_table) = unitsByDurationDesc \<and>
   init_durationsToUnit (rev unit_table) = durationsToUnit"
proof -
  have "mset (rev unit_table) = mset unit_table" by simp
  from unit_tables_deterministic [OF this] show ?thesis by blast
qed

end
