(* ===== verification/HashMap.thy ===== *)
theory HashMap
  imports Prelude
begin

text \<open>
  Package \<^verbatim>\<open>generics/hashmap\<close>: the generic map of \<^verbatim>\<open>map.go\<close> and its two specialisations
  \<^verbatim>\<open>byteskey\<close> and \<^verbatim>\<open>idkey\<close>, whose generated files are the same code at fixed key types. The table is a
  Go map from 64-bit hashes to entries; a collision is resolved by adding one to the hash. The
  probe loops end only if they meet a free slot, so an operation is \<^term>\<open>None\<close> when it runs
  forever; it is a \<^term>\<open>Panic\<close> when the code panics. The state the copy and finalize functions act
  on (a bytes pool) is the parameter type \<open>'w\<close>.
\<close>

section \<open>Data\<close>

type_synonym MapHash = "64 word"

datatype map_panic = NilFinalizeFn | SliceBoundsOutOfRange

type_synonym 'a run = "(map_panic, 'a) outcome option"

record 'k mapKey =
  mk_key :: 'k
  mk_finalize :: bool

record ('k, 'v) MapEntry =
  me_key :: "'k mapKey"
  me_value :: 'v

record ('k, 'w) mapOptions =
  mo_hash :: "'k \<Rightarrow> MapHash"
  mo_equals :: "'k \<Rightarrow> 'k \<Rightarrow> bool"
  mo_copy :: "'k \<Rightarrow> 'w \<Rightarrow> (map_panic, 'k \<times> 'w) outcome"
  mo_finalize :: "('k \<Rightarrow> 'w \<Rightarrow> 'w) option"
  mo_initialSize :: int

record ('k, 'v, 'w) Map =
  m_opts :: "('k, 'w) mapOptions"
  m_lookup :: "MapHash \<Rightarrow> ('k, 'v) MapEntry option"

record mapKeyOptions =
  copyKey :: bool
  finalizeKey :: bool

record SetUnsafeOptions =
  NoCopyKey :: bool
  NoFinalizeKey :: bool

abbreviation entry_key :: "('k, 'v) MapEntry \<Rightarrow> 'k" where
  "entry_key e \<equiv> mk_key (me_key e)"

definition MapEntry_Key :: "('k, 'v) MapEntry \<Rightarrow> 'k" where
  "MapEntry_Key e = mk_key (me_key e)"

definition MapEntry_Value :: "('k, 'v) MapEntry \<Rightarrow> 'v" where
  "MapEntry_Value e = me_value e"

section \<open>Operations\<close>

text \<open>Both branches allocate an empty map; the initial size is a capacity hint.\<close>

definition Map_Reallocate :: "('k, 'v, 'w) Map \<Rightarrow> ('k, 'v, 'w) Map" where
  "Map_Reallocate m =
     (if mo_initialSize (m_opts m) > 0 then m\<lparr>m_lookup := Map.empty\<rparr>
      else m\<lparr>m_lookup := Map.empty\<rparr>)"

definition mapAlloc :: "('k, 'w) mapOptions \<Rightarrow> ('k, 'v, 'w) Map" where
  "mapAlloc opts = Map_Reallocate \<lparr>m_opts = opts, m_lookup = Map.empty\<rparr>"

definition newMapKey ::
  "('k, 'v, 'w) Map \<Rightarrow> 'k \<Rightarrow> mapKeyOptions \<Rightarrow> 'w \<Rightarrow> (map_panic, 'k mapKey \<times> 'w) outcome" where
  "newMapKey m k opts w =
     (let key = \<lparr>mk_key = k, mk_finalize = finalizeKey opts\<rparr>
      in if \<not> copyKey opts then Ret (key, w)
         else bind_outcome (mo_copy (m_opts m) k w) (\<lambda>(k', w'). Ret (key\<lparr>mk_key := k'\<rparr>, w')))"

definition removeMapKey ::
  "('k, 'v, 'w) Map \<Rightarrow> MapHash \<Rightarrow> 'k mapKey \<Rightarrow> 'w \<Rightarrow> (map_panic, ('k, 'v, 'w) Map \<times> 'w) outcome" where
  "removeMapKey m h key w =
     (let m' = m\<lparr>m_lookup := (m_lookup m)(h := None)\<rparr>
      in if mk_finalize key then
           (case mo_finalize (m_opts m) of
              None \<Rightarrow> Panic NilFinalizeFn
            | Some f \<Rightarrow> Ret (m', f (mk_key key) w))
         else Ret (m', w))"

text \<open>
  The loop shared by \<^verbatim>\<open>Get\<close>, \<^verbatim>\<open>set\<close> and \<^verbatim>\<open>Delete\<close>: it stops at a free slot or at an entry with an
  equal key.
\<close>

partial_function (option) probe ::
  "('k \<Rightarrow> 'k \<Rightarrow> bool) \<Rightarrow> (MapHash \<Rightarrow> ('k, 'v) MapEntry option) \<Rightarrow> 'k \<Rightarrow> MapHash \<Rightarrow>
   (MapHash \<times> ('k, 'v) MapEntry option) option" where
  "probe eq lk k h =
     (case lk h of
        None \<Rightarrow> Some (h, None)
      | Some entry \<Rightarrow>
          if eq (entry_key entry) k then Some (h, Some entry) else probe eq lk k (h + 1))"

abbreviation map_probe where
  "map_probe m k \<equiv>
     probe (mo_equals (m_opts m)) (m_lookup m) k (mo_hash (m_opts m) k)"

definition Map_Get :: "('k, 'v, 'w) Map \<Rightarrow> 'k \<Rightarrow> 'v option option" where
  "Map_Get m k = map_option (\<lambda>(h, found). map_option me_value found) (map_probe m k)"

definition Map_set ::
  "('k, 'v, 'w) Map \<Rightarrow> 'k \<Rightarrow> 'v \<Rightarrow> mapKeyOptions \<Rightarrow> 'w \<Rightarrow> (('k, 'v, 'w) Map \<times> 'w) run" where
  "Map_set m k v opts w =
     map_option (\<lambda>(h, found).
       case found of
         Some entry \<Rightarrow>
           Ret (m\<lparr>m_lookup := (m_lookup m)(h \<mapsto> \<lparr>me_key = me_key entry, me_value = v\<rparr>)\<rparr>, w)
       | None \<Rightarrow>
           bind_outcome (newMapKey m k opts w) (\<lambda>(key, w').
             Ret (m\<lparr>m_lookup := (m_lookup m)(h \<mapsto> \<lparr>me_key = key, me_value = v\<rparr>)\<rparr>, w')))
       (map_probe m k)"

definition Map_Set :: "('k, 'v, 'w) Map \<Rightarrow> 'k \<Rightarrow> 'v \<Rightarrow> 'w \<Rightarrow> (('k, 'v, 'w) Map \<times> 'w) run" where
  "Map_Set m k v w =
     Map_set m k v \<lparr>copyKey = True, finalizeKey = (mo_finalize (m_opts m) \<noteq> None)\<rparr> w"

definition Map_SetUnsafe ::
  "('k, 'v, 'w) Map \<Rightarrow> 'k \<Rightarrow> 'v \<Rightarrow> SetUnsafeOptions \<Rightarrow> 'w \<Rightarrow> (('k, 'v, 'w) Map \<times> 'w) run" where
  "Map_SetUnsafe m k v opts w =
     Map_set m k v \<lparr>copyKey = (\<not> NoCopyKey opts), finalizeKey = (\<not> NoFinalizeKey opts)\<rparr> w"

definition Map_Iter :: "('k, 'v, 'w) Map \<Rightarrow> MapHash \<Rightarrow> ('k, 'v) MapEntry option" where
  "Map_Iter m = m_lookup m"

definition Map_Len :: "('k, 'v, 'w) Map \<Rightarrow> nat" where
  "Map_Len m = card (dom (m_lookup m))"

definition Map_Contains :: "('k, 'v, 'w) Map \<Rightarrow> 'k \<Rightarrow> bool option" where
  "Map_Contains m k = map_option (\<lambda>r. r \<noteq> None) (Map_Get m k)"

definition Map_Delete :: "('k, 'v, 'w) Map \<Rightarrow> 'k \<Rightarrow> 'w \<Rightarrow> (('k, 'v, 'w) Map \<times> 'w) run" where
  "Map_Delete m k w =
     map_option (\<lambda>(h, found).
       case found of
         Some entry \<Rightarrow> removeMapKey m h (me_key entry) w
       | None \<Rightarrow> Ret (m, w))
       (map_probe m k)"

text \<open>
  \<^verbatim>\<open>Reset\<close> ranges over the table in an order Go does not fix: \<open>order\<close> lists the hashes the loop
  visits.
\<close>

fun Map_Reset ::
  "MapHash list \<Rightarrow> ('k, 'v, 'w) Map \<Rightarrow> 'w \<Rightarrow> (map_panic, ('k, 'v, 'w) Map \<times> 'w) outcome" where
  "Map_Reset [] m w = Ret (m, w)"
| "Map_Reset (h # order) m w =
     (case m_lookup m h of
        None \<Rightarrow> Map_Reset order m w
      | Some entry \<Rightarrow>
          bind_outcome (removeMapKey m h (me_key entry) w) (\<lambda>(m', w'). Map_Reset order m' w'))"

section \<open>Specialisations\<close>

text \<open>
  The keys of \<^verbatim>\<open>byteskey\<close> are byte slices, the keys of \<^verbatim>\<open>idkey\<close> are \<^verbatim>\<open>ident.ID\<close>s, hashed and compared
  through their bytes. \<open>xxhash\<close> is the hash function of the imported package. A pool is given by
  what its \<^verbatim>\<open>Get\<close> does (the capacity of the slice it hands out and the pool afterwards) and by its
  \<^verbatim>\<open>Put\<close>.
\<close>

type_synonym bytes = "8 word list"

record 'w KeyCopyPool =
  kp_Get :: "nat \<Rightarrow> 'w \<Rightarrow> nat \<times> 'w"
  kp_Put :: "bytes \<Rightarrow> 'w \<Rightarrow> 'w"

definition byteskey_copy :: "'w KeyCopyPool option \<Rightarrow> bytes \<Rightarrow> 'w \<Rightarrow> (map_panic, bytes \<times> 'w) outcome" where
  "byteskey_copy pool k w =
     (case pool of
        None \<Rightarrow> Ret (k, w)
      | Some p \<Rightarrow>
          case kp_Get p (length k) w of
            (cap, w') \<Rightarrow> if length k \<le> cap then Ret (k, w') else Panic SliceBoundsOutOfRange)"

definition byteskey_NewMap ::
  "(bytes \<Rightarrow> MapHash) \<Rightarrow> int \<Rightarrow> 'w KeyCopyPool option \<Rightarrow> (bytes, 'v, 'w) Map" where
  "byteskey_NewMap xxhash InitialSize pool =
     mapAlloc \<lparr>mo_hash = xxhash, mo_equals = (=), mo_copy = byteskey_copy pool,
       mo_finalize = map_option kp_Put pool, mo_initialSize = InitialSize\<rparr>"

datatype 'o ident_ID = BytesID bytes | OtherID 'o

text \<open>
  An \<^verbatim>\<open>ident.ID\<close> that is not a \<^verbatim>\<open>BytesID\<close> is any implementation of the interface; \<open>other_bytes\<close> is its
  \<^verbatim>\<open>Bytes\<close> method.
\<close>

fun ident_ID_Bytes :: "('o \<Rightarrow> bytes) \<Rightarrow> 'o ident_ID \<Rightarrow> bytes" where
  "ident_ID_Bytes other_bytes (BytesID b) = b"
| "ident_ID_Bytes other_bytes (OtherID x) = other_bytes x"

definition idkey_copy ::
  "('o \<Rightarrow> bytes) \<Rightarrow> 'w KeyCopyPool option \<Rightarrow> 'o ident_ID \<Rightarrow> 'w \<Rightarrow> (map_panic, 'o ident_ID \<times> 'w) outcome" where
  "idkey_copy other_bytes pool k w =
     bind_outcome (byteskey_copy pool (ident_ID_Bytes other_bytes k) w) (\<lambda>(b, w'). Ret (BytesID b, w'))"

definition idkey_finalize :: "'w KeyCopyPool \<Rightarrow> 'o ident_ID \<Rightarrow> 'w \<Rightarrow> 'w" where
  "idkey_finalize p k w = (case k of BytesID b \<Rightarrow> kp_Put p b w | OtherID _ \<Rightarrow> w)"

definition idkey_NewMap ::
  "('o \<Rightarrow> bytes) \<Rightarrow> (bytes \<Rightarrow> MapHash) \<Rightarrow> int \<Rightarrow> 'w KeyCopyPool option \<Rightarrow> ('o ident_ID, 'v, 'w) Map" where
  "idkey_NewMap other_bytes xxhash InitialSize pool =
     mapAlloc \<lparr>mo_hash = (\<lambda>k. xxhash (ident_ID_Bytes other_bytes k)),
       mo_equals = (\<lambda>x y. ident_ID_Bytes other_bytes x = ident_ID_Bytes other_bytes y),
       mo_copy = idkey_copy other_bytes pool,
       mo_finalize = map_option idkey_finalize pool, mo_initialSize = InitialSize\<rparr>"

section \<open>Probing\<close>

lemma probe_run_free:
  "\<forall>i<n. \<exists>e. lk (h + of_nat i) = Some e \<and> \<not> eq (entry_key e) k \<Longrightarrow> lk (h + of_nat n) = None \<Longrightarrow>
   probe eq lk k h = Some (h + of_nat n, None)"
proof (induction n arbitrary: h)
  case 0
  then show ?case by (simp add: probe.simps)
next
  case (Suc n)
  obtain e where "lk h = Some e" "\<not> eq (entry_key e) k" using Suc.prems(1) by force
  moreover have "probe eq lk k (h + 1) = Some (h + 1 + of_nat n, None)"
  proof (rule Suc.IH)
    show "\<forall>i<n. \<exists>e. lk (h + 1 + of_nat i) = Some e \<and> \<not> eq (entry_key e) k"
      using Suc.prems(1) by (metis (no_types, lifting) Suc_less_eq add.assoc of_nat_Suc)
    show "lk (h + 1 + of_nat n) = None" using Suc.prems(2) by (simp add: add.assoc)
  qed
  ultimately show ?case by (simp add: probe.simps [of eq lk k h] add.assoc)
qed

lemma probe_run_found:
  "\<forall>i<n. \<exists>e. lk (h + of_nat i) = Some e \<and> \<not> eq (entry_key e) k \<Longrightarrow>
   lk (h + of_nat n) = Some e \<Longrightarrow> eq (entry_key e) k \<Longrightarrow>
   probe eq lk k h = Some (h + of_nat n, Some e)"
proof (induction n arbitrary: h)
  case 0
  then show ?case by (simp add: probe.simps)
next
  case (Suc n)
  obtain e' where "lk h = Some e'" "\<not> eq (entry_key e') k" using Suc.prems(1) by force
  moreover have "probe eq lk k (h + 1) = Some (h + 1 + of_nat n, Some e)"
  proof (rule Suc.IH)
    show "\<forall>i<n. \<exists>e. lk (h + 1 + of_nat i) = Some e \<and> \<not> eq (entry_key e) k"
      using Suc.prems(1) by (metis (no_types, lifting) Suc_less_eq add.assoc of_nat_Suc)
    show "lk (h + 1 + of_nat n) = Some e" using Suc.prems(2) by (simp add: add.assoc)
  qed (rule Suc.prems(3))
  ultimately show ?case by (simp add: probe.simps [of eq lk k h] add.assoc)
qed

text \<open>The slot \<open>s\<close> is \<^term>\<open>dist h s\<close> steps after \<open>h\<close>.\<close>

definition dist :: "MapHash \<Rightarrow> MapHash \<Rightarrow> nat" where
  "dist h s = unat (s - h)"

lemma dist_reaches [simp]: "h + of_nat (dist h s) = s"
  by (simp add: dist_def)

lemma dist_of_nat: "i < 2 ^ 64 \<Longrightarrow> dist h (h + of_nat i) = i"
  by (simp add: dist_def unsigned_of_nat take_bit_nat_eq_self)

lemma dist_less: "dist h s < 2 ^ 64"
  using unsigned_less [of "s - h"] by (simp add: dist_def)

text \<open>Every slot from the hash of a key up to the key's own holds an entry with another key.\<close>

definition chained ::
  "('k \<Rightarrow> MapHash) \<Rightarrow> ('k \<Rightarrow> 'k \<Rightarrow> bool) \<Rightarrow> (MapHash \<Rightarrow> ('k, 'v) MapEntry option) \<Rightarrow> 'k \<Rightarrow> MapHash \<Rightarrow> bool" where
  "chained hash eq lk k s \<longleftrightarrow>
     (\<forall>i<dist (hash k) s. \<exists>e. lk (hash k + of_nat i) = Some e \<and> \<not> eq (entry_key e) k)"

definition table_inv ::
  "('k \<Rightarrow> MapHash) \<Rightarrow> ('k \<Rightarrow> 'k \<Rightarrow> bool) \<Rightarrow> (MapHash \<Rightarrow> ('k, 'v) MapEntry option) \<Rightarrow> bool" where
  "table_inv hash eq lk \<longleftrightarrow> (\<forall>s e. lk s = Some e \<longrightarrow> chained hash eq lk (entry_key e) s)"

lemma probe_free_slot:
  assumes "\<nexists>s e. lk s = Some e \<and> eq (entry_key e) k" and "lk free = None"
  obtains s where "probe eq lk k (hash k) = Some (s, None)" "lk s = None" "chained hash eq lk k s"
proof -
  define n where "n = (LEAST n. lk (hash k + of_nat n) = None)"
  have ex: "lk (hash k + of_nat (dist (hash k) free)) = None" using assms(2) by simp
  have free: "lk (hash k + of_nat n) = None" unfolding n_def by (rule LeastI) (rule ex)
  have "n \<le> dist (hash k) free" unfolding n_def by (rule Least_le) (rule ex)
  then have n: "dist (hash k) (hash k + of_nat n) = n"
    using dist_less [of "hash k" free] by (intro dist_of_nat) simp
  have before: "\<forall>i<n. \<exists>e. lk (hash k + of_nat i) = Some e \<and> \<not> eq (entry_key e) k"
    using assms(1) not_less_Least [of _ "\<lambda>n. lk (hash k + of_nat n) = None"]
    by (metis n_def not_None_eq)
  show ?thesis
  proof (rule that [of "hash k + of_nat n"])
    show "probe eq lk k (hash k) = Some (hash k + of_nat n, None)"
      using before free by (rule probe_run_free)
    show "chained hash eq lk k (hash k + of_nat n)" using before by (simp add: chained_def n)
  qed (rule free)
qed

section \<open>Maps whose key functions are lawful\<close>

locale hash_keys =
  fixes hash :: "'k \<Rightarrow> MapHash"
    and eq :: "'k \<Rightarrow> 'k \<Rightarrow> bool"
  assumes eq_refl: "eq a a"
    and eq_sym: "eq a b \<Longrightarrow> eq b a"
    and eq_trans: "eq a b \<Longrightarrow> eq b c \<Longrightarrow> eq a c"
    and hash_eq: "eq a b \<Longrightarrow> hash a = hash b"
begin

lemma chained_cong:
  assumes "eq a b"
  shows "chained hash eq lk a s \<longleftrightarrow> chained hash eq lk b s"
proof -
  have "eq x a \<longleftrightarrow> eq x b" for x using assms eq_sym eq_trans by blast
  then show ?thesis by (simp add: chained_def hash_eq [OF assms])
qed

lemma probe_found:
  assumes "table_inv hash eq lk" and "lk s = Some e" and "eq (entry_key e) k"
  shows "probe eq lk k (hash k) = Some (s, Some e)"
proof -
  have "chained hash eq lk k s"
    using assms(1,2) chained_cong [OF assms(3)] by (auto simp: table_inv_def)
  then show ?thesis
    using probe_run_found [of "dist (hash k) s" lk "hash k" eq k e] assms(2,3)
    by (simp add: chained_def)
qed

lemma probe_cases:
  assumes "table_inv hash eq lk" and "lk free = None"
  obtains (found) s e where "probe eq lk k (hash k) = Some (s, Some e)" "lk s = Some e"
      "eq (entry_key e) k"
    | (missing) s where "probe eq lk k (hash k) = Some (s, None)" "lk s = None"
      "chained hash eq lk k s" "\<nexists>s e. lk s = Some e \<and> eq (entry_key e) k"
proof (cases "\<exists>s e. lk s = Some e \<and> eq (entry_key e) k")
  case True
  then show ?thesis using found probe_found [OF assms(1)] by blast
next
  case False
  then show ?thesis
    using missing probe_free_slot [of lk eq k free hash] assms(2) by blast
qed

lemma chained_mono:
  assumes "chained hash eq lk k t"
    and "\<And>u x. lk u = Some x \<Longrightarrow> \<exists>y. lk' u = Some y \<and> me_key y = me_key x"
  shows "chained hash eq lk' k t"
  unfolding chained_def
proof (intro allI impI)
  fix i assume "i < dist (hash k) t"
  with assms(1) obtain x where "lk (hash k + of_nat i) = Some x" "\<not> eq (entry_key x) k"
    by (auto simp: chained_def)
  then show "\<exists>x. lk' (hash k + of_nat i) = Some x \<and> \<not> eq (entry_key x) k"
    using assms(2) by metis
qed

lemma table_inv_update:
  assumes "table_inv hash eq lk" and "lk s = Some e" and "me_key e' = me_key e"
  shows "table_inv hash eq (lk(s \<mapsto> e'))"
  unfolding table_inv_def
proof (intro allI impI)
  fix t y assume "(lk(s \<mapsto> e')) t = Some y"
  then obtain x where x: "lk t = Some x" "me_key x = me_key y"
    using assms(2,3) by (cases "t = s") auto
  then have "chained hash eq lk (entry_key y) t" using assms(1) by (metis table_inv_def)
  then show "chained hash eq (lk(s \<mapsto> e')) (entry_key y) t"
    by (rule chained_mono) (metis assms(2,3) fun_upd_apply option.inject)
qed

lemma table_inv_insert:
  assumes "table_inv hash eq lk" and "lk s = None" and "chained hash eq lk (entry_key e) s"
  shows "table_inv hash eq (lk(s \<mapsto> e))"
  unfolding table_inv_def
proof (intro allI impI)
  fix t x assume "(lk(s \<mapsto> e)) t = Some x"
  then have "chained hash eq lk (entry_key x) t"
    using assms(1,3) by (cases "t = s") (simp_all add: table_inv_def)
  then show "chained hash eq (lk(s \<mapsto> e)) (entry_key x) t"
    by (rule chained_mono) (metis assms(2) fun_upd_other option.distinct(1))
qed

text \<open>Deleting an entry breaks no chain when the slot after it is free.\<close>

lemma table_inv_delete:
  assumes "table_inv hash eq lk" and "lk (s + 1) = None"
  shows "table_inv hash eq (lk(s := None))"
  unfolding table_inv_def
proof (intro allI impI)
  fix t x assume "(lk(s := None)) t = Some x"
  then have t: "t \<noteq> s" "lk t = Some x" by (auto split: if_splits)
  let ?h = "hash (entry_key x)"
  have ch: "\<forall>i<dist ?h t. \<exists>e. lk (?h + of_nat i) = Some e \<and> \<not> eq (entry_key e) (entry_key x)"
    using assms(1) t(2) by (simp add: table_inv_def chained_def)
  have "?h + of_nat i \<noteq> s" if "i < dist ?h t" for i
  proof
    assume s: "?h + of_nat i = s"
    then have next_slot: "?h + of_nat (Suc i) = s + 1" by (simp add: ac_simps)
    show False
    proof (cases "Suc i < dist ?h t")
      case True
      then show False using ch next_slot assms(2) by (metis option.distinct(1))
    next
      case False
      then have "Suc i = dist ?h t" using that by simp
      then have "t = s + 1" using next_slot dist_reaches [of ?h t] by simp
      then show False using assms(2) t(2) by simp
    qed
  qed
  then show "chained hash eq (lk(s := None)) (entry_key x) t"
    using ch unfolding chained_def by (metis fun_upd_other)
qed

lemma probe_after_delete:
  assumes "table_inv hash eq lk" and "lk s = Some e" and "eq (entry_key e) k"
  shows "probe eq (lk(s := None)) k (hash k) = Some (s, None)"
proof -
  let ?h = "hash k" and ?n = "dist (hash k) s"
  have "chained hash eq lk k s"
    using assms(1,2) chained_cong [OF assms(3)] by (auto simp: table_inv_def)
  then have ch: "\<forall>i<?n. \<exists>e. lk (?h + of_nat i) = Some e \<and> \<not> eq (entry_key e) k"
    by (simp add: chained_def)
  have "?h + of_nat i \<noteq> s" if "i < ?n" for i
    using dist_of_nat [of i ?h] that dist_less [of ?h s] by auto
  then have "\<forall>i<?n. \<exists>e. (lk(s := None)) (?h + of_nat i) = Some e \<and> \<not> eq (entry_key e) k"
    using ch by (metis fun_upd_other)
  then have "probe eq (lk(s := None)) k ?h = Some (?h + of_nat ?n, None)"
    by (rule probe_run_free) simp
  then show ?thesis by simp
qed

end

section \<open>The two specialisations are lawful\<close>

interpretation byteskey: hash_keys xxhash "(=) :: bytes \<Rightarrow> bytes \<Rightarrow> bool"
  for xxhash :: "bytes \<Rightarrow> MapHash"
  by unfold_locales auto

interpretation idkey: hash_keys "\<lambda>k. xxhash (ident_ID_Bytes other_bytes k)"
    "\<lambda>x y. ident_ID_Bytes other_bytes x = ident_ID_Bytes other_bytes y"
  for xxhash :: "bytes \<Rightarrow> MapHash" and other_bytes :: "'o \<Rightarrow> bytes"
  by unfold_locales auto

definition lawful :: "('k, 'w) mapOptions \<Rightarrow> bool" where
  "lawful opts \<longleftrightarrow> hash_keys (mo_hash opts) (mo_equals opts) \<and>
     (\<forall>k w k' w'. mo_copy opts k w = Ret (k', w') \<longrightarrow> mo_equals opts k' k)"

definition map_inv :: "('k, 'v, 'w) Map \<Rightarrow> bool" where
  "map_inv m \<longleftrightarrow> lawful (m_opts m) \<and>
     table_inv (mo_hash (m_opts m)) (mo_equals (m_opts m)) (m_lookup m)"

text \<open>At least two of the \<open>2 ^ 64\<close> slots are free.\<close>

definition has_room :: "('k, 'v, 'w) Map \<Rightarrow> bool" where
  "has_room m \<longleftrightarrow> Map_Len m + 1 < 2 ^ 64"

lemma free_slot:
  assumes "Map_Len m < 2 ^ 64"
  obtains s where "m_lookup m s = None"
proof -
  have "dom (m_lookup m) \<noteq> UNIV"
    using assms by (auto simp: Map_Len_def card_word)
  then show ?thesis using that by (auto simp: dom_def)
qed

lemma table_inv_empty [simp]: "table_inv hash eq Map.empty"
  by (simp add: table_inv_def)

lemma byteskey_lawful: "lawful (m_opts (byteskey_NewMap xxhash n pool))"
  by (auto simp: lawful_def byteskey_NewMap_def mapAlloc_def Map_Reallocate_def byteskey_copy_def
      byteskey.hash_keys_axioms split: option.splits prod.splits if_splits)

lemma idkey_lawful: "lawful (m_opts (idkey_NewMap other_bytes xxhash n pool))"
  by (auto simp: lawful_def idkey_NewMap_def mapAlloc_def Map_Reallocate_def idkey_copy_def
      byteskey_copy_def idkey.hash_keys_axioms split: option.splits prod.splits if_splits)

lemma NewMap_inv:
  "map_inv (byteskey_NewMap xxhash n pool)" "map_inv (idkey_NewMap other_bytes xxhash n pool)"
  using byteskey_lawful [of xxhash n pool] idkey_lawful [of other_bytes xxhash n pool]
  by (simp_all add: map_inv_def byteskey_NewMap_def idkey_NewMap_def mapAlloc_def Map_Reallocate_def)

section \<open>What a lookup returns\<close>

definition holds :: "('k, 'v, 'w) Map \<Rightarrow> 'k \<Rightarrow> MapHash \<Rightarrow> ('k, 'v) MapEntry \<Rightarrow> bool" where
  "holds m k s e \<longleftrightarrow> m_lookup m s = Some e \<and> mo_equals (m_opts m) (entry_key e) k"

lemma map_probe_cases:
  assumes "map_inv m" and "Map_Len m < 2 ^ 64"
  obtains (found) s e where "map_probe m k = Some (s, Some e)" "holds m k s e"
    | (missing) s where "map_probe m k = Some (s, None)" "m_lookup m s = None"
      "chained (mo_hash (m_opts m)) (mo_equals (m_opts m)) (m_lookup m) k s"
      "\<nexists>s e. holds m k s e"
proof -
  obtain free where "m_lookup m free = None" using free_slot [OF assms(2)] .
  moreover have "hash_keys (mo_hash (m_opts m)) (mo_equals (m_opts m))"
    using assms(1) by (simp add: map_inv_def lawful_def)
  ultimately show ?thesis
    using hash_keys.probe_cases [of "mo_hash (m_opts m)" "mo_equals (m_opts m)" "m_lookup m" free k]
      assms(1) found missing by (metis holds_def map_inv_def)
qed

lemma holds_probe: "map_inv m \<Longrightarrow> holds m k s e \<Longrightarrow> map_probe m k = Some (s, Some e)"
  unfolding holds_def map_inv_def lawful_def by (blast intro: hash_keys.probe_found)

lemma Get_holds: "map_inv m \<Longrightarrow> holds m k s e \<Longrightarrow> Map_Get m k = Some (Some (me_value e))"
  by (simp add: Map_Get_def holds_probe)

lemma Get_missing:
  assumes "map_inv m" and "Map_Len m < 2 ^ 64" and "\<nexists>s e. holds m k s e"
  shows "Map_Get m k = Some None"
  using map_probe_cases [OF assms(1,2), of k] assms(3) by (metis (no_types, lifting) Map_Get_def
      case_prod_conv option.map(1) option.map(2))

lemma Get_cong:
  assumes "map_inv m" and "Map_Len m < 2 ^ 64" and "map_inv m'" and "Map_Len m' < 2 ^ 64"
    and "\<And>e. (\<exists>s. holds m' k s e) \<longleftrightarrow> (\<exists>s. holds m k s e)"
  shows "Map_Get m' k = Map_Get m k"
  using assms by (metis Get_holds Get_missing)

lemma equals_laws:
  assumes "map_inv m"
  shows "mo_equals (m_opts m) a a"
    and "mo_equals (m_opts m) a b \<Longrightarrow> mo_equals (m_opts m) b a"
    and "mo_equals (m_opts m) a b \<Longrightarrow> mo_equals (m_opts m) b c \<Longrightarrow> mo_equals (m_opts m) a c"
proof -
  have keys: "hash_keys (mo_hash (m_opts m)) (mo_equals (m_opts m))"
    using assms by (simp add: map_inv_def lawful_def)
  show "mo_equals (m_opts m) a a" using keys by (rule hash_keys.eq_refl)
  show "mo_equals (m_opts m) a b \<Longrightarrow> mo_equals (m_opts m) b a" using keys by (rule hash_keys.eq_sym)
  show "mo_equals (m_opts m) a b \<Longrightarrow> mo_equals (m_opts m) b c \<Longrightarrow> mo_equals (m_opts m) a c"
    using keys by (rule hash_keys.eq_trans)
qed

lemma holds_upd:
  "holds (m\<lparr>m_lookup := (m_lookup m)(s \<mapsto> e)\<rparr>) k t x \<longleftrightarrow>
     (if t = s then x = e \<and> mo_equals (m_opts m) (entry_key e) k else holds m k t x)"
  by (auto simp: holds_def)

lemma holds_del:
  "holds (m\<lparr>m_lookup := (m_lookup m)(s := None)\<rparr>) k t x \<longleftrightarrow> t \<noteq> s \<and> holds m k t x"
  by (simp add: holds_def)

section \<open>Storing\<close>

lemma newMapKey_equal:
  assumes "map_inv m" and "newMapKey m k opts w = Ret (key, w')"
  shows "mo_equals (m_opts m) (mk_key key) k" "mk_finalize key = finalizeKey opts"
proof -
  have "mk_key key = k \<or> mo_copy (m_opts m) k w = Ret (mk_key key, w')"
    and "mk_finalize key = finalizeKey opts"
    using assms(2) by (auto simp: newMapKey_def Let_def split: if_splits)
  then show "mo_equals (m_opts m) (mk_key key) k" "mk_finalize key = finalizeKey opts"
    using assms(1) equals_laws(1) [OF assms(1)] by (metis map_inv_def lawful_def, simp)
qed

text \<open>Storing a key that is missing writes the free slot the probe found.\<close>

lemma set_missing:
  assumes "map_inv m" and "map_probe m k = Some (s, None)" and "m_lookup m s = None"
    and "chained (mo_hash (m_opts m)) (mo_equals (m_opts m)) (m_lookup m) k s"
    and "Map_set m k v opts w = Some (Ret (m', w'))"
  obtains key where "m' = m\<lparr>m_lookup := (m_lookup m)(s \<mapsto> \<lparr>me_key = key, me_value = v\<rparr>)\<rparr>"
    "mo_equals (m_opts m) (mk_key key) k" "mk_finalize key = finalizeKey opts" "map_inv m'"
proof -
  obtain key where key: "newMapKey m k opts w = Ret (key, w')"
    and m': "m' = m\<lparr>m_lookup := (m_lookup m)(s \<mapsto> \<lparr>me_key = key, me_value = v\<rparr>)\<rparr>"
    using assms(2,5) by (auto simp: Map_set_def)
  note eq = newMapKey_equal [OF assms(1) key]
  have keys: "hash_keys (mo_hash (m_opts m)) (mo_equals (m_opts m))"
    using assms(1) by (simp add: map_inv_def lawful_def)
  have "chained (mo_hash (m_opts m)) (mo_equals (m_opts m)) (m_lookup m) (mk_key key) s"
    using assms(4) hash_keys.chained_cong [OF keys eq(1)] by blast
  then have "map_inv m'"
    using assms(1,3)
      hash_keys.table_inv_insert [OF keys, of "m_lookup m" s "\<lparr>me_key = key, me_value = v\<rparr>"]
    by (simp add: m' map_inv_def)
  then show ?thesis using m' eq that by blast
qed

text \<open>What \<^verbatim>\<open>set\<close> leaves in the table: one slot is written, with a key equal to the given one.\<close>

lemma set_effect:
  assumes "map_inv m" and "Map_Len m < 2 ^ 64" and "Map_set m k v opts w = Some (Ret (m', w'))"
  obtains s e where "m' = m\<lparr>m_lookup := (m_lookup m)(s \<mapsto> e)\<rparr>" "me_value e = v"
    "mo_equals (m_opts m) (entry_key e) k" "map_inv m'"
    "\<And>x. m_lookup m s = Some x \<Longrightarrow> mo_equals (m_opts m) (entry_key x) k"
  using assms(1,2)
proof (cases rule: map_probe_cases [where k = k])
  case (found s x)
  let ?e = "\<lparr>me_key = me_key x, me_value = v\<rparr>"
  have m': "m' = m\<lparr>m_lookup := (m_lookup m)(s \<mapsto> ?e)\<rparr>"
    using assms(3) found(1) by (simp add: Map_set_def)
  have keys: "hash_keys (mo_hash (m_opts m)) (mo_equals (m_opts m))"
    using assms(1) by (simp add: map_inv_def lawful_def)
  have "map_inv m'"
    using assms(1) found(2) hash_keys.table_inv_update [OF keys, of "m_lookup m" s x ?e]
    by (simp add: m' map_inv_def holds_def)
  then show ?thesis
    using m' found(2) by (intro that [of s ?e]) (simp_all add: holds_def)
next
  case (missing s)
  obtain key where "m' = m\<lparr>m_lookup := (m_lookup m)(s \<mapsto> \<lparr>me_key = key, me_value = v\<rparr>)\<rparr>"
    "mo_equals (m_opts m) (mk_key key) k" "map_inv m'"
    using set_missing [OF assms(1) missing(1-3) assms(3)] by metis
  then show ?thesis
    using missing(2) by (intro that [of s "\<lparr>me_key = key, me_value = v\<rparr>"]) simp_all
qed

lemma Len_upd: "Map_Len (m\<lparr>m_lookup := (m_lookup m)(s \<mapsto> e)\<rparr>) \<le> Map_Len m + 1"
  by (simp add: Map_Len_def card_insert_le_m1 card_insert_if)

lemma set_update:
  assumes "map_inv m" and "has_room m" and "Map_set m k v opts w = Some (Ret (m', w'))"
  shows "map_inv m' \<and> m_opts m' = m_opts m \<and> Map_Len m' \<le> Map_Len m + 1 \<and>
         (\<forall>k'. Map_Get m k' \<noteq> None \<and>
               Map_Get m' k' = (if mo_equals (m_opts m) k k' then Some (Some v) else Map_Get m k'))"
proof -
  have len: "Map_Len m < 2 ^ 64" using assms(2) by (simp add: has_room_def)
  note laws = equals_laws [OF assms(1)]
  obtain s e where m': "m' = m\<lparr>m_lookup := (m_lookup m)(s \<mapsto> e)\<rparr>" and v: "me_value e = v"
    and k: "mo_equals (m_opts m) (entry_key e) k" and inv: "map_inv m'"
    and old: "\<And>x. m_lookup m s = Some x \<Longrightarrow> mo_equals (m_opts m) (entry_key x) k"
    using set_effect [OF assms(1) len assms(3)] by metis
  have len': "Map_Len m' < 2 ^ 64" using Len_upd [of m s e] assms(2) by (simp add: m' has_room_def)
  have get: "Map_Get m k' \<noteq> None" for k'
    by (rule map_probe_cases [OF assms(1) len, of k']) (simp_all add: Map_Get_def)
  have "Map_Get m' k' = Some (Some v)" if "mo_equals (m_opts m) k k'" for k'
  proof -
    have "holds m' k' s e" using laws(3) [OF k that] by (simp add: holds_def m')
    then show ?thesis using Get_holds [OF inv] v by metis
  qed
  moreover have "Map_Get m' k' = Map_Get m k'" if "\<not> mo_equals (m_opts m) k k'" for k'
  proof (rule Get_cong [OF assms(1) len inv len'])
    fix x
    have "\<not> mo_equals (m_opts m) (entry_key e) k'"
      using that laws(3) [OF laws(2) [OF k]] by blast
    moreover have "\<not> holds m k' s y" for y
      using that old laws(3) [OF laws(2) [OF old]] by (auto simp: holds_def)
    ultimately show "(\<exists>t. holds m' k' t x) \<longleftrightarrow> (\<exists>t. holds m k' t x)"
      unfolding m' holds_upd by metis
  qed
  ultimately show ?thesis using inv get Len_upd [of m s e] by (auto simp: m')
qed

section \<open>Properties\<close>

text \<open>Neither operation runs forever, and they panic only where the copy or the finalize function does.\<close>

lemma set_total:
  assumes "map_inv m" and "Map_Len m < 2 ^ 64" and "copyKey opts \<longrightarrow> (\<exists>r. mo_copy (m_opts m) k w = Ret r)"
  shows "\<exists>m' w'. Map_set m k v opts w = Some (Ret (m', w'))"
  using assms(1,2)
proof (cases rule: map_probe_cases [where k = k])
  case (missing s)
  then show ?thesis using assms(3) by (auto simp: Map_set_def newMapKey_def Let_def split: prod.splits)
qed (simp add: Map_set_def)

definition finalizable :: "('k, 'v, 'w) Map \<Rightarrow> bool" where
  "finalizable m \<longleftrightarrow> (\<forall>s e. m_lookup m s = Some e \<and> mk_finalize (me_key e) \<longrightarrow> mo_finalize (m_opts m) \<noteq> None)"

lemma removeMapKey_ok:
  assumes "finalizable m" and "m_lookup m s = Some e"
  shows "\<exists>w'. removeMapKey m s (me_key e) w = Ret (m\<lparr>m_lookup := (m_lookup m)(s := None)\<rparr>, w')"
  using assms by (auto simp: removeMapKey_def finalizable_def Let_def)

lemma Delete_total:
  assumes "map_inv m" and "Map_Len m < 2 ^ 64" and "finalizable m"
  shows "\<exists>m' w'. Map_Delete m k w = Some (Ret (m', w'))"
  using assms(1,2)
proof (cases rule: map_probe_cases [where k = k])
  case (found s e)
  then have "m_lookup m s = Some e" by (simp add: holds_def)
  from removeMapKey_ok [OF assms(3) this, of w] found(1) show ?thesis by (auto simp: Map_Delete_def)
qed (simp add: Map_Delete_def)

text \<open>
  C2: \<^verbatim>\<open>set\<close> implements the update of a finite map. With a free slot left and lawful key functions, storing and
  looking up terminate for every key, and storing does not panic when copying the key does not; after storing \<open>v\<close> under \<open>k\<close>
  every key equal to \<open>k\<close> yields \<open>v\<close>, every other key what it yielded before, and the invariant of the table is kept.
\<close>

theorem set_implements_update:
  assumes "map_inv m" and "has_room m" and "copyKey opts \<longrightarrow> (\<exists>r. mo_copy (m_opts m) k w = Ret r)"
  shows "\<exists>m' w'. Map_set m k v opts w = Some (Ret (m', w')) \<and> map_inv m' \<and>
         (\<forall>k'. Map_Get m k' \<noteq> None \<and>
               Map_Get m' k' = (if mo_equals (m_opts m) k k' then Some (Some v) else Map_Get m k'))"
proof -
  have "Map_Len m < 2 ^ 64" using assms(2) by (simp add: has_room_def)
  from set_total [OF assms(1) this assms(3)] obtain m' w' where "Map_set m k v opts w = Some (Ret (m', w'))" by blast
  with set_update [OF assms(1,2) this] show ?thesis by blast
qed

definition ex_map :: "(bytes, nat, unit) Map" where
  "ex_map = byteskey_NewMap (\<lambda>_. 0) 0 None"

lemma ex_map_simps:
  "m_lookup ex_map = Map.empty" "mo_hash (m_opts ex_map) = (\<lambda>_. 0)"
  "mo_equals (m_opts ex_map) = (=)" "mo_copy (m_opts ex_map) = byteskey_copy None"
  "mo_finalize (m_opts ex_map) = None" "Map_Len ex_map = 0" "map_inv ex_map" "has_room ex_map"
  using NewMap_inv(1) [of "\<lambda>_. 0" 0 None]
  by (simp_all add: ex_map_def byteskey_NewMap_def mapAlloc_def Map_Reallocate_def Map_Len_def
      has_room_def)

theorem set_implements_update_witness:
  "\<exists>m'. Map_set ex_map [1] 7 \<lparr>copyKey = True, finalizeKey = False\<rparr> () = Some (Ret (m', ())) \<and>
        Map_Get m' [1] = Some (Some 7) \<and> Map_Get m' [2] = Map_Get ex_map [2]"
  using set_implements_update [OF ex_map_simps(7,8), of "\<lparr>copyKey = True, finalizeKey = False\<rparr>" "[1]" "()" 7]
  by (auto simp: ex_map_simps byteskey_copy_def)

lemma Delete_effect:
  assumes "map_inv m" and "has_room m" and "Map_Delete m k w = Some (Ret (m', w'))"
  shows "Map_Get m' k = Some None \<and>
         (\<forall>s e. holds m k s e \<and> m_lookup m (s + 1) = None \<longrightarrow>
            map_inv m' \<and>
            (\<forall>k'. \<not> mo_equals (m_opts m) k k' \<longrightarrow> Map_Get m' k' = Map_Get m k'))"
proof -
  let ?h = "mo_hash (m_opts m)" and ?eq = "mo_equals (m_opts m)"
  have len: "Map_Len m < 2 ^ 64" using assms(2) by (simp add: has_room_def)
  have keys: "hash_keys ?h ?eq" using assms(1) by (simp add: map_inv_def lawful_def)
  note laws = equals_laws [OF assms(1)]
  show ?thesis
    using assms(1) len
  proof (cases rule: map_probe_cases [where k = k])
    case (missing s)
    then have "m' = m" using assms(3) by (simp add: Map_Delete_def)
    then show ?thesis using missing(4) Get_missing [OF assms(1) len] by auto
  next
    case (found s e)
    have m': "m' = m\<lparr>m_lookup := (m_lookup m)(s := None)\<rparr>"
      using assms(3) found(1)
      by (auto simp: Map_Delete_def removeMapKey_def Let_def split: if_splits option.splits)
    have "Map_Get m' k = Some None"
      using found(2) assms(1) hash_keys.probe_after_delete [OF keys, of "m_lookup m" s e k]
      by (simp add: Map_Get_def m' holds_def map_inv_def)
    moreover have "map_inv m' \<and> (\<forall>k'. \<not> ?eq k k' \<longrightarrow> Map_Get m' k' = Map_Get m k')"
      if "holds m k t x" "m_lookup m (t + 1) = None" for t x
    proof -
      have "t = s" using that(1) found(1) holds_probe [OF assms(1), of k t x] by simp
      then have inv: "map_inv m'"
        using that(2) assms(1) hash_keys.table_inv_delete [OF keys, of "m_lookup m" s]
        by (simp add: map_inv_def m')
      have "finite (dom (m_lookup m))" by simp
      then have "Map_Len m' \<le> Map_Len m" by (simp add: m' Map_Len_def card_Diff1_le)
      then have len': "Map_Len m' < 2 ^ 64" using len by simp
      have "Map_Get m' k' = Map_Get m k'" if "\<not> ?eq k k'" for k'
      proof (rule Get_cong [OF assms(1) len inv len'])
        fix y
        have "\<not> holds m k' s z" for z using that found(2) laws by (metis holds_def option.inject)
        then show "(\<exists>t. holds m' k' t y) \<longleftrightarrow> (\<exists>t. holds m k' t y)"
          unfolding m' holds_del by metis
      qed
      then show ?thesis using inv by blast
    qed
    ultimately show ?thesis by blast
  qed
qed

text \<open>
  C3: \<^verbatim>\<open>Delete\<close> returns, without a panic when every key that is marked has a finalize function to call, and then the key is gone; and if the slot after the deleted one is free, the table keeps
  its invariant and every other key yields what it yielded before.
\<close>

theorem Delete_removes:
  assumes "map_inv m" and "has_room m" and "finalizable m"
  shows "\<exists>m' w'. Map_Delete m k w = Some (Ret (m', w')) \<and> Map_Get m' k = Some None \<and>
         (\<forall>s e. holds m k s e \<and> m_lookup m (s + 1) = None \<longrightarrow>
            map_inv m' \<and>
            (\<forall>k'. \<not> mo_equals (m_opts m) k k' \<longrightarrow> Map_Get m' k' = Map_Get m k'))"
proof -
  have "Map_Len m < 2 ^ 64" using assms(2) by (simp add: has_room_def)
  from Delete_total [OF assms(1) this assms(3), of k w] obtain m' w' where "Map_Delete m k w = Some (Ret (m', w'))" by blast
  with Delete_effect [OF assms(1,2) this] show ?thesis by blast
qed

text \<open>
  \<^verbatim>\<open>Delete\<close> does not repair the probe sequence. Whenever two different keys have the same hash,
  storing both and deleting the first makes the second unreachable, although its entry is still
  in the table and counted by \<^verbatim>\<open>Len\<close>.
\<close>

theorem Delete_loses_colliding_key:
  assumes "a \<noteq> b" and "xxhash a = xxhash b"
  shows "\<exists>m1 m2 m3.
      Map_Set (byteskey_NewMap xxhash n None) a x () = Some (Ret (m1, ())) \<and>
      Map_Set m1 b y () = Some (Ret (m2, ())) \<and> Map_Get m2 b = Some (Some y) \<and>
      Map_Delete m2 a () = Some (Ret (m3, ())) \<and> Map_Get m3 b = Some None \<and> Map_Len m3 = 1"
proof -
  define e where "e k v = \<lparr>me_key = \<lparr>mk_key = k, mk_finalize = False\<rparr>, me_value = v\<rparr>"
    for k :: bytes and v :: 'a
  define m0 :: "(bytes, 'a, unit) Map" where "m0 = byteskey_NewMap xxhash n None"
  define m1 where "m1 = m0\<lparr>m_lookup := [xxhash a \<mapsto> e a x]\<rparr>"
  define m2 where "m2 = m0\<lparr>m_lookup := [xxhash a \<mapsto> e a x, xxhash a + 1 \<mapsto> e b y]\<rparr>"
  define m3 where "m3 = m0\<lparr>m_lookup := [xxhash a + 1 \<mapsto> e b y]\<rparr>"
  have m0: "m_lookup m0 = Map.empty" "mo_hash (m_opts m0) = xxhash" "mo_equals (m_opts m0) = (=)"
    "mo_copy (m_opts m0) = byteskey_copy None" "mo_finalize (m_opts m0) = None"
    by (simp_all add: m0_def byteskey_NewMap_def mapAlloc_def Map_Reallocate_def)
  note defs = Map_Set_def Map_set_def newMapKey_def byteskey_copy_def m0 e_def probe.simps
  have "Map_Set m0 a x () = Some (Ret (m1, ()))" by (simp add: defs m1_def)
  moreover have "Map_Set m1 b y () = Some (Ret (m2, ()))"
    using assms by (simp add: defs m1_def m2_def fun_upd_twist)
  moreover have "Map_Get m2 b = Some (Some y)"
    using assms by (simp add: Map_Get_def m2_def defs)
  moreover have "Map_Delete m2 a () = Some (Ret (m3, ()))"
    using assms by (simp add: Map_Delete_def removeMapKey_def m2_def m3_def defs fun_upd_twist)
  moreover have "Map_Get m3 b = Some None"
    using assms by (simp add: Map_Get_def m3_def defs)
  moreover have "Map_Len m3 = 1" by (simp add: Map_Len_def m3_def)
  ultimately show ?thesis unfolding m0_def by blast
qed

theorem Delete_loses_colliding_key_witness:
  "\<exists>m1 m2 m3.
      Map_Set (byteskey_NewMap (\<lambda>_. 0) 0 None) [1] (10::nat) () = Some (Ret (m1, ())) \<and>
      Map_Set m1 [2] 20 () = Some (Ret (m2, ())) \<and> Map_Get m2 [2] = Some (Some 20) \<and>
      Map_Delete m2 [1] () = Some (Ret (m3, ())) \<and> Map_Get m3 [2] = Some None \<and> Map_Len m3 = 1"
  by (rule Delete_loses_colliding_key) simp_all

theorem Delete_removes_witness:
  "\<exists>m1 m2. Map_Set ex_map [1] 7 () = Some (Ret (m1, ())) \<and> m_lookup m1 1 = None \<and>
     Map_Delete m1 [1] () = Some (Ret (m2, ())) \<and> Map_Get m2 [1] = Some None \<and> map_inv m2"
proof -
  define e :: "(bytes, nat) MapEntry" where
    "e = \<lparr>me_key = \<lparr>mk_key = [1], mk_finalize = False\<rparr>, me_value = 7\<rparr>"
  define m1 where "m1 = ex_map\<lparr>m_lookup := [0 \<mapsto> e]\<rparr>"
  have s: "Map_set ex_map [1] 7 \<lparr>copyKey = True, finalizeKey = False\<rparr> () = Some (Ret (m1, ()))"
    by (simp add: Map_set_def ex_map_simps probe.simps newMapKey_def byteskey_copy_def m1_def e_def)
  have "Map_Len ex_map < 2 ^ 64" by (simp add: ex_map_simps)
  then have inv: "map_inv m1" by (rule set_effect [OF ex_map_simps(7) _ s])
  have room: "has_room m1" by (simp add: has_room_def Map_Len_def m1_def)
  have d: "Map_Delete m1 [1] () = Some (Ret (ex_map, ()))"
    by (simp add: Map_Delete_def removeMapKey_def m1_def e_def ex_map_simps probe.simps)
  have h: "holds m1 [1] 0 e" "m_lookup m1 (0 + 1) = None"
    by (simp_all add: holds_def m1_def e_def ex_map_simps)
  have "Map_Set ex_map [1] 7 () = Some (Ret (m1, ()))"
    using s by (simp add: Map_Set_def ex_map_simps)
  moreover have "finalizable m1" by (simp add: finalizable_def m1_def e_def)
  ultimately show ?thesis using Delete_removes [OF inv room, of "[1]" "()"] d h by auto
qed

text \<open>
  \<^verbatim>\<open>SetUnsafe\<close> marks a new key for finalization even when the map has no finalize function (\<^verbatim>\<open>Set\<close>
  checks this), so deleting the key calls a nil function; a key stored by \<^verbatim>\<open>Set\<close> is deleted
  without a panic.
\<close>

theorem SetUnsafe_then_Delete_panics:
  assumes "map_inv m" and "has_room m" and "mo_finalize (m_opts m) = None"
    and "\<nexists>s e. holds m k s e"
  shows "(\<forall>m' w'. Map_SetUnsafe m k v \<lparr>NoCopyKey = c, NoFinalizeKey = False\<rparr> w = Some (Ret (m', w')) \<longrightarrow>
            Map_Delete m' k w' = Some (Panic NilFinalizeFn)) \<and>
         (\<forall>m' w'. Map_Set m k v w = Some (Ret (m', w')) \<longrightarrow>
            (\<exists>m''. Map_Delete m' k w' = Some (Ret (m'', w'))))"
proof -
  have len: "Map_Len m < 2 ^ 64" using assms(2) by (simp add: has_room_def)
  obtain s where p: "map_probe m k = Some (s, None)" "m_lookup m s = None"
    "chained (mo_hash (m_opts m)) (mo_equals (m_opts m)) (m_lookup m) k s"
    using map_probe_cases [OF assms(1) len, of k] assms(4) by metis
  have del: "Map_Delete m' k w' =
      Some (if finalizeKey opts then Panic NilFinalizeFn
            else Ret (m'\<lparr>m_lookup := (m_lookup m')(s := None)\<rparr>, w'))"
    if set: "Map_set m k v opts w = Some (Ret (m', w'))" for m' w' opts
  proof -
    obtain key where m': "m' = m\<lparr>m_lookup := (m_lookup m)(s \<mapsto> \<lparr>me_key = key, me_value = v\<rparr>)\<rparr>"
      and key: "mo_equals (m_opts m) (mk_key key) k" "mk_finalize key = finalizeKey opts"
      and inv: "map_inv m'"
      using set_missing [OF assms(1) p set] by metis
    have "holds m' k s \<lparr>me_key = key, me_value = v\<rparr>"
      using key(1) by (simp add: m' holds_def)
    then show ?thesis
      using assms(3) key(2) holds_probe [OF inv, of k]
      by (simp add: Map_Delete_def removeMapKey_def m')
  qed
  show ?thesis
    using del assms(3) by (auto simp: Map_SetUnsafe_def Map_Set_def)
qed

theorem SetUnsafe_then_Delete_panics_witness:
  "\<exists>m'. Map_SetUnsafe ex_map [1] 7 \<lparr>NoCopyKey = False, NoFinalizeKey = False\<rparr> () =
          Some (Ret (m', ())) \<and> Map_Delete m' [1] () = Some (Panic NilFinalizeFn)"
proof -
  define m' where "m' = ex_map\<lparr>m_lookup := [0 \<mapsto> \<lparr>me_key = \<lparr>mk_key = [1], mk_finalize = True\<rparr>,
    me_value = 7\<rparr>]\<rparr>"
  have s: "Map_SetUnsafe ex_map [1] 7 \<lparr>NoCopyKey = False, NoFinalizeKey = False\<rparr> () =
      Some (Ret (m', ()))"
    by (simp add: Map_SetUnsafe_def Map_set_def ex_map_simps probe.simps newMapKey_def
        byteskey_copy_def m'_def)
  have "\<nexists>s e. holds ex_map [1] s e" by (simp add: holds_def ex_map_simps)
  from SetUnsafe_then_Delete_panics [OF ex_map_simps(7,8,5) this] s show ?thesis by blast
qed

text \<open>
  \<^verbatim>\<open>Reset\<close> empties the table whatever order the loop visits it in, never panics when every key
  marked for finalization has a finalize function to call, and calls it exactly for the marked
  keys, in the order visited.
\<close>

definition finalize_marked :: "('k, 'v, 'w) Map \<Rightarrow> MapHash \<Rightarrow> 'w \<Rightarrow> 'w" where
  "finalize_marked m h w =
     (case m_lookup m h of
        Some e \<Rightarrow> (case mo_finalize (m_opts m) of
                      Some f \<Rightarrow> (if mk_finalize (me_key e) then f (entry_key e) w else w)
                    | None \<Rightarrow> w)
      | None \<Rightarrow> w)"

lemma Reset_run:
  assumes "distinct order"
    and "\<forall>h e. m_lookup m h = Some e \<and> mk_finalize (me_key e) \<longrightarrow> mo_finalize (m_opts m) \<noteq> None"
  shows "Map_Reset order m w =
         Ret (m\<lparr>m_lookup := (m_lookup m) |` (- set order)\<rparr>, fold (finalize_marked m) order w)"
  using assms
proof (induction order arbitrary: m w)
  case Nil
  then show ?case by simp
next
  case (Cons h order)
  let ?m = "m\<lparr>m_lookup := (m_lookup m)(h := None)\<rparr>"
  have IH: "Map_Reset order ?m w' = Ret (?m\<lparr>m_lookup := (m_lookup ?m) |` (- set order)\<rparr>,
      fold (finalize_marked ?m) order w')" for w'
    using Cons.prems by (intro Cons.IH) (auto split: if_splits)
  have same: "fold (finalize_marked ?m) order w' = fold (finalize_marked m) order w'" for w'
    using Cons.prems(1) by (intro fold_cong) (auto simp: finalize_marked_def fun_eq_iff split: option.split)
  have lk: "(m_lookup m)(h := None) |` (- set order) = m_lookup m |` (- set (h # order))"
    by (auto simp: restrict_map_def fun_eq_iff)
  show ?case
  proof (cases "m_lookup m h")
    case None
    then have "?m = m" by (simp add: fun_upd_idem)
    moreover have "finalize_marked m h w = w" using None by (simp add: finalize_marked_def)
    moreover have "m_lookup m |` (- set order) = m_lookup m |` (- set (h # order))"
      using None by (auto simp: restrict_map_def fun_eq_iff)
    ultimately show ?thesis using None IH [of w] by simp
  next
    case (Some e)
    have "removeMapKey m h (me_key e) w = Ret (?m, finalize_marked m h w)"
      using Some Cons.prems(2)
      by (auto simp: removeMapKey_def finalize_marked_def Let_def split: option.split)
    then show ?thesis using Some IH same lk by simp
  qed
qed

theorem Reset_empties:
  assumes "distinct order" and "set order = dom (m_lookup m)"
    and "\<forall>h e. m_lookup m h = Some e \<and> mk_finalize (me_key e) \<longrightarrow> mo_finalize (m_opts m) \<noteq> None"
  shows "Map_Reset order m w =
         Ret (m\<lparr>m_lookup := Map.empty\<rparr>, fold (finalize_marked m) order w)"
proof -
  have "m_lookup m |` (- set order) = Map.empty"
    by (auto simp: assms(2) restrict_map_def fun_eq_iff domIff)
  then show ?thesis using Reset_run [OF assms(1,3)] by simp
qed

definition ex_table :: "(bytes, nat, bytes list) Map" where
  "ex_table = (byteskey_NewMap (\<lambda>_. 0) 0 (Some \<lparr>kp_Get = \<lambda>n w. (n, w), kp_Put = (#)\<rparr>))
     \<lparr>m_lookup := [0 \<mapsto> \<lparr>me_key = \<lparr>mk_key = [1], mk_finalize = True\<rparr>, me_value = 7\<rparr>,
        1 \<mapsto> \<lparr>me_key = \<lparr>mk_key = [2], mk_finalize = False\<rparr>, me_value = 8\<rparr>]\<rparr>"

theorem Reset_empties_witness:
  "Map_Reset [1, 0] ex_table [] = Ret (ex_table\<lparr>m_lookup := Map.empty\<rparr>, [[1]])"
proof -
  have "distinct [1, 0 :: MapHash]" "set [1, 0] = dom (m_lookup ex_table)"
    "\<forall>h e. m_lookup ex_table h = Some e \<and> mk_finalize (me_key e) \<longrightarrow>
       mo_finalize (m_opts ex_table) \<noteq> None"
    by (auto simp: ex_table_def byteskey_NewMap_def mapAlloc_def Map_Reallocate_def)
  from Reset_empties [OF this] show ?thesis
    by (simp add: finalize_marked_def)
       (simp add: ex_table_def byteskey_NewMap_def mapAlloc_def Map_Reallocate_def)
qed

end
