(* ===== verification/Errors.thy ===== *)
theory Errors
  imports Prelude
begin

text \<open>
  The package \<^verbatim>\<open>errors\<close>: contained, renamed and classified errors, and the list-like
  \<^verbatim>\<open>MultiError\<close>.

  A Go value of type \<^verbatim>\<open>error\<close> is an \<open>err option\<close>, with \<^const>\<open>None\<close> for \<^verbatim>\<open>nil\<close>; the constructors of \<open>err\<close> are
  the concrete types of the package and \<open>Base\<close> for the errors of other packages, which have a
  message and no inner error.  The field \<^verbatim>\<open>errors\<close> of a \<^verbatim>\<open>MultiError\<close> is a slice, that is an address, a
  length and a capacity over a heap of arrays: \<^verbatim>\<open>append\<close> writes into the array when the slice has
  spare capacity, which other values that hold the same array can see.  How much \<^verbatim>\<open>append\<close>
  allocates is left to the Go implementation and is the parameter \<open>grow\<close>.
\<close>

section \<open>Error values\<close>

record error_slice =
  arr :: nat
  slen :: nat
  scap :: nat

datatype err =
    Base string
  | renamedError "err option" "err option"
  | invalidParamsError "err option"
  | retryableError "err option"
  | nonRetryableError "err option"
  | MultiErrorVal MultiError
  | ErrorsVal "err option list"
and MultiError = MultiError (me_err: "err option") (me_errors: error_slice)

text \<open>The heap of the arrays behind slices of errors; \<open>fresh\<close> is the next unused address.\<close>

record error_heap =
  arrays :: "nat \<Rightarrow> err option list"
  fresh :: nat

definition slice_elems :: "error_heap \<Rightarrow> error_slice \<Rightarrow> err option list" where
  "slice_elems h s = take (slen s) (arrays h (arr s))"

text \<open>The built-in \<^verbatim>\<open>append(s, x)\<close>.\<close>

definition append_error ::
    "(nat \<Rightarrow> nat) \<Rightarrow> error_heap \<Rightarrow> error_slice \<Rightarrow> err option \<Rightarrow> error_heap \<times> error_slice" where
  "append_error grow h s x =
     (if slen s < scap s then
        (h\<lparr>arrays := (arrays h)(arr s := (arrays h (arr s))[slen s := x])\<rparr>,
         s\<lparr>slen := slen s + 1\<rparr>)
      else
        (let c = max (slen s + 1) (grow (scap s)) in
         (h\<lparr>arrays := (arrays h)(fresh h := slice_elems h s @ x # replicate (c - (slen s + 1)) None),
            fresh := fresh h + 1\<rparr>,
          \<lparr>arr = fresh h, slen = slen s + 1, scap = c\<rparr>)))"

section \<open>Classification\<close>

fun FirstError :: "err option list \<Rightarrow> err option" where
  "FirstError [] = None"
| "FirstError (e # errs) = (if e \<noteq> None then e else FirstError errs)"

fun InnerError :: "err option \<Rightarrow> err option" where
  "InnerError (Some (renamedError i r)) = i"
| "InnerError (Some (invalidParamsError i)) = i"
| "InnerError (Some (retryableError i)) = i"
| "InnerError (Some (nonRetryableError i)) = i"
| "InnerError _ = None"

definition NewRenamedError :: "err option \<Rightarrow> err option \<Rightarrow> err" where
  "NewRenamedError inner renamed = renamedError inner renamed"

definition NewInvalidParamsError :: "err option \<Rightarrow> err" where
  "NewInvalidParamsError inner = invalidParamsError inner"

definition NewRetryableError :: "err option \<Rightarrow> err" where
  "NewRetryableError inner = retryableError inner"

definition NewNonRetryableError :: "err option \<Rightarrow> err" where
  "NewNonRetryableError inner = nonRetryableError inner"

definition err_size :: "err option \<Rightarrow> nat" where
  "err_size e = (case e of None \<Rightarrow> 0 | Some x \<Rightarrow> Suc (size x))"

lemma InnerError_smaller:
  "e \<noteq> None \<Longrightarrow> err_size (InnerError e) < err_size e"
  by (cases e rule: InnerError.cases) (auto simp: err_size_def split: option.split)

fun is_invalidParams :: "err option \<Rightarrow> bool" where
  "is_invalidParams (Some (invalidParamsError i)) = True"
| "is_invalidParams _ = False"

fun is_retryable :: "err option \<Rightarrow> bool" where
  "is_retryable (Some (retryableError i)) = True"
| "is_retryable _ = False"

fun is_nonRetryable :: "err option \<Rightarrow> bool" where
  "is_nonRetryable (Some (nonRetryableError i)) = True"
| "is_nonRetryable _ = False"

text \<open>The three loops \<^verbatim>\<open>for err != nil\<close>; each ends because an inner error is a smaller value.\<close>

function GetInnerInvalidParamsError :: "err option \<Rightarrow> err option" where
  "GetInnerInvalidParamsError err =
     (if err = None then None
      else if is_invalidParams err then InnerError err
      else GetInnerInvalidParamsError (InnerError err))"
  by auto
termination
  by (relation "measure err_size") (simp_all add: InnerError_smaller)

function GetInnerRetryableError :: "err option \<Rightarrow> err option" where
  "GetInnerRetryableError err =
     (if err = None then None
      else if is_retryable err then InnerError err
      else GetInnerRetryableError (InnerError err))"
  by auto
termination
  by (relation "measure err_size") (simp_all add: InnerError_smaller)

function GetInnerNonRetryableError :: "err option \<Rightarrow> err option" where
  "GetInnerNonRetryableError err =
     (if err = None then None
      else if is_nonRetryable err then InnerError err
      else GetInnerNonRetryableError (InnerError err))"
  by auto
termination
  by (relation "measure err_size") (simp_all add: InnerError_smaller)

declare GetInnerInvalidParamsError.simps [simp del]
  GetInnerRetryableError.simps [simp del] GetInnerNonRetryableError.simps [simp del]

definition IsInvalidParams :: "err option \<Rightarrow> bool" where
  "IsInvalidParams err \<longleftrightarrow> GetInnerInvalidParamsError err \<noteq> None"

definition IsRetryableError :: "err option \<Rightarrow> bool" where
  "IsRetryableError err \<longleftrightarrow> GetInnerRetryableError err \<noteq> None"

definition IsNonRetryableError :: "err option \<Rightarrow> bool" where
  "IsNonRetryableError err \<longleftrightarrow> GetInnerNonRetryableError err \<noteq> None"

section \<open>Messages\<close>

text \<open>
  \<^verbatim>\<open>err.Error()\<close>.  Calling the method on a nil interface panics.  An error value can reach itself
  through the array of a \<^verbatim>\<open>MultiError\<close>, so the recursion is bounded by the stack: \<open>depth\<close> is the
  number of nested calls the stack has room for.
\<close>

datatype error_panic = NilDereference | StackOverflow

fun mapM_outcome :: "('a \<Rightarrow> ('p, 'b) outcome) \<Rightarrow> 'a list \<Rightarrow> ('p, 'b list) outcome" where
  "mapM_outcome f [] = Ret []"
| "mapM_outcome f (x # xs) =
     bind_outcome (f x) (\<lambda>y. bind_outcome (mapM_outcome f xs) (\<lambda>ys. Ret (y # ys)))"

lemma mapM_outcome_cong [fundef_cong]:
  "xs = ys \<Longrightarrow> (\<And>x. x \<in> set ys \<Longrightarrow> f x = g x) \<Longrightarrow> mapM_outcome f xs = mapM_outcome g ys"
proof (induction ys arbitrary: xs)
  case (Cons y ys)
  then have "mapM_outcome f ys = mapM_outcome g ys" by simp
  with Cons.prems show ?case by simp
qed simp

lemma mapM_outcome_Ret: "(\<And>x. x \<in> set xs \<Longrightarrow> f x = Ret (g x)) \<Longrightarrow> mapM_outcome f xs = Ret (map g xs)"
  by (induction xs) simp_all

text \<open>The loops of \<^verbatim>\<open>MultiError.Error\<close> and of \<^verbatim>\<open>Errors.Error\<close> over the messages of the elements.\<close>

fun multi_text :: "string list \<Rightarrow> string \<Rightarrow> string" where
  "multi_text [] final = final"
| "multi_text (t # ts) final = t @ CHR 0x0A # multi_text ts final"

fun errors_text :: "string option list \<Rightarrow> string" where
  "errors_text [] = []"
| "errors_text (t # ts) =
     (case t of None \<Rightarrow> ''<nil>'' | Some s \<Rightarrow> ''<'' @ s @ ''>'') @
     (if ts = [] then [] else '', '') @ errors_text ts"

fun Error :: "nat \<Rightarrow> error_heap \<Rightarrow> err option \<Rightarrow> (error_panic, string) outcome" where
  "Error depth h None = Panic NilDereference"
| "Error 0 h (Some e) = Panic StackOverflow"
| "Error (Suc d) h (Some (Base msg)) = Ret msg"
| "Error (Suc d) h (Some (renamedError i r)) = Error d h r"
| "Error (Suc d) h (Some (invalidParamsError i)) = Error d h i"
| "Error (Suc d) h (Some (retryableError i)) = Error d h i"
| "Error (Suc d) h (Some (nonRetryableError i)) = Error d h i"
| "Error (Suc d) h (Some (MultiErrorVal me)) =
     (if me_err me = None then Ret []
      else if slen (me_errors me) = 0 then Error d h (me_err me)
      else bind_outcome (mapM_outcome (Error d h) (slice_elems h (me_errors me)))
             (\<lambda>ts. bind_outcome (Error d h (me_err me)) (\<lambda>t. Ret (multi_text ts t))))"
| "Error (Suc d) h (Some (ErrorsVal es)) =
     bind_outcome
       (mapM_outcome (\<lambda>e. if e = None then Ret None
                          else bind_outcome (Error d h e) (\<lambda>t. Ret (Some t))) es)
       (\<lambda>ts. Ret (''['' @ errors_text ts @ '']''))"

definition Wrap :: "nat \<Rightarrow> error_heap \<Rightarrow> err option \<Rightarrow> string \<Rightarrow> (error_panic, err) outcome" where
  "Wrap depth h err msg =
     bind_outcome (Error depth h err)
       (\<lambda>t. Ret (NewRenamedError err (Some (Base (msg @ '': '' @ t)))))"

text \<open>\<^verbatim>\<open>Wrapf\<close>; the formatting function \<^verbatim>\<open>fmt.Sprintf\<close> is a parameter.\<close>

definition Wrapf ::
    "(string \<Rightarrow> 'a list \<Rightarrow> string) \<Rightarrow> nat \<Rightarrow> error_heap \<Rightarrow> err option \<Rightarrow> string \<Rightarrow> 'a list \<Rightarrow>
     (error_panic, err) outcome" where
  "Wrapf sprintf depth h err fmt args = (let msg = sprintf fmt args in Wrap depth h err msg)"

section \<open>MultiError\<close>

definition nil_slice :: error_slice where
  "nil_slice = \<lparr>arr = 0, slen = 0, scap = 0\<rparr>"

definition NewMultiError :: MultiError where
  "NewMultiError = MultiError None nil_slice"

definition MultiError_Empty :: "MultiError \<Rightarrow> bool" where
  "MultiError_Empty e \<longleftrightarrow> me_err e = None"

definition MultiError_Add ::
    "(nat \<Rightarrow> nat) \<Rightarrow> error_heap \<Rightarrow> MultiError \<Rightarrow> err option \<Rightarrow> error_heap \<times> MultiError" where
  "MultiError_Add grow h e err =
     (if err = None then (h, e)
      else if me_err e = None then (h, MultiError err (me_errors e))
      else (let (h', s) = append_error grow h (me_errors e) (me_err e) in (h', MultiError err s)))"

definition MultiError_FinalError :: "MultiError \<Rightarrow> err option" where
  "MultiError_FinalError e = (if me_err e = None then None else Some (MultiErrorVal e))"

definition MultiError_LastError :: "MultiError \<Rightarrow> err option" where
  "MultiError_LastError e = (if me_err e = None then None else me_err e)"

definition MultiError_NumErrors :: "MultiError \<Rightarrow> nat" where
  "MultiError_NumErrors e = (if me_err e = None then 0 else slen (me_errors e) + 1)"

text \<open>Adding the errors of a list one after the other, each to the result of the previous call.\<close>

fun add_errors ::
    "(nat \<Rightarrow> nat) \<Rightarrow> error_heap \<Rightarrow> MultiError \<Rightarrow> err option list \<Rightarrow> error_heap \<times> MultiError" where
  "add_errors grow h e [] = (h, e)"
| "add_errors grow h e (x # xs) = (let (h', e') = MultiError_Add grow h e x in add_errors grow h' e' xs)"

section \<open>Facts about the classification\<close>

lemmas get_inner_simps =
  GetInnerInvalidParamsError.simps GetInnerRetryableError.simps GetInnerNonRetryableError.simps

lemma get_inner_renamed:
  "GetInnerInvalidParamsError (Some (renamedError i r)) = GetInnerInvalidParamsError i"
  "GetInnerRetryableError (Some (renamedError i r)) = GetInnerRetryableError i"
  "GetInnerNonRetryableError (Some (renamedError i r)) = GetInnerNonRetryableError i"
  by (subst get_inner_simps, simp)+

text \<open>The chain of inner errors, the reference definition for the three loops.\<close>

function chain :: "err option \<Rightarrow> err list" where
  "chain None = []"
| "chain (Some e) = e # chain (InnerError (Some e))"
  by pat_completeness auto
termination
  by (relation "measure err_size")
    (simp_all add: InnerError_smaller)

declare chain.simps(2) [simp del]

lemma chain_Some: "chain (Some e) = e # chain (InnerError (Some e))"
  by (rule chain.simps(2))

lemma GetInnerNonRetryableError_chain:
  "GetInnerNonRetryableError e =
     (case dropWhile (\<lambda>x. \<not> is_nonRetryable (Some x)) (chain e) of [] \<Rightarrow> None | x # _ \<Rightarrow> InnerError (Some x))"
proof (induction e rule: chain.induct)
  case (2 e)
  then show ?case
    by (cases "is_nonRetryable (Some e)")
      (simp_all add: GetInnerNonRetryableError.simps [of "Some e"] chain_Some)
qed (simp add: GetInnerNonRetryableError.simps)

lemma GetInnerRetryableError_chain:
  "GetInnerRetryableError e =
     (case dropWhile (\<lambda>x. \<not> is_retryable (Some x)) (chain e) of [] \<Rightarrow> None | x # _ \<Rightarrow> InnerError (Some x))"
proof (induction e rule: chain.induct)
  case (2 e)
  then show ?case
    by (cases "is_retryable (Some e)")
      (simp_all add: GetInnerRetryableError.simps [of "Some e"] chain_Some)
qed (simp add: GetInnerRetryableError.simps)

lemma GetInnerInvalidParamsError_chain:
  "GetInnerInvalidParamsError e =
     (case dropWhile (\<lambda>x. \<not> is_invalidParams (Some x)) (chain e) of [] \<Rightarrow> None | x # _ \<Rightarrow> InnerError (Some x))"
proof (induction e rule: chain.induct)
  case (2 e)
  then show ?case
    by (cases "is_invalidParams (Some e)")
      (simp_all add: GetInnerInvalidParamsError.simps [of "Some e"] chain_Some)
qed (simp add: GetInnerInvalidParamsError.simps)

lemma IsNonRetryableError_iff:
  "IsNonRetryableError e \<longleftrightarrow>
     (\<exists>pre i post. chain e = pre @ nonRetryableError (Some i) # post \<and>
        (\<forall>x\<in>set pre. \<not> is_nonRetryable (Some x)))"
  (is "_ = ?R")
proof
  assume "IsNonRetryableError e"
  then obtain x post where d: "dropWhile (\<lambda>x. \<not> is_nonRetryable (Some x)) (chain e) = x # post"
    and i: "InnerError (Some x) \<noteq> None"
    by (auto simp: IsNonRetryableError_def GetInnerNonRetryableError_chain split: list.splits)
  then have "is_nonRetryable (Some x)" using hd_dropWhile [of "\<lambda>x. \<not> is_nonRetryable (Some x)" "chain e"]
    by auto
  with i obtain i' where "x = nonRetryableError (Some i')"
    by (cases "Some x" rule: is_nonRetryable.cases) auto
  moreover have "chain e = takeWhile (\<lambda>x. \<not> is_nonRetryable (Some x)) (chain e) @ x # post"
    using d takeWhile_dropWhile_id [of "\<lambda>x. \<not> is_nonRetryable (Some x)" "chain e"] by metis
  ultimately show ?R using set_takeWhileD by metis
next
  assume ?R
  then show "IsNonRetryableError e"
    by (auto simp: IsNonRetryableError_def GetInnerNonRetryableError_chain
        dropWhile_append_stop split: list.splits)
qed

section \<open>Facts about MultiError\<close>

definition wf_slice :: "error_heap \<Rightarrow> error_slice \<Rightarrow> bool" where
  "wf_slice h s \<longleftrightarrow> slen s \<le> scap s \<and>
     (0 < scap s \<longrightarrow> arr s < fresh h \<and> length (arrays h (arr s)) = scap s)"

definition MultiError_wf :: "error_heap \<Rightarrow> MultiError \<Rightarrow> bool" where
  "MultiError_wf h e \<longleftrightarrow> wf_slice h (me_errors e) \<and> (me_err e = None \<longrightarrow> slen (me_errors e) = 0)"

text \<open>The abstraction: the list of errors in the order in which they were added.\<close>

definition me_list :: "error_heap \<Rightarrow> MultiError \<Rightarrow> err option list" where
  "me_list h e = (if me_err e = None then [] else slice_elems h (me_errors e) @ [me_err e])"

lemma slice_elems_length: "wf_slice h s \<Longrightarrow> length (slice_elems h s) = slen s"
  by (cases "scap s = 0") (simp_all add: wf_slice_def slice_elems_def)

lemma append_error_elems:
  assumes "wf_slice h s" and "append_error grow h s x = (h', s')"
  shows "wf_slice h' s' \<and> slice_elems h' s' = slice_elems h s @ [x] \<and> slen s' = slen s + 1"
proof (cases "slen s < scap s")
  case True
  with assms show ?thesis
    by (auto simp: append_error_def wf_slice_def slice_elems_def take_Suc_conv_app_nth)
next
  case False
  with assms(2) have h': "s' = \<lparr>arr = fresh h, slen = slen s + 1, scap = max (slen s + 1) (grow (scap s))\<rparr>"
    "arrays h' (fresh h) = slice_elems h s @ x #
       replicate (max (slen s + 1) (grow (scap s)) - (slen s + 1)) None" "fresh h' = fresh h + 1"
    by (auto simp: append_error_def Let_def)
  then show ?thesis
    using slice_elems_length [OF assms(1)] by (simp add: wf_slice_def slice_elems_def)
qed

lemma MultiError_Add_snoc:
  assumes "MultiError_wf h e" and "MultiError_Add grow h e x = (h', e')"
  shows "MultiError_wf h' e' \<and> me_list h' e' = me_list h e @ (if x = None then [] else [x])"
proof (cases "x = None \<or> me_err e = None")
  case True
  with assms show ?thesis
    by (auto simp: MultiError_Add_def me_list_def MultiError_wf_def slice_elems_def split: if_splits)
next
  case False
  obtain s' where a: "append_error grow h (me_errors e) (me_err e) = (h', s')" and e': "e' = MultiError x s'"
    using False assms(2) by (auto simp: MultiError_Add_def split: prod.splits)
  from append_error_elems [OF _ a] assms(1) False e' show ?thesis
    by (simp add: MultiError_wf_def me_list_def)
qed

lemma me_list_counts:
  assumes "MultiError_wf h e"
  shows "MultiError_NumErrors e = length (me_list h e)"
    and "MultiError_LastError e = (if me_list h e = [] then None else last (me_list h e))"
  using assms slice_elems_length [of h "me_errors e"]
  by (simp_all add: MultiError_NumErrors_def MultiError_LastError_def me_list_def MultiError_wf_def)

lemma NewMultiError_wf: "MultiError_wf h NewMultiError" "me_list h NewMultiError = []"
  by (simp_all add: MultiError_wf_def NewMultiError_def nil_slice_def wf_slice_def me_list_def)

lemma add_errors_list:
  "MultiError_wf h e \<Longrightarrow> add_errors grow h e xs = (h', e') \<Longrightarrow>
   MultiError_wf h' e' \<and> me_list h' e' = me_list h e @ filter (\<lambda>x. x \<noteq> None) xs"
proof (induction xs arbitrary: h e)
  case (Cons x xs)
  obtain h1 e1 where a: "MultiError_Add grow h e x = (h1, e1)" by force
  from MultiError_Add_snoc [OF Cons.prems(1) a] Cons.IH [of h1 e1] Cons.prems(2) a
  show ?case by (cases x) auto
qed simp

text \<open>The message of a \<^verbatim>\<open>MultiError\<close>: the messages of its errors, separated by newlines.\<close>

fun join_lines :: "string list \<Rightarrow> string" where
  "join_lines [] = []"
| "join_lines [t] = t"
| "join_lines (t # ts) = t @ CHR 0x0A # join_lines ts"

lemma multi_text_join: "multi_text ts t = join_lines (ts @ [t])"
proof (induction ts)
  case (Cons a ts)
  then show ?case by (cases "ts @ [t]") simp_all
qed simp

lemma Error_MultiError:
  assumes "MultiError_wf h e" and "me_list h e \<noteq> []"
    and texts: "\<And>x. x \<in> set (me_list h e) \<Longrightarrow> Error d h x = Ret (ttext x)"
  shows "Error (Suc d) h (Some (MultiErrorVal e)) = Ret (join_lines (map ttext (me_list h e)))"
proof -
  have e: "me_err e \<noteq> None" using assms(2) by (simp add: me_list_def split: if_splits)
  then have l: "me_list h e = slice_elems h (me_errors e) @ [me_err e]" by (simp add: me_list_def)
  have "mapM_outcome (Error d h) (slice_elems h (me_errors e)) = Ret (map ttext (slice_elems h (me_errors e)))"
    using texts l by (intro mapM_outcome_Ret) simp
  moreover have "Error d h (me_err e) = Ret (ttext (me_err e))" using texts l by simp
  ultimately show ?thesis
    using e l by (auto simp: multi_text_join slice_elems_def)
qed

lemma mapM_outcome_not_Ret:
  "x \<in> set xs \<Longrightarrow> (\<And>t. f x \<noteq> Ret t) \<Longrightarrow> mapM_outcome f xs \<noteq> Ret ts"
  by (induction xs arbitrary: ts) auto

text \<open>An error that is an element of its own slice has no message.\<close>

lemma Error_cyclic:
  assumes "Some (MultiErrorVal e) \<in> set (slice_elems h (me_errors e))" and "me_err e \<noteq> None"
  shows "Error d h (Some (MultiErrorVal e)) \<noteq> Ret t"
proof (induction d arbitrary: t)
  case (Suc d)
  have "slen (me_errors e) \<noteq> 0" using assms(1) by (cases "slen (me_errors e)") (simp_all add: slice_elems_def)
  with mapM_outcome_not_Ret [of _ _ "Error d h", OF assms(1) Suc] assms(2) show ?case by auto
qed simp

lemma append_error_in_place:
  assumes "slen s < scap s"
  shows "append_error grow h s x =
    (h\<lparr>arrays := (arrays h)(arr s := (arrays h (arr s))[slen s := x])\<rparr>, s\<lparr>slen := slen s + 1\<rparr>)"
  using assms by (simp add: append_error_def)

section \<open>Properties\<close>

definition ex_heap :: error_heap where
  "ex_heap = \<lparr>arrays = (\<lambda>_. []), fresh = 0\<rparr>"

text \<open>
  C13: \<^verbatim>\<open>Wrap\<close> keeps the class of an error.  It returns exactly when the error has a message (it panics on
  nil); the result reads as the new message, a colon and the old one, and the three classifying
  functions and their loops answer on it as they answer on the wrapped error.
\<close>

theorem Wrap_preserves_class:
  assumes "Error d h err = Ret t"
  shows "\<exists>w. Wrap d h err msg = Ret w \<and> Error (Suc (Suc d)) h (Some w) = Ret (msg @ '': '' @ t) \<and>
    InnerError (Some w) = err \<and>
    GetInnerInvalidParamsError (Some w) = GetInnerInvalidParamsError err \<and>
    GetInnerRetryableError (Some w) = GetInnerRetryableError err \<and>
    GetInnerNonRetryableError (Some w) = GetInnerNonRetryableError err \<and>
    (IsInvalidParams (Some w) \<longleftrightarrow> IsInvalidParams err) \<and>
    (IsRetryableError (Some w) \<longleftrightarrow> IsRetryableError err) \<and>
    (IsNonRetryableError (Some w) \<longleftrightarrow> IsNonRetryableError err)"
  using assms by (simp add: Wrap_def NewRenamedError_def get_inner_renamed IsInvalidParams_def
      IsRetryableError_def IsNonRetryableError_def)

theorem Wrap_preserves_class_witness:
  "\<exists>w. Wrap 2 ex_heap (Some (NewNonRetryableError (Some (Base ''closed'')))) ''write'' = Ret w \<and>
     Error 4 ex_heap (Some w) = Ret ''write: closed'' \<and> IsNonRetryableError (Some w)"
proof -
  have "Error 2 ex_heap (Some (NewNonRetryableError (Some (Base ''closed'')))) = Ret ''closed''"
    by (simp add: NewNonRetryableError_def numeral_2_eq_2)
  moreover have "IsNonRetryableError (Some (NewNonRetryableError (Some (Base ''closed''))))"
    by (simp add: IsNonRetryableError_def NewNonRetryableError_def GetInnerNonRetryableError.simps)
  ultimately show ?thesis
    using Wrap_preserves_class [of 2 ex_heap _ "''closed''" "''write''"] by (fastforce simp: numeral_eq_Suc)
qed

text \<open>
  C14: a \<^verbatim>\<open>MultiError\<close> built by successive calls of \<^verbatim>\<open>Add\<close>, each on the result of the one before, holds the
  non-nil errors in the order of the calls, whatever capacity \<^verbatim>\<open>append\<close> allocates: \<^verbatim>\<open>NumErrors\<close> counts them,
  \<^verbatim>\<open>LastError\<close> is the last one, \<^verbatim>\<open>FinalError\<close> is nil exactly when there is none, and its message is their
  messages, one per line.
\<close>

theorem MultiError_collects:
  assumes "add_errors grow h NewMultiError xs = (h', e)" and "es = filter (\<lambda>x. x \<noteq> None) xs"
    and "\<forall>x\<in>set es. Error d h' x = Ret (ttext x)"
  shows "me_list h' e = es \<and> MultiError_NumErrors e = length es \<and>
    MultiError_LastError e = (if es = [] then None else last es) \<and>
    (MultiError_Empty e \<longleftrightarrow> es = []) \<and> (MultiError_FinalError e = None \<longleftrightarrow> es = []) \<and>
    (es \<noteq> [] \<longrightarrow> Error (Suc d) h' (MultiError_FinalError e) = Ret (join_lines (map ttext es)))"
proof -
  have wf: "MultiError_wf h' e" and l: "me_list h' e = es"
    using add_errors_list [OF NewMultiError_wf(1) assms(1)] by (simp_all add: NewMultiError_wf assms(2))
  have "me_err e = None \<longleftrightarrow> es = []" using l by (cases "me_err e") (auto simp: me_list_def)
  moreover have "Error (Suc d) h' (Some (MultiErrorVal e)) = Ret (join_lines (map ttext es))" if "es \<noteq> []"
    using Error_MultiError [OF wf, of d ttext] that assms(3) l by blast
  ultimately show ?thesis
    using me_list_counts [OF wf] l by (simp add: MultiError_Empty_def MultiError_FinalError_def)
qed

theorem MultiError_collects_witness:
  "\<exists>h' e. add_errors (\<lambda>c. 2 * c) ex_heap NewMultiError
        [Some (Base ''a''), None, Some (Base ''b''), Some (Base ''c'')] = (h', e) \<and>
     MultiError_NumErrors e = 3 \<and>
     Error 2 h' (MultiError_FinalError e) = Ret (''a'' @ CHR 0x0A # ''b'' @ CHR 0x0A # ''c'')"
proof -
  let ?xs = "[Some (Base ''a''), None, Some (Base ''b''), Some (Base ''c'')]"
  let ?ttext = "\<lambda>x. case x of Some (Base m) \<Rightarrow> m | _ \<Rightarrow> []"
  obtain h' e where a: "add_errors (\<lambda>c. 2 * c) ex_heap NewMultiError ?xs = (h', e)" by force
  have "\<forall>x\<in>set (filter (\<lambda>x. x \<noteq> None) ?xs). Error 1 h' x = Ret (?ttext x)" by simp
  from MultiError_collects [OF a refl this] a show ?thesis by (simp add: numeral_2_eq_2)
qed

text \<open>
  C15: although the comment of the type calls it immutable, a \<^verbatim>\<open>MultiError\<close> whose slice has room for two
  more errors is changed by calls of \<^verbatim>\<open>Add\<close> on the value it was built from: the slices share an array.
  Below, \<open>f1\<close> holds \<open>x\<close> until \<open>Add\<close> is called twice more, starting from \<open>e\<close>; then it holds another error
  in the place of \<open>x\<close>.  When that error is \<open>f1\<close> itself, \<^verbatim>\<open>f1.Error()\<close> does not return for any stack.
\<close>

theorem MultiError_not_immutable:
  assumes "MultiError_wf h e" and "me_err e \<noteq> None" and "slen (me_errors e) + 2 \<le> scap (me_errors e)"
    and "x \<noteq> None" and "z \<noteq> None" and "w \<noteq> None"
    and "MultiError_Add grow h e x = (h1, e1)" and "MultiError_Add grow h1 e1 z = (h2, f1)"
    and "MultiError_Add grow h2 e (Some (MultiErrorVal f1)) = (h3, e2)"
    and "MultiError_Add grow h3 e2 w = (h4, f2)"
  shows "me_list h2 f1 = me_list h e @ [x, z] \<and>
    me_list h4 f1 = me_list h e @ [Some (MultiErrorVal f1), z] \<and>
    (\<forall>d t. Error d h4 (Some (MultiErrorVal f1)) \<noteq> Ret t)"
proof -
  let ?s = "me_errors e" and ?l = "slen (me_errors e)"
  have len: "length (arrays h (arr ?s)) = scap ?s" using assms(1,3)
    by (simp add: MultiError_wf_def wf_slice_def)
  have f1: "f1 = MultiError z (?s\<lparr>slen := ?l + 2\<rparr>)"
    and h2: "arrays h2 (arr ?s) = (arrays h (arr ?s))[?l := me_err e, ?l + 1 := x]"
    using assms(2-5,7,8) by (auto simp: MultiError_Add_def append_error_in_place)
  have "arrays h4 (arr ?s) = (arrays h2 (arr ?s))[?l := me_err e, ?l + 1 := Some (MultiErrorVal f1)]"
    using assms(2,3,6,9,10) by (auto simp: MultiError_Add_def append_error_in_place)
  also have "\<dots> = (arrays h (arr ?s))[?l := me_err e, ?l + 1 := Some (MultiErrorVal f1)]"
    by (simp add: h2 list_update_swap [of "?l" "Suc ?l"])
  finally have a4: "arrays h4 (arr ?s) = \<dots>" .
  have el: "slice_elems hh (me_errors f1) = slice_elems h ?s @ [me_err e, v]"
    if "arrays hh (arr ?s) = (arrays h (arr ?s))[?l := me_err e, ?l + 1 := v]" for hh v
    using that len assms(3) by (simp add: f1 slice_elems_def take_Suc_conv_app_nth)
  have l2: "me_list h2 f1 = me_list h e @ [x, z]"
    using el [OF h2] assms(2,5) by (simp add: me_list_def f1)
  have l4: "me_list h4 f1 = me_list h e @ [Some (MultiErrorVal f1), z]"
    using el [OF a4] assms(2,5) by (simp add: me_list_def f1)
  have "Error d h4 (Some (MultiErrorVal f1)) \<noteq> Ret t" for d t
    using el [OF a4] assms(5) by (intro Error_cyclic) (simp_all add: f1)
  with l2 l4 show ?thesis by blast
qed

text \<open>Six errors added with an \<^verbatim>\<open>append\<close> that doubles the capacity: five of them are in an array of eight.\<close>

definition ex_multi :: "error_heap \<times> MultiError" where
  "ex_multi = add_errors (\<lambda>c. 2 * c) ex_heap NewMultiError (replicate 6 (Some (Base ''a'')))"

theorem MultiError_not_immutable_witness:
  "\<exists>h e x z w h1 e1 h2 f1 h3 e2 h4 f2. ex_multi = (h, e) \<and>
     MultiError_Add (\<lambda>c. 2 * c) h e x = (h1, e1) \<and> MultiError_Add (\<lambda>c. 2 * c) h1 e1 z = (h2, f1) \<and>
     MultiError_Add (\<lambda>c. 2 * c) h2 e (Some (MultiErrorVal f1)) = (h3, e2) \<and>
     MultiError_Add (\<lambda>c. 2 * c) h3 e2 w = (h4, f2) \<and>
     (\<forall>d t. Error d h4 (Some (MultiErrorVal f1)) \<noteq> Ret t)"
proof -
  let ?b = "Some (Base ''b'')"
  obtain h e where m: "ex_multi = (h, e)" by force
  obtain h1 e1 where a1: "MultiError_Add (\<lambda>c. 2 * c) h e ?b = (h1, e1)" by force
  obtain h2 f1 where a2: "MultiError_Add (\<lambda>c. 2 * c) h1 e1 ?b = (h2, f1)" by force
  obtain h3 e2 where a3: "MultiError_Add (\<lambda>c. 2 * c) h2 e (Some (MultiErrorVal f1)) = (h3, e2)" by force
  obtain h4 f2 where a4: "MultiError_Add (\<lambda>c. 2 * c) h3 e2 ?b = (h4, f2)" by force
  have wf: "MultiError_wf h e"
    using add_errors_list [OF NewMultiError_wf(1)] m unfolding ex_multi_def by blast
  have e: "me_err e \<noteq> None" "slen (me_errors e) + 2 \<le> scap (me_errors e)"
    using m [symmetric]
    by (simp_all add: ex_multi_def numeral_eq_Suc MultiError_Add_def NewMultiError_def nil_slice_def
        append_error_def ex_heap_def Let_def)
  from MultiError_not_immutable [OF wf e _ _ _ a1 a2 a3 a4]
  have "\<forall>d t. Error d h4 (Some (MultiErrorVal f1)) \<noteq> Ret t" by simp
  with m a1 a2 a3 a4 show ?thesis by blast
qed

end
