(* ===== verification/Float64.thy ===== *)
theory Float64
  imports Complex_Main Prelude
begin

text \<open>
  Go's \<^verbatim>\<open>float64\<close> on the operations the program uses: rounding to nearest, ties to even, at 53 bits
  (with the exponent bounded below by that of the subnormal numbers), multiplication, division and
  comparison, the conversion of integers and the truncating conversion to integers.  A finite
  number is its rational value; the sign of zero is not kept, no modelled code depends on it.
\<close>

datatype float64 = Fin rat | PInf | NInf | NaN

section \<open>Rounding\<close>

function int_log2 :: "int \<Rightarrow> int" where
  "int_log2 n = (if n < 2 then 0 else 1 + int_log2 (n div 2))"
  by auto
termination
  by (relation "measure nat") auto

declare int_log2.simps [simp del]

text \<open>The exponent of a positive rational: the \<open>e\<close> with \<open>2 powi e \<le> x < 2 powi (e + 1)\<close>.\<close>

definition ilog2 :: "rat \<Rightarrow> int" where
  "ilog2 x = (case quotient_of x of (p, q) \<Rightarrow>
     let e = int_log2 p - int_log2 q
     in if 2 powi e \<le> x then e else e - 1)"

text \<open>The nearest integer, the even one of two that are equally near.\<close>

definition round_even :: "rat \<Rightarrow> int" where
  "round_even x =
     (let f = \<lfloor>x\<rfloor>; d = x - of_int f
      in if d < 1 / 2 \<or> d = 1 / 2 \<and> even f then f else f + 1)"

definition ulp_exp :: "rat \<Rightarrow> int" where
  "ulp_exp x = max (ilog2 x - 52) (- 1074)"

definition round_pos :: "rat \<Rightarrow> rat" where
  "round_pos x = of_int (round_even (x / 2 powi ulp_exp x)) * 2 powi ulp_exp x"

definition round64 :: "rat \<Rightarrow> float64" where
  "round64 x =
     (if x = 0 then Fin 0
      else if 0 < x then (if 2 ^ 1024 \<le> round_pos x then PInf else Fin (round_pos x))
      else (if 2 ^ 1024 \<le> round_pos (- x) then NInf else Fin (- round_pos (- x))))"

section \<open>Operations\<close>

definition float_of_int :: "int \<Rightarrow> float64" where
  "float_of_int i = round64 (of_int i)"

definition inf_of_sign :: "rat \<Rightarrow> float64" where
  "inf_of_sign s = (if s = 0 then NaN else if 0 < s then PInf else NInf)"

fun float_mul :: "float64 \<Rightarrow> float64 \<Rightarrow> float64" where
  "float_mul (Fin a) (Fin b) = round64 (a * b)"
| "float_mul PInf (Fin b) = inf_of_sign b"
| "float_mul NInf (Fin b) = inf_of_sign (- b)"
| "float_mul (Fin a) PInf = inf_of_sign a"
| "float_mul (Fin a) NInf = inf_of_sign (- a)"
| "float_mul PInf PInf = PInf"
| "float_mul NInf NInf = PInf"
| "float_mul PInf NInf = NInf"
| "float_mul NInf PInf = NInf"
| "float_mul _ _ = NaN"

text \<open>Division of finite numbers; the divisor is never zero in the modelled code.\<close>

fun float_div :: "float64 \<Rightarrow> float64 \<Rightarrow> float64" where
  "float_div (Fin a) (Fin b) = (if b = 0 then inf_of_sign a else round64 (a / b))"
| "float_div (Fin a) NaN = NaN"
| "float_div (Fin a) _ = Fin 0"
| "float_div PInf (Fin b) = (if b < 0 then NInf else PInf)"
| "float_div NInf (Fin b) = (if b < 0 then PInf else NInf)"
| "float_div _ _ = NaN"

fun float_less :: "float64 \<Rightarrow> float64 \<Rightarrow> bool" where
  "float_less (Fin a) (Fin b) \<longleftrightarrow> a < b"
| "float_less (Fin a) PInf \<longleftrightarrow> True"
| "float_less NInf (Fin b) \<longleftrightarrow> True"
| "float_less NInf PInf \<longleftrightarrow> True"
| "float_less _ _ \<longleftrightarrow> False"

fun float_le :: "float64 \<Rightarrow> float64 \<Rightarrow> bool" where
  "float_le (Fin a) (Fin b) \<longleftrightarrow> a \<le> b"
| "float_le (Fin a) PInf \<longleftrightarrow> True"
| "float_le (Fin a) NInf \<longleftrightarrow> False"
| "float_le PInf b \<longleftrightarrow> b = PInf"
| "float_le NInf b \<longleftrightarrow> b \<noteq> NaN"
| "float_le NaN b \<longleftrightarrow> False"
| "float_le (Fin a) NaN \<longleftrightarrow> False"

definition trunc_rat :: "rat \<Rightarrow> int" where
  "trunc_rat x = (if 0 \<le> x then \<lfloor>x\<rfloor> else \<lceil>x\<rceil>)"

text \<open>
  The conversion to a signed integer of \<open>w\<close> bits truncates; when the value does not fit, Go leaves the
  result to the implementation, and \<open>indef\<close> is that result.
\<close>

definition float_to_signed :: "nat \<Rightarrow> int \<Rightarrow> float64 \<Rightarrow> int" where
  "float_to_signed w indef x =
     (case x of Fin r \<Rightarrow> (if fits_s w (trunc_rat r) then trunc_rat r else indef) | _ \<Rightarrow> indef)"

definition float_to_unsigned :: "nat \<Rightarrow> nat \<Rightarrow> float64 \<Rightarrow> nat" where
  "float_to_unsigned w indef x =
     (case x of Fin r \<Rightarrow> (if 0 \<le> trunc_rat r \<and> trunc_rat r < 2 ^ w then nat (trunc_rat r) else indef) | _ \<Rightarrow> indef)"

section \<open>Exponents\<close>

lemma int_log2_bounds:
  "0 < n \<Longrightarrow> 0 \<le> int_log2 n \<and> 2 ^ nat (int_log2 n) \<le> n \<and> n < 2 ^ (nat (int_log2 n) + 1)"
proof (induction n rule: int_log2.induct)
  case (1 n)
  show ?case
  proof (cases "n < 2")
    case True
    with 1(2) show ?thesis by (simp add: int_log2.simps [of n])
  next
    case False
    with 1(1) have "0 \<le> int_log2 (n div 2)" "2 ^ nat (int_log2 (n div 2)) \<le> n div 2"
      "n div 2 < 2 * 2 ^ nat (int_log2 (n div 2))" by auto
    with False show ?thesis by (simp add: int_log2.simps [of n] nat_add_distrib) linarith
  qed
qed

lemma ilog2_bounds:
  assumes "0 < x"
  shows "2 powi ilog2 x \<le> x" and "x < 2 powi (ilog2 x + 1)"
proof -
  obtain p q where pq: "quotient_of x = (p, q)" by force
  have q: "0 < q" using quotient_of_denom_pos [OF pq] .
  have x: "x = of_int p / of_int q" using quotient_of_div [OF pq] .
  then have p: "0 < p" using assms q by (simp add: zero_less_divide_iff)
  define a b where "a = nat (int_log2 p)" and "b = nat (int_log2 q)"
  have "(2::int) ^ a \<le> p" "p < 2 ^ (a + 1)" "2 ^ b \<le> q" "q < 2 ^ (b + 1)"
    and ab: "int a = int_log2 p" "int b = int_log2 q"
    using int_log2_bounds [of p] int_log2_bounds [of q] p q by (simp_all add: a_def b_def)
  then have "rat_of_int (2 ^ a) \<le> of_int p" "of_int p < rat_of_int (2 ^ (a + 1))"
    "rat_of_int (2 ^ b) \<le> of_int q" "of_int q < rat_of_int (2 ^ (b + 1))"
    by (simp_all only: of_int_le_iff of_int_less_iff)
  then have b4: "2 ^ a \<le> rat_of_int p" "rat_of_int p < 2 * 2 ^ a" "2 ^ b \<le> rat_of_int q" "rat_of_int q < 2 * 2 ^ b"
    by simp_all
  have e: "2 powi (int a - int b) = (2 ^ a / 2 ^ b :: rat)" by (simp add: power_int_diff)
  have "(2::rat) ^ a / 2 ^ b / 2 \<le> x"
  proof -
    have "2 ^ a * rat_of_int q \<le> of_int p * (2 * 2 ^ b)"
      using b4 p q by (intro mult_mono) simp_all
    then show ?thesis using q by (simp add: x field_simps)
  qed
  moreover have "x < 2 * (2 ^ a / 2 ^ b)"
  proof -
    have "rat_of_int p * 2 ^ b < (2 * 2 ^ a) * of_int q"
      using b4 p q by (intro mult_less_le_imp_less) simp_all
    then show ?thesis using q by (simp add: x field_simps)
  qed
  moreover define c where "c = int a - int b"
  ultimately have c: "2 powi (c - 1) \<le> x" "x < 2 powi (c + 1)"
    by (simp_all add: power_int_add power_int_diff mult.commute)
  have l: "ilog2 x = (if 2 powi c \<le> x then c else c - 1)"
    by (simp add: ilog2_def pq ab c_def Let_def)
  show "2 powi ilog2 x \<le> x" "x < 2 powi (ilog2 x + 1)"
    using c by (simp_all only: l split: if_split) simp_all
qed

section \<open>Rounding lemmas\<close>

lemma round_even_le: "x \<le> of_int m \<Longrightarrow> round_even x \<le> m"
proof -
  assume a: "x \<le> of_int m"
  show ?thesis
  proof (cases "\<lfloor>x\<rfloor> < m")
    case False
    with a have "x = of_int m" by linarith
    then show ?thesis by (simp add: round_even_def)
  qed (simp add: round_even_def Let_def)
qed

lemma round_even_ge: "of_int m \<le> x \<Longrightarrow> m \<le> round_even x"
  using le_floor_iff [of m x] by (simp add: round_even_def Let_def)

text \<open>
  A number \<open>m * 2 powi k\<close> with at most 53 significant bits bounds the rounded value on the side on
  which it bounds the number itself.
\<close>

lemma representable_scaled:
  assumes "2 powi e * 2 ^ 52 \<le> (of_nat m * 2 powi k :: rat)" and "m < 2 ^ 53"
  shows "\<exists>i. (of_nat m * 2 powi k :: rat) = of_int i * 2 powi e"
proof -
  have m: "rat_of_nat m < 2 ^ 53" using assms(2) of_nat_less_iff [of m "2 ^ 53", where 'a = rat] by simp
  have "rat_of_nat m * 2 powi k < 2 ^ 53 * 2 powi k"
    using m by (intro mult_strict_right_mono) simp_all
  with assms(1) have "(2::rat) powi e * 2 ^ 52 < 2 ^ 53 * 2 powi k" by linarith
  then have "(2::rat) powi e < 2 powi (k + 1)" by (simp add: power_int_add)
  then have "e < k + 1" by (rule contrapos_pp) (simp add: not_less power_int_increasing)
  then have "k = int (nat (k - e)) + e" by simp
  then have "(2::rat) powi k = 2 ^ nat (k - e) * 2 powi e"
    by (metis power_int_add power_int_of_nat zero_neq_numeral)
  then have "of_nat m * 2 powi k = of_int (int m * 2 ^ nat (k - e)) * (2::rat) powi e" by simp
  then show ?thesis by blast
qed

lemma round_pos_subnormal_or:
  assumes "0 < x"
  shows "ulp_exp x = - 1074 \<or> 2 powi ulp_exp x * 2 ^ 52 \<le> x"
  using ilog2_bounds(1) [OF assms]
  by (auto simp: ulp_exp_def max_def power_int_diff)

lemma round_pos_ge:
  assumes "0 < x" and "of_nat m * 2 powi k \<le> x" and "m < 2 ^ 53" and "- 1074 \<le> k"
  shows "of_nat m * 2 powi k \<le> round_pos x"
proof -
  define e where "e = ulp_exp x"
  have pos: "(0::rat) < 2 powi e" by simp
  have step: "of_int i * 2 powi e \<le> round_pos x" if "of_int i * 2 powi e \<le> x" for i
  proof -
    have "of_int i \<le> x / 2 powi e" using that pos by (simp add: le_divide_eq)
    from round_even_ge [OF this] show ?thesis using pos
      by (simp add: round_pos_def e_def mult_right_mono)
  qed
  show ?thesis
  proof (cases "2 powi e * 2 ^ 52 \<le> (of_nat m * 2 powi k :: rat)")
    case True
    from representable_scaled [OF this assms(3)] step assms(2) show ?thesis by auto
  next
    case False
    from round_pos_subnormal_or [OF assms(1)] show ?thesis
    proof
      assume "2 powi ulp_exp x * 2 ^ 52 \<le> x"
      then have "of_int (2 ^ 52) * 2 powi e \<le> round_pos x"
        by (intro step) (simp add: e_def mult.commute)
      with False show ?thesis by (simp add: mult.commute)
    next
      assume "ulp_exp x = - 1074"
      with assms(4) have "k = int (nat (k - e)) + e" by (simp add: e_def)
      then have "(2::rat) powi k = 2 ^ nat (k - e) * 2 powi e"
        by (metis power_int_add power_int_of_nat zero_neq_numeral)
      with step [of "int m * 2 ^ nat (k - e)"] assms(2) show ?thesis by simp
    qed
  qed
qed

lemma round_pos_le:
  assumes "0 < x" and "x \<le> of_nat m * 2 powi k" and "m < 2 ^ 53" and "- 1074 \<le> k"
  shows "round_pos x \<le> of_nat m * 2 powi k"
proof -
  define e where "e = ulp_exp x"
  have pos: "(0::rat) < 2 powi e" by simp
  have step: "round_pos x \<le> of_int i * 2 powi e" if "x \<le> of_int i * 2 powi e" for i
  proof -
    have "x / 2 powi e \<le> of_int i" using that pos by (simp add: divide_le_eq)
    from round_even_le [OF this] show ?thesis using pos
      by (simp add: round_pos_def e_def mult_right_mono)
  qed
  have "\<exists>i. (of_nat m * 2 powi k :: rat) = of_int i * 2 powi e"
    using round_pos_subnormal_or [OF assms(1)]
  proof
    assume "2 powi ulp_exp x * 2 ^ 52 \<le> x"
    with assms(2) have "2 powi e * 2 ^ 52 \<le> (of_nat m * 2 powi k :: rat)" by (simp add: e_def)
    then show ?thesis by (rule representable_scaled) (rule assms(3))
  next
    assume "ulp_exp x = - 1074"
    with assms(4) have "k = int (nat (k - e)) + e" by (simp add: e_def)
    then have "(2::rat) powi k = 2 ^ nat (k - e) * 2 powi e"
      by (metis power_int_add power_int_of_nat zero_neq_numeral)
    then have "of_nat m * 2 powi k = of_int (int m * 2 ^ nat (k - e)) * (2::rat) powi e" by simp
    then show ?thesis by blast
  qed
  with step assms(2) show ?thesis by auto
qed

lemma round_pos_exact:
  assumes "0 < x" and "x = of_nat m * 2 powi k" and "m < 2 ^ 53" and "- 1074 \<le> k"
  shows "round_pos x = x"
  using round_pos_ge [OF assms(1) _ assms(3,4)] round_pos_le [OF assms(1) _ assms(3,4)] assms(2)
  by (simp add: order_antisym)

text \<open>Rounding between two representable bounds; the form the clients use.\<close>

lemma round64_between:
  assumes "0 < x" and "of_nat m * 2 powi k \<le> x" and "m < 2 ^ 53" and "- 1074 \<le> k"
    and "x \<le> of_nat m' * 2 powi k'" and "m' < 2 ^ 53" and "- 1074 \<le> k'"
    and "of_nat m' * 2 powi k' < (2 ^ 1024 :: rat)"
  shows "\<exists>r. round64 x = Fin r \<and> of_nat m * 2 powi k \<le> r \<and> r \<le> of_nat m' * 2 powi k'"
  using round_pos_ge [OF assms(1-4)] round_pos_le [OF assms(1) assms(5-7)] assms(1,8)
  by (simp add: round64_def)

lemma float_of_int_exact:
  assumes "0 \<le> i" and "i < 2 ^ 53"
  shows "float_of_int i = Fin (of_int i)"
proof (cases "i = 0")
  case False
  then have x: "0 < rat_of_int i" "rat_of_int i = of_nat (nat i) * 2 powi 0" "nat i < 2 ^ 53"
    using assms by (auto simp: nat_less_iff)
  have "rat_of_int i < of_int (2 ^ 53)" using assms(2) by (simp only: of_int_less_iff)
  also have "\<dots> < 2 ^ 1024" by simp
  finally have "rat_of_int i < 2 ^ 1024" .
  then show ?thesis
    using round_pos_exact [OF x(1,2,3)] x(1) by (simp add: float_of_int_def round64_def)
qed (simp add: float_of_int_def round64_def)

end
