(* ===== verification/Jump.thy ===== *)
theory Jump
  imports Float64
begin

text \<open>
  The package \<^verbatim>\<open>hash/jump\<close>: the consistent hash of Lamping and Veach.  The key is a 64-bit word, the
  bucket numbers are \<^verbatim>\<open>int64\<close>, the jump is computed in \<^verbatim>\<open>float64\<close> with the rounding of \<^verbatim>\<open>Float64\<close>;
  \<open>indef\<close> is the value of the conversion to \<^verbatim>\<open>int64\<close> when it overflows.
\<close>

definition next_key :: "64 word \<Rightarrow> 64 word" where
  "next_key key = key * 2862933555777941757 + 1"

definition jump_to :: "int \<Rightarrow> 64 word \<Rightarrow> int \<Rightarrow> int" where
  "jump_to indef key b =
     float_to_signed 64 indef
       (float_mul (float_of_int (wrap64 (b + 1)))
         (float_div (float_of_int (2 ^ 31)) (float_of_int (uint (drop_bit 33 key + 1)))))"

text \<open>The loop; it has no bound of its own, so not returning is \<^const>\<open>None\<close>.\<close>

partial_function (option) hash_loop :: "int \<Rightarrow> 64 word \<Rightarrow> int \<Rightarrow> int \<Rightarrow> int \<Rightarrow> int option" where
  "hash_loop indef key numBuckets b j =
     (if j < numBuckets then
        (let b' = j; key' = next_key key
         in hash_loop indef key' numBuckets b' (jump_to indef key' b'))
      else Some b)"

declare hash_loop.simps [code]

definition Hash :: "int \<Rightarrow> 64 word \<Rightarrow> int \<Rightarrow> int option" where
  "Hash indef key numBuckets =
     (if numBuckets < 0 then Some (- 1) else hash_loop indef key numBuckets 0 0)"

section \<open>The jump moves forward\<close>

lemma shifted_key_bound: "0 \<le> uint (drop_bit 33 (key :: 64 word) + 1) - 1 \<and> uint (drop_bit 33 key + 1) \<le> 2 ^ 31"
proof -
  have "uint key < 2 ^ 64" using uint_lt2p [of key] by simp
  then have u: "uint (drop_bit 33 key) < 2 ^ 31"
    unfolding unsigned_drop_bit_eq by (simp add: drop_bit_eq_div take_bit_int_eq_self)
  have "uint (drop_bit 33 key + 1) = uint (drop_bit 33 key) + 1"
    using u by (simp add: uint_word_ariths mod_pos_pos_trivial)
  with u show ?thesis by simp
qed

lemma jump_ratio:
  "\<exists>r. float_div (float_of_int (2 ^ 31)) (float_of_int (uint (drop_bit 33 (key :: 64 word) + 1))) = Fin r \<and>
     1 \<le> r \<and> r \<le> 2 ^ 31"
proof -
  define d where "d = uint (drop_bit 33 key + 1)"
  have d: "1 \<le> d" "d \<le> 2 ^ 31" using shifted_key_bound [of key] by (simp_all add: d_def)
  then have rd: "1 \<le> rat_of_int d" "rat_of_int d \<le> 2 ^ 31"
    using of_int_le_iff [of d "2 ^ 31", where 'a = rat] by simp_all
  have f: "float_of_int d = Fin (of_int d)" "float_of_int (2 ^ 31) = Fin (2 ^ 31)"
    using float_of_int_exact [of d] float_of_int_exact [of "2 ^ 31"] d by simp_all
  have "\<exists>r. round64 (2 ^ 31 / of_int d) = Fin r \<and> of_nat 1 * 2 powi 0 \<le> r \<and> r \<le> of_nat 1 * 2 powi 31"
    using rd by (intro round64_between) (simp_all add: le_divide_eq divide_le_eq)
  with rd f show ?thesis by (auto simp: d_def)
qed

lemma jump_to_bounds:
  assumes "0 \<le> b" and "b + 1 < 2 ^ 32"
  shows "b + 1 \<le> jump_to indef key b \<and> jump_to indef key b \<le> (b + 1) * 2 ^ 31"
proof -
  obtain r where r: "float_div (float_of_int (2 ^ 31)) (float_of_int (uint (drop_bit 33 key + 1))) = Fin r"
    and b1: "1 \<le> r" "r \<le> 2 ^ 31" using jump_ratio by blast
  have i: "float_of_int (wrap64 (b + 1)) = Fin (of_int (b + 1))"
    using assms float_of_int_exact [of "b + 1"] by (simp add: wrap64_id int64_ok_iff)
  let ?x = "rat_of_int (b + 1) * r"
  have pos: "1 \<le> rat_of_int (b + 1)" using assms by simp
  have lo: "rat_of_int (b + 1) \<le> ?x" using pos b1 mult_left_mono [of 1 r "rat_of_int (b + 1)"] by simp
  have hi: "?x \<le> rat_of_int (b + 1) * 2 ^ 31" using pos b1 by (intro mult_left_mono) simp_all
  have n: "rat_of_nat (nat (b + 1)) = of_int (b + 1)" "nat (b + 1) < 2 ^ 53"
    using assms by (simp_all add: nat_less_iff)
  have "rat_of_int (b + 1) * 2 ^ 31 < of_int (2 ^ 32) * 2 ^ 31"
    using assms of_int_less_iff [of "b + 1" "2 ^ 32", where 'a = rat]
    by (intro mult_strict_right_mono) (simp_all del: of_int_add)
  also have "\<dots> < 2 ^ 1024" by simp
  finally have "rat_of_int (b + 1) * 2 ^ 31 < 2 ^ 1024" .
  then have "\<exists>v. round64 ?x = Fin v \<and> of_nat (nat (b + 1)) * 2 powi 0 \<le> v \<and> v \<le> of_nat (nat (b + 1)) * 2 powi 31"
    using pos lo hi n by (intro round64_between) (simp_all del: of_int_add)
  then obtain v where v: "round64 ?x = Fin v" "of_int (b + 1) \<le> v" "v \<le> of_int ((b + 1) * 2 ^ 31)"
    using n(1) by auto
  have t: "b + 1 \<le> \<lfloor>v\<rfloor>" "\<lfloor>v\<rfloor> \<le> (b + 1) * 2 ^ 31"
    using v(2) floor_mono [OF v(3)] by (simp_all only: le_floor_iff floor_of_int)
  moreover have "trunc_rat v = \<lfloor>v\<rfloor>" using v(2) pos by (simp add: trunc_rat_def)
  moreover have "fits_s 64 i" if "b + 1 \<le> i" "i \<le> (b + 1) * 2 ^ 31" for i
    using that assms by (simp add: int64_ok_iff)
  ultimately show ?thesis using r i v(1) by (simp add: jump_to_def float_to_signed_def)
qed

section \<open>The loop\<close>

lemma hash_loop_stop: "\<not> j < n \<Longrightarrow> hash_loop indef key n b j = Some b"
  by (simp add: hash_loop.simps)

lemma hash_loop_step:
  "j < n \<Longrightarrow> hash_loop indef key n b j = hash_loop indef (next_key key) n j (jump_to indef (next_key key) j)"
  by (simp add: hash_loop.simps [of _ _ _ b] Let_def)

lemma hash_loop_returns:
  "0 \<le> j \<Longrightarrow> n < 2 ^ 32 \<Longrightarrow>
   \<exists>r. hash_loop indef key n b j = Some r \<and> (if j < n then j \<le> r \<and> r < n else r = b)"
proof (induction "nat (n - j)" arbitrary: j b key rule: less_induct)
  case less
  show ?case
  proof (cases "j < n")
    case True
    let ?j = "jump_to indef (next_key key) j"
    have f: "j + 1 \<le> ?j" using jump_to_bounds [of j] less.prems True by simp
    have "nat (n - ?j) < nat (n - j)" "0 \<le> ?j" using f True less.prems(1) by auto
    from less.hyps [OF this less.prems(2), of "next_key key" j]
    obtain r where "hash_loop indef (next_key key) n j ?j = Some r"
      "if ?j < n then ?j \<le> r \<and> r < n else r = j" by blast
    with True f show ?thesis by (auto simp: hash_loop_step split: if_splits)
  qed (simp add: hash_loop_stop)
qed

lemma hash_loop_consistent:
  "0 \<le> j \<Longrightarrow> n + 1 < 2 ^ 32 \<Longrightarrow>
   hash_loop indef key (n + 1) b j \<in> {hash_loop indef key n b j, Some n}"
proof (induction "nat (n - j)" arbitrary: j b key rule: less_induct)
  case less
  let ?j = "jump_to indef (next_key key) j"
  have f: "j + 1 \<le> ?j" if "j < n + 1" using jump_to_bounds [of j] less.prems that by simp
  consider "j < n" | "j = n" | "n < j" by linarith
  then show ?case
  proof cases
    case 1
    with f have "nat (n - ?j) < nat (n - j)" "0 \<le> ?j" using less.prems(1) by auto
    from less.hyps [OF this less.prems(2), of "next_key key" j] 1 show ?thesis
      by (simp add: hash_loop_step)
  next
    case 2
    with f have "\<not> ?j < n + 1" by simp
    with 2 show ?thesis by (simp add: hash_loop_step hash_loop_stop)
  qed (simp add: hash_loop_stop)
qed

section \<open>Properties\<close>

text \<open>
  C17: \<^verbatim>\<open>Hash\<close> returns for every key and every number of buckets below \<open>2 ^ 32\<close>, and the result is a bucket;
  in that range the conversion of the jump to \<^verbatim>\<open>int64\<close> never overflows (\<open>indef\<close> is arbitrary).  For a
  negative number of buckets it is -1, and for zero buckets it is 0, which is not a bucket.
\<close>

theorem Hash_in_range:
  assumes "numBuckets < 2 ^ 32"
  shows "\<exists>b. Hash indef key numBuckets = Some b \<and>
    (if numBuckets < 0 then b = - 1 else if numBuckets = 0 then b = 0 else 0 \<le> b \<and> b < numBuckets)"
  using hash_loop_returns [of 0 numBuckets indef key 0] assms
  by (auto simp: Hash_def split: if_splits)

theorem Hash_in_range_witness:
  "\<exists>b. Hash 0 42 4294967295 = Some b \<and> 0 \<le> b \<and> b < 4294967295"
  using Hash_in_range [of 4294967295 0 42] by simp

text \<open>
  C16: the hash is consistent.  When a bucket is added, a key either stays in its bucket or moves to the
  new one, number \<open>n\<close>; by induction, when the number of buckets grows from \<open>n\<close> to \<open>m\<close>, a key that moves
  goes to one of the new buckets.
\<close>

theorem Hash_consistent:
  assumes "1 \<le> n" and "n \<le> m" and "m < 2 ^ 32"
  shows "Hash indef key m = Hash indef key n \<or> (\<exists>b. Hash indef key m = Some b \<and> n \<le> b \<and> b < m)"
  using assms(2,3)
proof (induction m rule: int_ge_induct)
  case (step i)
  have "hash_loop indef key (i + 1) 0 0 \<in> {hash_loop indef key i 0 0, Some i}"
    using step.prems by (intro hash_loop_consistent) simp_all
  with step assms(1) show ?case by (auto simp: Hash_def)
qed simp

theorem Hash_consistent_witness:
  "Hash 0 7 1000 = Hash 0 7 10 \<or> (\<exists>b. Hash 0 7 1000 = Some b \<and> 10 \<le> b \<and> b < 1000)"
  using Hash_consistent [of 10 1000 0 7] by simp

text \<open>The conversion does overflow beyond that range: from bucket \<open>2 ^ 32 - 1\<close>, a key whose upper half is
  zero jumps to \<open>2 ^ 63\<close>.\<close>

lemma jump_to_overflow: "jump_to indef 0 (2 ^ 32 - 1) = indef"
proof -
  have "float_of_int (2 ^ 31) = Fin (2 ^ 31)" "float_of_int (2 ^ 32) = Fin (2 ^ 32)" "float_of_int 1 = Fin 1"
    using float_of_int_exact [of "2 ^ 31"] float_of_int_exact [of "2 ^ 32"] float_of_int_exact [of 1] by simp_all
  moreover have "round64 (2 ^ 31) = Fin (2 ^ 31)"
    using round_pos_exact [of "2 ^ 31" 1 31] by (simp add: round64_def)
  moreover have "round64 (2 ^ 63) = Fin (2 ^ 63)"
    using round_pos_exact [of "2 ^ 63" 1 63] by (simp add: round64_def)
  ultimately show ?thesis
    by (simp add: jump_to_def wrap64_id int64_ok_iff float_to_signed_def trunc_rat_def fits_s_def)
qed

end
