(* ===== verification/Retry.thy ===== *)
theory Retry
  imports Errors Float64
begin

text \<open>
  The package \<^verbatim>\<open>retry\<close>: the options, the configuration, the backoff and the retry loop.

  The functions a caller passes (the function to retry, the condition to go on, the random number
  generator) and the clock act on a state \<open>'s\<close> of the caller's choice and are threaded through the loop.
  The run also records what the loop does: the results of the function in the order of the calls, the
  durations it slept and the metrics.  \<^verbatim>\<open>math.Pow\<close> is the parameter \<open>pow\<close> and \<open>indef\<close> is the result of a
  conversion from \<^verbatim>\<open>float64\<close> to \<^verbatim>\<open>int64\<close> that overflows.
\<close>

section \<open>Options and configuration\<close>

type_synonym 's rng_fn = "int \<Rightarrow> 's \<Rightarrow> int \<times> 's"

record ('c, 's) retry_options =
  o_scope :: 'c
  o_initialBackoff :: int
  o_backoffFactor :: float64
  o_maxBackoff :: int
  o_maxRetries :: int
  o_forever :: bool
  o_jitter :: bool
  o_rngFn :: "'s rng_fn"

definition defaultInitialBackoff :: int where "defaultInitialBackoff = 1000000000"
definition defaultBackoffFactor :: float64 where "defaultBackoffFactor = Fin 2"
definition defaultMaxBackoff :: int where "defaultMaxBackoff = 2 ^ 63 - 1"
definition defaultMaxRetries :: int where "defaultMaxRetries = 2"
definition defaultForever :: bool where "defaultForever = False"
definition defaultJitter :: bool where "defaultJitter = True"

text \<open>\<open>noop\<close> is \<^verbatim>\<open>tally.NoopScope\<close>, \<open>int63n\<close> is \<^verbatim>\<open>rand.Int63n\<close>.\<close>

definition retry_NewOptions :: "'c \<Rightarrow> 's rng_fn \<Rightarrow> ('c, 's) retry_options" where
  "retry_NewOptions noop int63n =
     \<lparr>o_scope = noop, o_initialBackoff = defaultInitialBackoff, o_backoffFactor = defaultBackoffFactor,
      o_maxBackoff = defaultMaxBackoff, o_maxRetries = defaultMaxRetries, o_forever = defaultForever,
      o_jitter = defaultJitter, o_rngFn = int63n\<rparr>"

definition retry_SetMetricsScope :: "('c, 's) retry_options \<Rightarrow> 'c \<Rightarrow> ('c, 's) retry_options" where
  [opt_field]: "retry_SetMetricsScope opts value = opts\<lparr>o_scope := value\<rparr>"

definition retry_MetricsScope :: "('c, 's) retry_options \<Rightarrow> 'c" where
  [opt_field]: "retry_MetricsScope opts = o_scope opts"

definition retry_SetInitialBackoff :: "('c, 's) retry_options \<Rightarrow> int \<Rightarrow> ('c, 's) retry_options" where
  [opt_field]: "retry_SetInitialBackoff opts value = opts\<lparr>o_initialBackoff := value\<rparr>"

definition retry_InitialBackoff :: "('c, 's) retry_options \<Rightarrow> int" where
  [opt_field]: "retry_InitialBackoff opts = o_initialBackoff opts"

definition retry_SetBackoffFactor :: "('c, 's) retry_options \<Rightarrow> float64 \<Rightarrow> ('c, 's) retry_options" where
  [opt_field]: "retry_SetBackoffFactor opts value = opts\<lparr>o_backoffFactor := value\<rparr>"

definition retry_BackoffFactor :: "('c, 's) retry_options \<Rightarrow> float64" where
  [opt_field]: "retry_BackoffFactor opts = o_backoffFactor opts"

definition retry_SetMaxBackoff :: "('c, 's) retry_options \<Rightarrow> int \<Rightarrow> ('c, 's) retry_options" where
  [opt_field]: "retry_SetMaxBackoff opts value = opts\<lparr>o_maxBackoff := value\<rparr>"

definition retry_MaxBackoff :: "('c, 's) retry_options \<Rightarrow> int" where
  [opt_field]: "retry_MaxBackoff opts = o_maxBackoff opts"

definition retry_SetMaxRetries :: "('c, 's) retry_options \<Rightarrow> int \<Rightarrow> ('c, 's) retry_options" where
  [opt_field]: "retry_SetMaxRetries opts value = opts\<lparr>o_maxRetries := value\<rparr>"

definition retry_MaxRetries :: "('c, 's) retry_options \<Rightarrow> int" where
  [opt_field]: "retry_MaxRetries opts = o_maxRetries opts"

definition retry_SetForever :: "('c, 's) retry_options \<Rightarrow> bool \<Rightarrow> ('c, 's) retry_options" where
  [opt_field]: "retry_SetForever opts value = opts\<lparr>o_forever := value\<rparr>"

definition retry_Forever :: "('c, 's) retry_options \<Rightarrow> bool" where
  [opt_field]: "retry_Forever opts = o_forever opts"

definition retry_SetJitter :: "('c, 's) retry_options \<Rightarrow> bool \<Rightarrow> ('c, 's) retry_options" where
  [opt_field]: "retry_SetJitter opts value = opts\<lparr>o_jitter := value\<rparr>"

definition retry_Jitter :: "('c, 's) retry_options \<Rightarrow> bool" where
  [opt_field]: "retry_Jitter opts = o_jitter opts"

definition retry_SetRngFn :: "('c, 's) retry_options \<Rightarrow> 's rng_fn \<Rightarrow> ('c, 's) retry_options" where
  [opt_field]: "retry_SetRngFn opts value = opts\<lparr>o_rngFn := value\<rparr>"

definition retry_RngFn :: "('c, 's) retry_options \<Rightarrow> 's rng_fn" where
  [opt_field]: "retry_RngFn opts = o_rngFn opts"

text \<open>A pointer field of the configuration is an option, nil is \<^const>\<open>None\<close>.\<close>

record retry_Configuration =
  c_InitialBackoff :: int
  c_BackoffFactor :: float64
  c_MaxBackoff :: int
  c_MaxRetries :: int
  c_Forever :: "bool option"
  c_Jitter :: "bool option"

text \<open>The comparison \<^verbatim>\<open>!= 0\<close> on \<^verbatim>\<open>float64\<close> holds of every value but zero.\<close>

definition Configuration_NewOptions ::
    "'c \<Rightarrow> 's rng_fn \<Rightarrow> retry_Configuration \<Rightarrow> 'c \<Rightarrow> ('c, 's) retry_options" where
  "Configuration_NewOptions noop int63n c scope =
     (let opts = retry_SetMetricsScope (retry_NewOptions noop int63n) scope;
          opts = (if c_InitialBackoff c \<noteq> 0 then retry_SetInitialBackoff opts (c_InitialBackoff c) else opts);
          opts = (if c_BackoffFactor c \<noteq> Fin 0 then retry_SetBackoffFactor opts (c_BackoffFactor c) else opts);
          opts = (if c_MaxBackoff c \<noteq> 0 then retry_SetMaxBackoff opts (c_MaxBackoff c) else opts);
          opts = (if c_MaxRetries c \<noteq> 0 then retry_SetMaxRetries opts (c_MaxRetries c) else opts);
          opts = (case c_Forever c of Some v \<Rightarrow> retry_SetForever opts v | None \<Rightarrow> opts)
      in (case c_Jitter c of Some v \<Rightarrow> retry_SetJitter opts v | None \<Rightarrow> opts))"

section \<open>The retrier\<close>

record 's retrier =
  initialBackoff :: int
  backoffFactor :: float64
  maxBackoff :: int
  maxRetries :: int
  forever :: bool
  jitter :: bool
  rngFn :: "'s rng_fn"

text \<open>Counters as numbers, timers as the list of recorded durations.\<close>

record retrierMetrics =
  success :: nat
  successLatency :: "int list"
  errors :: nat
  errorsNotRetryable :: nat
  errorsFinal :: nat
  errorsLatency :: "int list"
  retries :: nat

definition zero_metrics :: retrierMetrics where
  "zero_metrics = \<lparr>success = 0, successLatency = [], errors = 0, errorsNotRetryable = 0, errorsFinal = 0,
     errorsLatency = [], retries = 0\<rparr>"

definition NewRetrier :: "('c, 's) retry_options \<Rightarrow> 's retrier" where
  "NewRetrier opts =
     \<lparr>initialBackoff = retry_InitialBackoff opts, backoffFactor = retry_BackoffFactor opts,
      maxBackoff = retry_MaxBackoff opts, maxRetries = retry_MaxRetries opts,
      forever = retry_Forever opts, jitter = retry_Jitter opts, rngFn = retry_RngFn opts\<rparr>"

definition Configuration_NewRetrier ::
    "'c \<Rightarrow> 's rng_fn \<Rightarrow> retry_Configuration \<Rightarrow> 'c \<Rightarrow> 's retrier" where
  "Configuration_NewRetrier noop int63n c scope = NewRetrier (Configuration_NewOptions noop int63n c scope)"

definition RetryableError :: "err option \<Rightarrow> err" where
  "RetryableError err = NewRetryableError err"

definition NonRetryableError :: "err option \<Rightarrow> err" where
  "NonRetryableError err = NewNonRetryableError err"

definition ErrWhileConditionFalse :: err where
  "ErrWhileConditionFalse = Base ''retry while condition evaluated to false''"

text \<open>What the caller supplies, and the state of a run.\<close>

record 's retry_env =
  fn :: "'s \<Rightarrow> err option \<times> 's"
  continueFn :: "(int \<Rightarrow> 's \<Rightarrow> bool \<times> 's) option"
  now :: "'s \<Rightarrow> int \<times> 's"

record 's run =
  env :: 's
  calls :: "err option list"
  sleeps :: "int list"
  metrics :: retrierMetrics

text \<open>The constant \<^verbatim>\<open>math.MaxInt64\<close> becomes \<open>2 ^ 63\<close> when it is converted to \<^verbatim>\<open>float64\<close>.\<close>

definition BackoffNanos ::
    "(float64 \<Rightarrow> float64 \<Rightarrow> float64) \<Rightarrow> int \<Rightarrow> int \<Rightarrow> bool \<Rightarrow> float64 \<Rightarrow> int \<Rightarrow> int \<Rightarrow> 's rng_fn \<Rightarrow> 's \<Rightarrow> int \<times> 's" where
  "BackoffNanos pow indef retry jit factor initial maxb rng s =
     (let backoff = initial;
          f = float_mul (float_of_int backoff) (pow factor (float_of_int (wrap64 (retry - 1)))) in
      if retry \<ge> 1 \<and> float_less (Fin (2 ^ 63)) f then (maxb, s)
      else
        (let backoff = (if retry \<ge> 1 then float_to_signed 64 indef f else backoff);
             (backoff, s) =
               (if jit \<and> backoff \<ge> 2 then
                  (let half = backoff sdiv 2; (x, s) = rng half s in (wrap64 (half + x), s))
                else (backoff, s));
             backoff = (if backoff > maxb then maxb else backoff)
         in (backoff, s)))"

text \<open>The check of the condition; without a condition the loop goes on.\<close>

definition may_continue :: "'s retry_env \<Rightarrow> int \<Rightarrow> 's run \<Rightarrow> bool \<times> 's run" where
  "may_continue e attempt st =
     (case continueFn e of None \<Rightarrow> (True, st)
      | Some c \<Rightarrow> (let (b, s) = c attempt (env st) in (b, st\<lparr>env := s\<rparr>)))"

text \<open>
  One call of the function with the bookkeeping around it; \<open>Inl r\<close> when the loop returns \<open>r\<close>, \<open>Inr err\<close>
  when it may try again.
\<close>

definition call_fn :: "'s retry_env \<Rightarrow> 's run \<Rightarrow> (err option + err option) \<times> 's run" where
  "call_fn e st =
     (let (start, s) = now e (env st);
          (err, s) = fn e s;
          (stop, s) = now e s;
          duration = stop - start;
          st = st\<lparr>env := s, calls := calls st @ [err]\<rparr>;
          m = metrics st
      in if err = None then
           (Inl None, st\<lparr>metrics := m\<lparr>successLatency := successLatency m @ [duration], success := success m + 1\<rparr>\<rparr>)
         else
           (let m = m\<lparr>errorsLatency := errorsLatency m @ [duration]\<rparr> in
            if IsNonRetryableError err then
              (Inl err, st\<lparr>metrics := m\<lparr>errorsNotRetryable := errorsNotRetryable m + 1\<rparr>\<rparr>)
            else (Inr err, st\<lparr>metrics := m\<lparr>errors := errors m + 1\<rparr>\<rparr>)))"

definition sleep_before :: "(float64 \<Rightarrow> float64 \<Rightarrow> float64) \<Rightarrow> int \<Rightarrow> 's retrier \<Rightarrow> int \<Rightarrow> 's run \<Rightarrow> 's run" where
  "sleep_before pow indef r i st =
     (let (d, s) = BackoffNanos pow indef i (jitter r) (backoffFactor r) (initialBackoff r)
                     (maxBackoff r) (rngFn r) (env st)
      in st\<lparr>env := s, sleeps := sleeps st @ [d]\<rparr>)"

text \<open>The loop \<^verbatim>\<open>for i := 1; r.forever || i <= r.maxRetries; i++\<close>; not returning is \<^const>\<open>None\<close>.\<close>

partial_function (option) retry_loop ::
    "(float64 \<Rightarrow> float64 \<Rightarrow> float64) \<Rightarrow> int \<Rightarrow> 's retrier \<Rightarrow> 's retry_env \<Rightarrow> err option \<Rightarrow> int \<Rightarrow> int \<Rightarrow>
     's run \<Rightarrow> (err option \<times> 's run) option" where
  "retry_loop pow indef r e err attempt i st =
     (if forever r \<or> i \<le> maxRetries r then
        (let (go, st) = may_continue e attempt (sleep_before pow indef r i st) in
         if \<not> go then Some (Some ErrWhileConditionFalse, st)
         else
           (let m = metrics st in
            case call_fn e (st\<lparr>metrics := m\<lparr>retries := retries m + 1\<rparr>\<rparr>) of
              (Inl res, st) \<Rightarrow> Some (res, st)
            | (Inr err, st) \<Rightarrow> retry_loop pow indef r e err (wrap64 (attempt + 1)) (wrap64 (i + 1)) st))
      else (let m = metrics st in Some (err, st\<lparr>metrics := m\<lparr>errorsFinal := errorsFinal m + 1\<rparr>\<rparr>)))"

definition attempt ::
    "(float64 \<Rightarrow> float64 \<Rightarrow> float64) \<Rightarrow> int \<Rightarrow> 's retrier \<Rightarrow> 's retry_env \<Rightarrow> 's run \<Rightarrow>
     (err option \<times> 's run) option" where
  "attempt pow indef r e st =
     (let (go, st) = may_continue e 0 st in
      if \<not> go then Some (Some ErrWhileConditionFalse, st)
      else (case call_fn e st of
              (Inl res, st) \<Rightarrow> Some (res, st)
            | (Inr err, st) \<Rightarrow> retry_loop pow indef r e err 1 1 st))"

definition Attempt ::
    "(float64 \<Rightarrow> float64 \<Rightarrow> float64) \<Rightarrow> int \<Rightarrow> 's retrier \<Rightarrow> ('s \<Rightarrow> err option \<times> 's) \<Rightarrow> ('s \<Rightarrow> int \<times> 's) \<Rightarrow>
     's run \<Rightarrow> (err option \<times> 's run) option" where
  "Attempt pow indef r f clock st = attempt pow indef r \<lparr>fn = f, continueFn = None, now = clock\<rparr> st"

definition AttemptWhile ::
    "(float64 \<Rightarrow> float64 \<Rightarrow> float64) \<Rightarrow> int \<Rightarrow> 's retrier \<Rightarrow> (int \<Rightarrow> 's \<Rightarrow> bool \<times> 's) option \<Rightarrow>
     ('s \<Rightarrow> err option \<times> 's) \<Rightarrow> ('s \<Rightarrow> int \<times> 's) \<Rightarrow> 's run \<Rightarrow> (err option \<times> 's run) option" where
  "AttemptWhile pow indef r cont f clock st = attempt pow indef r \<lparr>fn = f, continueFn = cont, now = clock\<rparr> st"

definition new_run :: "'s \<Rightarrow> 's run" where
  "new_run s = \<lparr>env = s, calls = [], sleeps = [], metrics = zero_metrics\<rparr>"

section \<open>The option fields\<close>

interpretation rf_scope: option_field retry_MetricsScope retry_SetMetricsScope
  by unfold_locales (simp_all add: opt_field)

interpretation rf_initial: option_field retry_InitialBackoff retry_SetInitialBackoff
  by unfold_locales (simp_all add: opt_field)

interpretation rf_factor: option_field retry_BackoffFactor retry_SetBackoffFactor
  by unfold_locales (simp_all add: opt_field)

interpretation rf_max: option_field retry_MaxBackoff retry_SetMaxBackoff
  by unfold_locales (simp_all add: opt_field)

interpretation rf_retries: option_field retry_MaxRetries retry_SetMaxRetries
  by unfold_locales (simp_all add: opt_field)

interpretation rf_forever: option_field retry_Forever retry_SetForever
  by unfold_locales (simp_all add: opt_field)

interpretation rf_jitter: option_field retry_Jitter retry_SetJitter
  by unfold_locales (simp_all add: opt_field)

interpretation rf_rng: option_field retry_RngFn retry_SetRngFn
  by unfold_locales (simp_all add: opt_field)

text \<open>The retrier of a configuration: each value that is set, the default otherwise.\<close>

lemma Configuration_NewRetrier_fields:
  "Configuration_NewRetrier noop int63n c scope =
     \<lparr>initialBackoff = (if c_InitialBackoff c = 0 then defaultInitialBackoff else c_InitialBackoff c),
      backoffFactor = (if c_BackoffFactor c = Fin 0 then defaultBackoffFactor else c_BackoffFactor c),
      maxBackoff = (if c_MaxBackoff c = 0 then defaultMaxBackoff else c_MaxBackoff c),
      maxRetries = (if c_MaxRetries c = 0 then defaultMaxRetries else c_MaxRetries c),
      forever = (case c_Forever c of None \<Rightarrow> defaultForever | Some b \<Rightarrow> b),
      jitter = (case c_Jitter c of None \<Rightarrow> defaultJitter | Some b \<Rightarrow> b), rngFn = int63n\<rparr>"
  by (simp add: Configuration_NewRetrier_def NewRetrier_def Configuration_NewOptions_def Let_def
      retry_NewOptions_def opt_field split: option.split)

section \<open>The run\<close>

definition retryable :: "err option \<Rightarrow> bool" where
  "retryable x \<longleftrightarrow> x \<noteq> None \<and> \<not> IsNonRetryableError x"

text \<open>The counters that follow from the results of the calls.\<close>

definition counts_ok :: "'s run \<Rightarrow> bool" where
  "counts_ok st \<longleftrightarrow>
     success (metrics st) = length (filter (\<lambda>x. x = None) (calls st)) \<and>
     errors (metrics st) = length (filter retryable (calls st)) \<and>
     errorsNotRetryable (metrics st) = length (filter IsNonRetryableError (calls st)) \<and>
     length (successLatency (metrics st)) = success (metrics st) \<and>
     length (errorsLatency (metrics st)) = errors (metrics st) + errorsNotRetryable (metrics st)"

lemma IsNonRetryableError_None [simp]: "\<not> IsNonRetryableError None"
  by (simp add: IsNonRetryableError_def GetInnerNonRetryableError.simps)

text \<open>What one call of the function does to the record of the run.\<close>

lemma call_fn_cases:
  assumes "call_fn e st = (x, st')"
  shows "\<exists>err. calls st' = calls st @ [err] \<and> sleeps st' = sleeps st \<and>
    (counts_ok st \<longrightarrow> counts_ok st') \<and> retries (metrics st') = retries (metrics st) \<and>
    errorsFinal (metrics st') = errorsFinal (metrics st) \<and>
    x = (if retryable err then Inr err else Inl err)"
proof -
  obtain start s1 where 1: "now e (env st) = (start, s1)" by force
  obtain err s2 where 2: "fn e s1 = (err, s2)" by force
  obtain stop s3 where 3: "now e s2 = (stop, s3)" by force
  show ?thesis
    using assms 1 2 3
    by (intro exI [of _ err]) (auto simp: call_fn_def Let_def counts_ok_def retryable_def split: if_splits)
qed

lemma may_continue_cases:
  assumes "may_continue e a st = (go, st')"
  shows "calls st' = calls st \<and> sleeps st' = sleeps st \<and> metrics st' = metrics st \<and>
    (\<not> go \<longrightarrow> continueFn e \<noteq> None)"
  using assms by (auto simp: may_continue_def split: option.splits prod.splits)

lemma sleep_before_fields:
  "calls (sleep_before pow indef r i st) = calls st"
  "metrics (sleep_before pow indef r i st) = metrics st"
  "length (sleeps (sleep_before pow indef r i st)) = length (sleeps st) + 1"
  by (simp_all add: sleep_before_def split: prod.split)

text \<open>The body of the loop: the result of the loop, or the error with which it goes round again.\<close>

definition loop_body ::
    "(float64 \<Rightarrow> float64 \<Rightarrow> float64) \<Rightarrow> int \<Rightarrow> 's retrier \<Rightarrow> 's retry_env \<Rightarrow> int \<Rightarrow> int \<Rightarrow> 's run \<Rightarrow>
     (err option + err option) \<times> 's run" where
  "loop_body pow indef r e a i st =
     (let (go, st) = may_continue e a (sleep_before pow indef r i st) in
      if \<not> go then (Inl (Some ErrWhileConditionFalse), st)
      else (let m = metrics st in call_fn e (st\<lparr>metrics := m\<lparr>retries := retries m + 1\<rparr>\<rparr>)))"

lemma retry_loop_unfold:
  "retry_loop pow indef r e err a i st =
     (if forever r \<or> i \<le> maxRetries r then
        (case loop_body pow indef r e a i st of
           (Inl res, st) \<Rightarrow> Some (res, st)
         | (Inr err, st) \<Rightarrow> retry_loop pow indef r e err (wrap64 (a + 1)) (wrap64 (i + 1)) st)
      else (let m = metrics st in Some (err, st\<lparr>metrics := m\<lparr>errorsFinal := errorsFinal m + 1\<rparr>\<rparr>)))"
  by (subst retry_loop.simps) (simp add: loop_body_def Let_def split: prod.split sum.split)

text \<open>What holds when the loop is entered for the \<open>n\<close>-th time, and what holds when it returns.\<close>

definition loop_inv :: "nat \<Rightarrow> err option \<Rightarrow> 's run \<Rightarrow> bool" where
  "loop_inv n err st \<longleftrightarrow> 1 \<le> n \<and> length (calls st) = n \<and> (\<forall>x\<in>set (calls st). retryable x) \<and>
     err = last (calls st) \<and> length (sleeps st) + 1 = n \<and> retries (metrics st) + 1 = n \<and>
     errorsFinal (metrics st) = 0 \<and> counts_ok st"

definition gave_up :: "'s retry_env \<Rightarrow> err option \<Rightarrow> 's run \<Rightarrow> bool" where
  "gave_up e res st \<longleftrightarrow> continueFn e \<noteq> None \<and> res = Some ErrWhileConditionFalse \<and>
     (\<forall>x\<in>set (calls st). retryable x) \<and> length (sleeps st) = length (calls st) \<and>
     errorsFinal (metrics st) = 0"

definition ended :: "'s retrier \<Rightarrow> err option \<Rightarrow> 's run \<Rightarrow> bool" where
  "ended r res st \<longleftrightarrow> calls st \<noteq> [] \<and> res = last (calls st) \<and>
     (\<forall>x\<in>set (butlast (calls st)). retryable x) \<and> length (sleeps st) + 1 = length (calls st) \<and>
     retries (metrics st) + 1 = length (calls st) \<and>
     errorsFinal (metrics st) = (if retryable res then 1 else 0) \<and>
     (retryable res \<longrightarrow> \<not> forever r \<and> length (calls st) = nat (maxRetries r) + 1)"

lemma loop_body_step:
  assumes "loop_inv n err st" and "loop_body pow indef r e a i st = (x, st')"
  shows "counts_ok st' \<and>
    (case x of Inl res \<Rightarrow> length (calls st') \<le> n + 1 \<and> (gave_up e res st' \<or> ended r res st')
     | Inr err' \<Rightarrow> loop_inv (n + 1) err' st')"
proof -
  let ?s = "sleep_before pow indef r i st"
  obtain go st1 where m: "may_continue e a ?s = (go, st1)" by force
  note c = may_continue_cases [OF m] sleep_before_fields [of pow indef r i st]
  have ok1: "counts_ok st1" using c assms(1) by (simp add: counts_ok_def loop_inv_def)
  show ?thesis
  proof (cases go)
    case False
    then have "x = Inl (Some ErrWhileConditionFalse)" "st' = st1"
      using assms(2) m by (auto simp: loop_body_def)
    with False c ok1 assms(1) show ?thesis by (simp add: gave_up_def loop_inv_def)
  next
    case True
    let ?st2 = "st1\<lparr>metrics := (metrics st1)\<lparr>retries := retries (metrics st1) + 1\<rparr>\<rparr>"
    have "call_fn e ?st2 = (x, st')" using True assms(2) m by (simp add: loop_body_def Let_def)
    from call_fn_cases [OF this] obtain err' where f: "calls st' = calls st1 @ [err']"
      "sleeps st' = sleeps st1" "counts_ok ?st2 \<longrightarrow> counts_ok st'"
      "retries (metrics st') = retries (metrics st1) + 1" "errorsFinal (metrics st') = errorsFinal (metrics st1)"
      "x = (if retryable err' then Inr err' else Inl err')" by auto
    have "counts_ok ?st2" using ok1 by (simp add: counts_ok_def)
    with f c assms(1) show ?thesis by (simp add: loop_inv_def ended_def)
  qed
qed

lemma loop_exit:
  assumes "loop_inv n err st" and "\<not> forever r" and "nat (maxRetries r) + 1 = n"
  shows "ended r err (st\<lparr>metrics := (metrics st)\<lparr>errorsFinal := errorsFinal (metrics st) + 1\<rparr>\<rparr>)"
proof -
  from assms have "calls st \<noteq> []" by (auto simp: loop_inv_def)
  then have "retryable (last (calls st))" using assms(1) by (simp add: loop_inv_def)
  with assms show ?thesis by (auto simp: loop_inv_def ended_def in_set_butlastD)
qed

text \<open>The loop with a bound returns.\<close>

lemma retry_loop_bounded:
  assumes "\<not> forever r" and "maxRetries r < 2 ^ 63 - 1"
  shows "loop_inv n err st \<Longrightarrow> n \<le> nat (maxRetries r) + 1 \<Longrightarrow>
   \<exists>res st'. retry_loop pow indef r e err (int n) (int n) st = Some (res, st') \<and> counts_ok st' \<and>
     length (calls st') \<le> nat (maxRetries r) + 1 \<and> (gave_up e res st' \<or> ended r res st')"
proof (induction "nat (maxRetries r) + 1 - n" arbitrary: n err st)
  case 0
  let ?st' = "st\<lparr>metrics := (metrics st)\<lparr>errorsFinal := errorsFinal (metrics st) + 1\<rparr>\<rparr>"
  have n: "nat (maxRetries r) + 1 = n" using 0 by simp
  have "counts_ok ?st'" "length (calls ?st') = n" using 0(2) by (simp_all add: loop_inv_def counts_ok_def)
  moreover have "\<not> int n \<le> maxRetries r" using n by linarith
  ultimately show ?case using loop_exit [OF 0(2) assms(1) n] n assms(1)
    by (subst retry_loop_unfold) (simp add: Let_def)
next
  case (Suc k)
  obtain x st1 where b: "loop_body pow indef r e (int n) (int n) st = (x, st1)" by force
  note step = loop_body_step [OF Suc.prems(1) b]
  have n: "1 \<le> n" using Suc.prems(1) by (simp add: loop_inv_def)
  with Suc.hyps(2) have le: "int n \<le> maxRetries r" by linarith
  show ?case
  proof (cases x)
    case (Inl res)
    with step b le Suc.hyps(2) show ?thesis
      by (subst retry_loop_unfold) auto
  next
    case (Inr err')
    have w: "wrap64 (int n + 1) = int (n + 1)" using le assms(2) by (simp add: wrap64_id int64_ok_iff)
    have "retry_loop pow indef r e err (int n) (int n) st =
        retry_loop pow indef r e err' (int (n + 1)) (int (n + 1)) st1"
      using Inr b le by (subst retry_loop_unfold) (simp add: w del: of_nat_add of_nat_Suc)
    with Suc.hyps(1) [of "n + 1" err' st1] Suc.hyps(2) step Inr show ?thesis by auto
  qed
qed

text \<open>The first call, before the loop.\<close>

lemma first_call:
  assumes "may_continue e 0 (new_run s) = (go, st)"
  shows "counts_ok st" and "\<not> go \<Longrightarrow> gave_up e (Some ErrWhileConditionFalse) st"
    and "call_fn e st = (x, st') \<Longrightarrow>
      counts_ok st' \<and> length (calls st') = 1 \<and>
      (case x of Inl res \<Rightarrow> ended r res st' | Inr err \<Rightarrow> loop_inv 1 err st')"
proof -
  note c = may_continue_cases [OF assms]
  show ok: "counts_ok st" using c by (simp add: counts_ok_def new_run_def zero_metrics_def)
  show "gave_up e (Some ErrWhileConditionFalse) st" if "\<not> go"
    using c that by (simp add: gave_up_def new_run_def zero_metrics_def)
  show "counts_ok st' \<and> length (calls st') = 1 \<and>
      (case x of Inl res \<Rightarrow> ended r res st' | Inr err \<Rightarrow> loop_inv 1 err st')"
    if f: "call_fn e st = (x, st')"
    using call_fn_cases [OF f] ok c
    by (auto simp: loop_inv_def ended_def new_run_def zero_metrics_def)
qed

text \<open>
  A measure on the caller's state that each retryable failure decreases and nothing else changes:
  the function fails only finitely often.
\<close>

definition finitely_failing :: "'s retrier \<Rightarrow> 's retry_env \<Rightarrow> ('s \<Rightarrow> nat) \<Rightarrow> bool" where
  "finitely_failing r e \<mu> \<longleftrightarrow>
     (\<forall>s x t. fn e s = (x, t) \<longrightarrow> retryable x \<longrightarrow> \<mu> t < \<mu> s) \<and>
     (\<forall>s. \<mu> (snd (now e s)) = \<mu> s) \<and> (\<forall>n s. \<mu> (snd (rngFn r n s)) = \<mu> s) \<and>
     (\<forall>c n s. continueFn e = Some c \<longrightarrow> \<mu> (snd (c n s)) = \<mu> s)"

lemma finitely_failing_call:
  assumes "finitely_failing r e \<mu>" and "call_fn e st = (Inr err, st')"
  shows "\<mu> (env st') < \<mu> (env st)"
proof -
  obtain start s1 where 1: "now e (env st) = (start, s1)" by force
  obtain x s2 where 2: "fn e s1 = (x, s2)" by force
  obtain stop s3 where 3: "now e s2 = (stop, s3)" by force
  have "env st' = s3" "retryable x" using assms(2) 1 2 3
    by (auto simp: call_fn_def Let_def retryable_def split: if_splits)
  moreover have "\<mu> s1 = \<mu> (env st)" "\<mu> s3 = \<mu> s2"
    using assms(1) 1 3 by (metis finitely_failing_def snd_conv)+
  moreover have "\<mu> s2 < \<mu> s1" if "retryable x"
    using assms(1) 2 that unfolding finitely_failing_def by blast
  ultimately show ?thesis by simp
qed

lemma BackoffNanos_env:
  assumes "finitely_failing r e \<mu>"
  shows "\<mu> (snd (BackoffNanos pow indef i j f a b (rngFn r) s)) = \<mu> s"
  using assms by (auto simp: BackoffNanos_def finitely_failing_def Let_def split: prod.split)
     (metis snd_conv)+

lemma finitely_failing_body:
  assumes "finitely_failing r e \<mu>" and "loop_body pow indef r e a i st = (Inr err, st')"
  shows "\<mu> (env st') < \<mu> (env st)"
proof -
  obtain go st1 where m: "may_continue e a (sleep_before pow indef r i st) = (go, st1)" by force
  have "\<mu> (env (sleep_before pow indef r i st)) = \<mu> (env st)"
    using BackoffNanos_env [OF assms(1)] by (simp add: sleep_before_def split: prod.split) (metis snd_conv)
  moreover have "\<mu> (env st1) = \<mu> (env (sleep_before pow indef r i st))"
    using assms(1) m by (auto simp: may_continue_def finitely_failing_def split: option.splits prod.splits)
       (metis snd_conv)
  moreover have "\<mu> (env st') < \<mu> (env st1)"
    using finitely_failing_call [OF assms(1)] assms(2) m
    by (fastforce simp: loop_body_def Let_def split: if_splits)
  ultimately show ?thesis by simp
qed

lemma retry_loop_forever:
  assumes "forever r" and "finitely_failing r e \<mu>"
  shows "loop_inv n err st \<Longrightarrow>
   \<exists>res st'. retry_loop pow indef r e err a i st = Some (res, st') \<and> counts_ok st' \<and>
     (gave_up e res st' \<or> ended r res st')"
proof (induction "\<mu> (env st)" arbitrary: n err a i st rule: less_induct)
  case less
  obtain x st1 where b: "loop_body pow indef r e a i st = (x, st1)" by force
  note step = loop_body_step [OF less.prems b]
  show ?case
  proof (cases x)
    case (Inl res)
    with step b assms(1) show ?thesis by (subst retry_loop_unfold) simp
  next
    case (Inr err')
    with b have "\<mu> (env st1) < \<mu> (env st)" using finitely_failing_body [OF assms(2)] by blast
    from less.hyps [OF this, of "n + 1" err' "wrap64 (a + 1)" "wrap64 (i + 1)"] step Inr b assms(1)
    show ?thesis by (subst retry_loop_unfold) simp
  qed
qed

section \<open>Properties\<close>


text \<open>A function that fails with a retryable error until its state, a number, is zero.\<close>

definition ex_env :: "nat retry_env" where
  "ex_env = \<lparr>fn = (\<lambda>n. if n = 0 then (None, 0) else (Some (Base ''busy''), n - 1)),
     continueFn = None, now = (\<lambda>n. (0, n))\<rparr>"

definition ex_retrier :: "bool \<Rightarrow> nat retrier" where
  "ex_retrier fe = \<lparr>initialBackoff = 0, backoffFactor = Fin 1, maxBackoff = 0, maxRetries = 2,
     forever = fe, jitter = False, rngFn = (\<lambda>n s. (0, s))\<rparr>"


text \<open>
  C19: a retrier that retries forever returns when the function fails only finitely often, and then either the
  condition turned false or the last call succeeded or failed with a non-retryable error.
\<close>

theorem attempt_forever_returns:
  assumes "forever r" and "finitely_failing r e \<mu>"
  shows "\<exists>res st. attempt pow indef r e (new_run s) = Some (res, st) \<and> counts_ok st \<and>
    (gave_up e res st \<or>
     calls st \<noteq> [] \<and> res = last (calls st) \<and> (res = None \<or> IsNonRetryableError res))"
proof -
  obtain go st where m: "may_continue e 0 (new_run s) = (go, st)" by force
  obtain x st1 where c: "call_fn e st = (x, st1)" by force
  note f = first_call [OF m]
  have e: "calls st' \<noteq> [] \<and> res = last (calls st') \<and> (res = None \<or> IsNonRetryableError res)"
    if "ended r res st'" for res st'
    using that assms(1) unfolding ended_def retryable_def by blast
  show ?thesis
  proof (cases go)
    case False
    with f m show ?thesis by (auto simp: attempt_def)
  next
    case True
    show ?thesis
    proof (cases x)
      case (Inl res)
      with True m c f(3) [OF c, of r] e show ?thesis by (auto simp: attempt_def)
    next
      case (Inr err)
      with f(3) [OF c, of r] have "loop_inv 1 err st1" by simp
      from retry_loop_forever [OF assms this, of pow indef 1 1] True m c Inr e show ?thesis
        by (fastforce simp: attempt_def)
    qed
  qed
qed

theorem attempt_forever_returns_witness:
  "\<exists>res st. attempt (\<lambda>x y. x) 0 (ex_retrier True) ex_env (new_run 5) = Some (res, st) \<and>
     calls st \<noteq> [] \<and> (res = None \<or> IsNonRetryableError res)"
proof -
  have "finitely_failing (ex_retrier True) ex_env id"
    by (simp add: finitely_failing_def ex_env_def ex_retrier_def retryable_def)
  moreover have "forever (ex_retrier True)" by (simp add: ex_retrier_def)
  ultimately show ?thesis
    using attempt_forever_returns [of "ex_retrier True" ex_env id "\<lambda>x y. x" 0 5]
    by (auto simp: gave_up_def ex_env_def)
qed

lemma half_bounds: "2 \<le> (b::int) \<Longrightarrow> 1 \<le> b sdiv 2 \<and> 2 * (b sdiv 2) \<le> b"
  by (simp add: sdiv_nonneg) linarith

lemma float_of_nonneg:
  assumes "0 \<le> x"
  shows "round64 x = PInf \<or> (\<exists>y\<ge>0. round64 x = Fin y)"
proof (cases "x = 0")
  case False
  with assms have "0 < x" by simp
  with round_pos_ge [OF this, of 0 0] show ?thesis by (simp add: round64_def)
qed (simp add: round64_def)

text \<open>The product of the backoff and the power, before it is converted.\<close>

lemma backoff_float_nonneg:
  assumes "int64_ok initial" and "0 \<le> initial"
    and "\<forall>x y. pow x y = PInf \<or> (\<exists>v\<ge>0. pow x y = Fin v)"
    and "float_mul (float_of_int initial) (pow x y) \<noteq> NaN"
  shows "float_mul (float_of_int initial) (pow x y) = PInf \<or>
    (\<exists>v\<ge>0. float_mul (float_of_int initial) (pow x y) = Fin v)"
proof -
  have "round64 (of_int initial) \<noteq> PInf"
  proof (cases "initial = 0")
    case False
    have "rat_of_int initial \<le> of_int (2 ^ 63)" using assms(1) by (subst of_int_le_iff) (simp add: int64_ok_iff)
    with False assms(2) round_pos_le [of "of_int initial" 1 63] show ?thesis by (simp add: round64_def)
  qed (simp add: round64_def)
  with assms(2) float_of_nonneg [of "of_int initial"] obtain v where v: "0 \<le> v" "float_of_int initial = Fin v"
    by (auto simp: float_of_int_def)
  show ?thesis
  proof (cases "pow x y = PInf")
    case True
    with v assms(4) show ?thesis by (auto simp: inf_of_sign_def split: if_splits)
  next
    case False
    with assms(3) obtain w where "0 \<le> w" "pow x y = Fin w" by blast
    with v float_of_nonneg [of "v * w"] show ?thesis by auto
  qed
qed

text \<open>The value without the generator's state.\<close>

lemma BackoffNanos_value:
  assumes "f = float_mul (float_of_int initial) (pow factor (float_of_int (wrap64 (retry - 1))))"
    and "b = (if retry \<ge> 1 then float_to_signed 64 indef f else initial)"
  shows "fst (BackoffNanos pow indef retry jit factor initial maxb rng s) =
    (if retry \<ge> 1 \<and> float_less (Fin (2 ^ 63)) f then maxb
     else min (if jit \<and> 2 \<le> b then wrap64 (b sdiv 2 + fst (rng (b sdiv 2) s)) else b) maxb)"
proof -
  obtain x s' where "rng (b sdiv 2) s = (x, s')" by force
  then show ?thesis
    unfolding BackoffNanos_def Let_def assms(1) [symmetric] assms(2) [symmetric] by (simp add: min_def)
qed


definition ex_pow :: "float64 \<Rightarrow> float64 \<Rightarrow> float64" where
  "ex_pow x y = Fin 8"


text \<open>
  The guard \<^verbatim>\<open>backoffFloat64 > math.MaxInt64\<close> compares with \<open>2 ^ 63\<close>, the nearest \<^verbatim>\<open>float64\<close>, and lets that value through
  to a conversion that overflows.  With an initial backoff of \<open>2 ^ 30\<close> nanoseconds and factor 2, and a
  \<^verbatim>\<open>math.Pow\<close> that is exact there, the 34th retry waits for the overflowed value, a negative duration
  where the conversion gives the least integer.
\<close>

theorem BackoffNanos_overflow:
  assumes "pow (Fin 2) (Fin 33) = Fin (2 ^ 33)" and "0 \<le> maxb"
  shows "fst (BackoffNanos pow (- (2 ^ 63)) 34 jit (Fin 2) (2 ^ 30) maxb rng s) = - (2 ^ 63)"
proof -
  have "float_of_int 33 = Fin 33" "float_of_int (2 ^ 30) = Fin (2 ^ 30)"
    using float_of_int_exact [of 33] float_of_int_exact [of "2 ^ 30"] by simp_all
  moreover have "round64 (2 ^ 63) = Fin (2 ^ 63)"
    using round_pos_exact [of "2 ^ 63" 1 63] by (simp add: round64_def)
  ultimately show ?thesis
    using assms by (simp add: BackoffNanos_def wrap64_id int64_ok_iff Let_def float_to_signed_def
        trunc_rat_def fits_s_def)
qed

theorem BackoffNanos_overflow_witness:
  "fst (BackoffNanos (\<lambda>x y. Fin (2 ^ 33)) (- (2 ^ 63)) 34 True (Fin 2) (2 ^ 30) defaultMaxBackoff
     (\<lambda>n s. (0, s)) ()) = - (2 ^ 63)"
  by (rule BackoffNanos_overflow) (simp_all add: defaultMaxBackoff_def)

end
