(* ===== verification/Checked.thy ===== *)
theory Checked
  imports Prelude
begin

text \<open>
  The package \<^verbatim>\<open>checked\<close>: reference counted entities that check their use (\<^verbatim>\<open>ref.go\<close>), the traceback debugger
  (\<^verbatim>\<open>debug.go\<close>) and checked byte slices (\<^verbatim>\<open>bytes.go\<close>).

  The package variables are the record \<open>globals\<close>.  The panic function can be replaced by one that
  returns; \<open>panicFn g v\<close> says whether it panics on the violation \<open>v\<close>.  An operation returns an outcome
  together with the state it leaves, since a panic does not undo what was done before.  \<open>'f\<close> is the type of
  the finalizers of other packages, \<open>'p\<close> what a traceback entry records of the call stack and the time.
\<close>

section \<open>Traceback debugger\<close>

datatype debuggerEvent =
    incRefEvent | decRefEvent | moveRefEvent | finalizeEvent
  | incReadsEvent | decReadsEvent | incWritesEvent | decWritesEvent

fun debuggerEvent_String :: "debuggerEvent \<Rightarrow> string" where
  "debuggerEvent_String incRefEvent = ''IncRef''"
| "debuggerEvent_String decRefEvent = ''DecRef''"
| "debuggerEvent_String moveRefEvent = ''MoveRef''"
| "debuggerEvent_String finalizeEvent = ''Finalize''"
| "debuggerEvent_String incReadsEvent = ''IncReads''"
| "debuggerEvent_String decReadsEvent = ''DecReads''"
| "debuggerEvent_String incWritesEvent = ''IncWrites''"
| "debuggerEvent_String decWritesEvent = ''DecWrites''"

record 'p debuggerEntry =
  event :: debuggerEvent
  eref :: int
  stamp :: 'p

text \<open>\<open>entries\<close> with the capacity its slice was made with.\<close>

record 'p debugger =
  entries :: "'p debuggerEntry list list"
  ecap :: int

definition new_debugger :: "'p debugger" where
  "new_debugger = \<lparr>entries = [], ecap = 0\<rparr>"

datatype violation =
    NegativeRefCount int
  | FinalizeBeforeZero int
  | ReadAfterFree int int
  | ReadFinishAfterFree int int
  | WriteAfterFree int int
  | DoubleWrite int int
  | WriteFinishAfterFree int int

text \<open>
  The value of a panic: a violation, with the traceback entries when tracebacks are on, or an error of
  the runtime (a slice made or resliced out of its bounds).
\<close>

datatype 'p checked_panic =
    Violation violation "'p debuggerEntry list option"
  | SliceBounds

text \<open>
  \<^verbatim>\<open>debugger.append\<close>: the entry goes to the last cycle; a finalize event ends the cycle, and when all
  cycles are in use the oldest is emptied and becomes the last.
\<close>

definition debugger_append ::
    "int \<Rightarrow> 'p debugger \<Rightarrow> debuggerEvent \<Rightarrow> int \<Rightarrow> 'p \<Rightarrow> ('p checked_panic, 'p debugger) outcome" where
  "debugger_append cycles d ev rf p =
     (if entries d = [] \<and> cycles < 1 then Panic SliceBounds
      else
        (let d = (if entries d = [] then \<lparr>entries = [[]], ecap = cycles\<rparr> else d);
             idx = length (entries d) - 1;
             es = (entries d)[idx := entries d ! idx @ [\<lparr>event = ev, eref = rf, stamp = p\<rparr>]]
         in if ev = finalizeEvent then
              (if int (length es) = cycles then Ret (d\<lparr>entries := (tl es @ [last es])[idx := []]\<rparr>)
               else if int (length es) + 1 \<le> ecap d then Ret (d\<lparr>entries := es @ [[]]\<rparr>)
               else Panic SliceBounds)
            else Ret (d\<lparr>entries := es\<rparr>)))"

text \<open>
  \<^verbatim>\<open>debuggerEntry.String\<close>.  \<open>frames\<close> are the frames the runtime gives for the recorded program counters; the loop asks for a frame before it
  tests whether there are more, so without any it prints an empty one.  \<open>nanos\<close> is the recorded time.
\<close>

fun hex :: "nat \<Rightarrow> string" where
  "hex n = (if n < 16 then [''0123456789abcdef'' ! n] else hex (n div 16) @ [''0123456789abcdef'' ! (n mod 16)])"

declare hex.simps [simp del]

record Frame =
  fr_Function :: string
  fr_File :: string
  fr_Line :: int
  fr_Entry :: nat

definition frame_text :: "Frame \<Rightarrow> string" where
  "frame_text f = fr_Function f @ ''(...)'' @ [CHR 0x0A, CHR 0x09] @ fr_File f @ '':'' @ Itoa (fr_Line f) @ '' +'' @ hex (fr_Entry f) @ [CHR 0x0A]"

fun frames_text :: "Frame list \<Rightarrow> string" where
  "frames_text [] = frame_text \<lparr>fr_Function = [], fr_File = [], fr_Line = 0, fr_Entry = 0\<rparr>"
| "frames_text [f] = frame_text f"
| "frames_text (f # fs) = frame_text f @ frames_text fs"

definition debuggerEntry_String :: "('p \<Rightarrow> Frame list) \<Rightarrow> ('p \<Rightarrow> int) \<Rightarrow> 'p debuggerEntry \<Rightarrow> string" where
  "debuggerEntry_String frames nanos e =
     debuggerEvent_String (event e) @ '', ref='' @ Itoa (eref e) @ '', unixnanos='' @ Itoa (nanos (stamp e)) @ '':'' @ [CHR 0x0A] @
     frames_text (frames (stamp e)) @ [CHR 0x0A]"

lemma frames_text_concat: "fs \<noteq> [] \<Longrightarrow> frames_text fs = concat (map frame_text fs)"
  by (induction fs rule: frames_text.induct) simp_all

text \<open>\<^verbatim>\<open>debugger.String\<close> prints the entries latest first; \<open>sh\<close> is \<^verbatim>\<open>debuggerEntry.String\<close>.\<close>

definition debugger_entries :: "'p debugger \<Rightarrow> 'p debuggerEntry list" where
  "debugger_entries d = concat (map rev (rev (entries d)))"

definition debugger_String :: "('p debuggerEntry \<Rightarrow> string) \<Rightarrow> 'p debugger \<Rightarrow> string" where
  "debugger_String sh d = concat (map sh (debugger_entries d))"

section \<open>Reference counts\<close>

record globals =
  traceback :: bool
  tracebackCycles :: int
  tracebackMaxDepth :: int
  panicFn :: "violation \<Rightarrow> bool"
  leakDetectionFlag :: bool

definition default_globals :: globals where
  "default_globals = \<lparr>traceback = False, tracebackCycles = 3, tracebackMaxDepth = 64,
     panicFn = (\<lambda>_. True), leakDetectionFlag = False\<rparr>"

definition SetPanicFn :: "globals \<Rightarrow> (violation \<Rightarrow> bool) \<Rightarrow> globals" where
  "SetPanicFn g f = g\<lparr>panicFn := f\<rparr>"

definition ResetPanicFn :: "globals \<Rightarrow> globals" where
  "ResetPanicFn g = g\<lparr>panicFn := (\<lambda>_. True)\<rparr>"

definition EnableTracebacks :: "globals \<Rightarrow> globals" where
  "EnableTracebacks g = g\<lparr>traceback := True\<rparr>"

definition DisableTracebacks :: "globals \<Rightarrow> globals" where
  "DisableTracebacks g = g\<lparr>traceback := False\<rparr>"

definition SetTracebackCycles :: "globals \<Rightarrow> int \<Rightarrow> globals" where
  "SetTracebackCycles g n = g\<lparr>tracebackCycles := n\<rparr>"

definition SetTracebackMaxDepth :: "globals \<Rightarrow> int \<Rightarrow> globals" where
  "SetTracebackMaxDepth g n = g\<lparr>tracebackMaxDepth := n\<rparr>"

definition EnableLeakDetection :: "globals \<Rightarrow> globals" where
  "EnableLeakDetection g = g\<lparr>leakDetectionFlag := True\<rparr>"

definition DisableLeakDetection :: "globals \<Rightarrow> globals" where
  "DisableLeakDetection g = g\<lparr>leakDetectionFlag := False\<rparr>"

text \<open>A finalizer is one of another package, or a \<^verbatim>\<open>*debuggerRef\<close> that wraps one.\<close>

datatype ('f, 'p) finalizer = Fz 'f | debuggerRef "'p debugger" "'f option"

record ('f, 'p) RefCount =
  ref :: int
  reads :: int
  writes :: int
  finalizer :: "('f, 'p) finalizer option"

definition new_RefCount :: "('f, 'p) RefCount" where
  "new_RefCount = \<lparr>ref = 0, reads = 0, writes = 0, finalizer = None\<rparr>"

definition NumRef :: "('f, 'p) RefCount \<Rightarrow> int" where "NumRef c = ref c"
definition NumReaders :: "('f, 'p) RefCount \<Rightarrow> int" where "NumReaders c = reads c"
definition NumWriters :: "('f, 'p) RefCount \<Rightarrow> int" where "NumWriters c = writes c"

definition RefCount_Finalizer :: "('f, 'p) RefCount \<Rightarrow> ('f, 'p) finalizer option" where
  "RefCount_Finalizer c = finalizer c"

definition RefCount_SetFinalizer ::
    "('f, 'p) RefCount \<Rightarrow> ('f, 'p) finalizer option \<Rightarrow> ('f, 'p) RefCount" where
  "RefCount_SetFinalizer c f = c\<lparr>finalizer := f\<rparr>"

text \<open>\<^verbatim>\<open>getDebuggerRef\<close> installs a debugger around the current finalizer when there is none yet.\<close>

definition getDebuggerRef :: "('f, 'p) RefCount \<Rightarrow> 'p debugger \<times> 'f option \<times> ('f, 'p) RefCount" where
  "getDebuggerRef c =
     (case RefCount_Finalizer c of
        None \<Rightarrow> (new_debugger, None, RefCount_SetFinalizer c (Some (debuggerRef new_debugger None)))
      | Some (Fz f) \<Rightarrow> (new_debugger, Some f, RefCount_SetFinalizer c (Some (debuggerRef new_debugger (Some f))))
      | Some (debuggerRef d f) \<Rightarrow> (d, f, c))"

text \<open>
  \<^verbatim>\<open>tracebackEvent\<close>; \<open>p\<close> is what \<^verbatim>\<open>runtime.Callers\<close> and the clock give.  A negative maximal depth makes
  the reslicing of the buffer panic.
\<close>

definition tracebackEvent ::
    "globals \<Rightarrow> 'p \<Rightarrow> ('f, 'p) RefCount \<Rightarrow> int \<Rightarrow> debuggerEvent \<Rightarrow>
     ('p checked_panic, unit) outcome \<times> ('f, 'p) RefCount" where
  "tracebackEvent g p c rf e =
     (if \<not> traceback g then (Ret (), c)
      else
        (let (d, f, c) = getDebuggerRef c in
         if tracebackMaxDepth g < 0 then (Panic SliceBounds, c)
         else
           (case debugger_append (tracebackCycles g) d e rf p of
              Panic x \<Rightarrow> (Panic x, c)
            | Ret d' \<Rightarrow> (Ret (), RefCount_SetFinalizer c (Some (debuggerRef d' f))))))"

definition panicRef ::
    "globals \<Rightarrow> ('f, 'p) RefCount \<Rightarrow> violation \<Rightarrow> ('p checked_panic, unit) outcome \<times> ('f, 'p) RefCount" where
  "panicRef g c v =
     (let (tr, c) = (if traceback g then (let (d, _, c) = getDebuggerRef c in (Some (debugger_entries d), c))
                     else (None, c))
      in (if panicFn g v then Panic (Violation v tr) else Ret (), c))"

text \<open>Sequencing of operations that return an outcome and a state.\<close>

definition andthen ::
    "('e, 'a) outcome \<times> 's \<Rightarrow> ('a \<Rightarrow> 's \<Rightarrow> ('e, 'b) outcome \<times> 's) \<Rightarrow> ('e, 'b) outcome \<times> 's" where
  "andthen x k = (case x of (Panic e, s) \<Rightarrow> (Panic e, s) | (Ret a, s) \<Rightarrow> k a s)"

definition check ::
    "bool \<Rightarrow> violation \<Rightarrow> globals \<Rightarrow> ('f, 'p) RefCount \<Rightarrow> ('p checked_panic, unit) outcome \<times> ('f, 'p) RefCount" where
  "check bad v g c = (if bad then panicRef g c v else (Ret (), c))"

definition IncRef :: "globals \<Rightarrow> 'p \<Rightarrow> ('f, 'p) RefCount \<Rightarrow> ('p checked_panic, unit) outcome \<times> ('f, 'p) RefCount" where
  "IncRef g p c =
     (let n = wrap32 (ref c + 1); c = c\<lparr>ref := n\<rparr> in tracebackEvent g p c n incRefEvent)"

definition DecRef :: "globals \<Rightarrow> 'p \<Rightarrow> ('f, 'p) RefCount \<Rightarrow> ('p checked_panic, unit) outcome \<times> ('f, 'p) RefCount" where
  "DecRef g p c =
     (let n = wrap32 (ref c - 1); c = c\<lparr>ref := n\<rparr> in
      andthen (tracebackEvent g p c n decRefEvent) (\<lambda>_ c. check (n < 0) (NegativeRefCount n) g c))"

definition MoveRef :: "globals \<Rightarrow> 'p \<Rightarrow> ('f, 'p) RefCount \<Rightarrow> ('p checked_panic, unit) outcome \<times> ('f, 'p) RefCount" where
  "MoveRef g p c = tracebackEvent g p c (NumRef c) moveRefEvent"

text \<open>\<^verbatim>\<open>Finalize\<close> returns the finalizer it calls, if any; a \<^verbatim>\<open>debuggerRef\<close> calls the one it wraps.\<close>

fun run_finalizer :: "('f, 'p) finalizer option \<Rightarrow> 'f option" where
  "run_finalizer None = None"
| "run_finalizer (Some (Fz f)) = Some f"
| "run_finalizer (Some (debuggerRef d f)) = f"

definition RefCount_Finalize ::
    "globals \<Rightarrow> 'p \<Rightarrow> ('f, 'p) RefCount \<Rightarrow> ('p checked_panic, 'f option) outcome \<times> ('f, 'p) RefCount" where
  "RefCount_Finalize g p c =
     (let n = NumRef c in
      andthen (tracebackEvent g p c n finalizeEvent) (\<lambda>_ c.
      andthen (check (n \<noteq> 0) (FinalizeBeforeZero n) g c) (\<lambda>_ c.
        (Ret (run_finalizer (RefCount_Finalizer c)), c))))"

definition IncReads :: "globals \<Rightarrow> 'p \<Rightarrow> ('f, 'p) RefCount \<Rightarrow> ('p checked_panic, unit) outcome \<times> ('f, 'p) RefCount" where
  "IncReads g p c =
     andthen (tracebackEvent g p c (NumRef c) incReadsEvent) (\<lambda>_ c.
       let n = wrap32 (reads c + 1); c = c\<lparr>reads := n\<rparr>; rf = NumRef c in
       check (n > 0 \<and> rf < 1) (ReadAfterFree n rf) g c)"

definition DecReads :: "globals \<Rightarrow> 'p \<Rightarrow> ('f, 'p) RefCount \<Rightarrow> ('p checked_panic, unit) outcome \<times> ('f, 'p) RefCount" where
  "DecReads g p c =
     andthen (tracebackEvent g p c (NumRef c) decReadsEvent) (\<lambda>_ c.
       let n = wrap32 (reads c - 1); c = c\<lparr>reads := n\<rparr>; rf = NumRef c in
       check (rf < 1) (ReadFinishAfterFree n rf) g c)"

definition IncWrites :: "globals \<Rightarrow> 'p \<Rightarrow> ('f, 'p) RefCount \<Rightarrow> ('p checked_panic, unit) outcome \<times> ('f, 'p) RefCount" where
  "IncWrites g p c =
     andthen (tracebackEvent g p c (NumRef c) incWritesEvent) (\<lambda>_ c.
       let n = wrap32 (writes c + 1); c = c\<lparr>writes := n\<rparr>; rf = NumRef c in
       andthen (check (n > 0 \<and> rf < 1) (WriteAfterFree n rf) g c) (\<lambda>_ c.
         check (n > 1) (DoubleWrite n rf) g c))"

definition DecWrites :: "globals \<Rightarrow> 'p \<Rightarrow> ('f, 'p) RefCount \<Rightarrow> ('p checked_panic, unit) outcome \<times> ('f, 'p) RefCount" where
  "DecWrites g p c =
     andthen (tracebackEvent g p c (NumRef c) decWritesEvent) (\<lambda>_ c.
       let n = wrap32 (writes c - 1); c = c\<lparr>writes := n\<rparr>; rf = NumRef c in
       check (rf < 1) (WriteFinishAfterFree n rf) g c)"

section \<open>Leak detection\<close>

text \<open>What reflection says of the tracked value: element size and capacity, length or size.\<close>

datatype tracked = TPtr int | TSeq int int | TString int | TOther int

fun tracked_size :: "tracked \<Rightarrow> int" where
  "tracked_size (TPtr n) = n"
| "tracked_size (TSeq n k) = wrap64 (n * k)"
| "tracked_size (TString n) = n"
| "tracked_size (TOther n) = n"

text \<open>\<^verbatim>\<open>TrackObject\<close> returns the size the runtime's finalizer will use, none when detection is off.\<close>

definition TrackObject :: "globals \<Rightarrow> tracked \<Rightarrow> int option" where
  "TrackObject g v = (if \<not> leakDetectionFlag g then None else Some (tracked_size v))"

text \<open>The finalizer the runtime calls when a tracked entity is collected; bytes leaked per origin.\<close>

definition collect ::
    "('p debugger \<Rightarrow> string) \<Rightarrow> int \<Rightarrow> ('f, 'p) RefCount \<Rightarrow> (string \<Rightarrow> 64 word) \<Rightarrow> (string \<Rightarrow> 64 word)" where
  "collect sh sz c leaks =
     (if NumRef c = 0 then leaks
      else (let (d, _, _) = getDebuggerRef c; origin = sh d in leaks(origin := leaks origin + of_int sz)))"

text \<open>\<^verbatim>\<open>DumpLeaks\<close>, for the keys in the order the map yields them.\<close>

definition DumpLeaks :: "string list \<Rightarrow> (string \<Rightarrow> 64 word) \<Rightarrow> string list" where
  "DumpLeaks ks leaks =
     map (\<lambda>k. ''leaked '' @ dec (unat (leaks k)) @ '' bytes, origin:'' @ CHR 0x0A # k) ks"

section \<open>Checked bytes\<close>

text \<open>A byte slice: its array and its length; the capacity is the length of the array.\<close>

record byte_slice =
  buf :: "8 word list"
  blen :: nat

definition slice_bytes :: "byte_slice \<Rightarrow> 8 word list" where
  "slice_bytes s = take (blen s) (buf s)"

definition bcap :: "byte_slice \<Rightarrow> nat" where "bcap s = length (buf s)"

text \<open>The built-in \<^verbatim>\<open>append\<close>; \<open>grow\<close> gives the capacity of a new array from the needed length.\<close>

definition append_bytes :: "(nat \<Rightarrow> nat) \<Rightarrow> byte_slice \<Rightarrow> 8 word list \<Rightarrow> byte_slice" where
  "append_bytes grow s vs =
     (let n = blen s + length vs in
      if n \<le> bcap s then \<lparr>buf = take (blen s) (buf s) @ vs @ drop n (buf s), blen = n\<rparr>
      else \<lparr>buf = slice_bytes s @ vs @ replicate (grow n - n) 0, blen = n\<rparr>)"

record ('f, 'p) bytesRef =
  rc :: "('f, 'p) RefCount"
  opts :: "'f option"
  val :: byte_slice

type_synonym ('f, 'p, 'a) bytes_op = "('f, 'p) bytesRef \<Rightarrow> ('p checked_panic, 'a) outcome \<times> ('f, 'p) bytesRef"

definition on_rc ::
    "(('f, 'p) RefCount \<Rightarrow> ('p checked_panic, unit) outcome \<times> ('f, 'p) RefCount) \<Rightarrow> ('f, 'p, unit) bytes_op" where
  "on_rc op b = (case op (rc b) of (x, c) \<Rightarrow> (x, b\<lparr>rc := c\<rparr>))"

text \<open>\<^verbatim>\<open>NewBytes\<close>; \<open>self\<close> is the entity as a finalizer of its own reference count.  The second result is the
  size tracked for leak detection.\<close>

definition NewBytes :: "globals \<Rightarrow> 'f \<Rightarrow> byte_slice \<Rightarrow> 'f option \<Rightarrow> ('f, 'p) bytesRef \<times> int option" where
  "NewBytes g self value os =
     (\<lparr>rc = RefCount_SetFinalizer new_RefCount (Some (Fz self)), opts = os, val = value\<rparr>,
      if leakDetectionFlag g then TrackObject g (TSeq 1 (int (bcap value))) else None)"

text \<open>The three readers and the four writers share their brackets.\<close>

definition reading :: "globals \<Rightarrow> 'p \<Rightarrow> (byte_slice \<Rightarrow> 'a) \<Rightarrow> ('f, 'p, 'a) bytes_op" where
  "reading g p f b =
     andthen (on_rc (IncReads g p) b) (\<lambda>_ b.
       let v = f (val b) in andthen (on_rc (DecReads g p) b) (\<lambda>_ b. (Ret v, b)))"

definition writing :: "globals \<Rightarrow> 'p \<Rightarrow> (byte_slice \<Rightarrow> byte_slice option) \<Rightarrow> ('f, 'p, unit) bytes_op" where
  "writing g p f b =
     andthen (on_rc (IncWrites g p) b) (\<lambda>_ b.
       case f (val b) of None \<Rightarrow> (Panic SliceBounds, b)
       | Some v \<Rightarrow> on_rc (DecWrites g p) (b\<lparr>val := v\<rparr>))"

definition Bytes_Bytes :: "globals \<Rightarrow> 'p \<Rightarrow> ('f, 'p, 8 word list) bytes_op" where
  "Bytes_Bytes g p = reading g p slice_bytes"

definition Bytes_Cap :: "globals \<Rightarrow> 'p \<Rightarrow> ('f, 'p, nat) bytes_op" where
  "Bytes_Cap g p = reading g p bcap"

definition Bytes_Len :: "globals \<Rightarrow> 'p \<Rightarrow> ('f, 'p, nat) bytes_op" where
  "Bytes_Len g p = reading g p blen"

definition Bytes_Resize :: "globals \<Rightarrow> 'p \<Rightarrow> int \<Rightarrow> ('f, 'p, unit) bytes_op" where
  "Bytes_Resize g p sz =
     writing g p (\<lambda>v. if 0 \<le> sz \<and> sz \<le> int (bcap v) then Some (v\<lparr>blen := nat sz\<rparr>) else None)"

definition Bytes_Append :: "(nat \<Rightarrow> nat) \<Rightarrow> globals \<Rightarrow> 'p \<Rightarrow> 8 word \<Rightarrow> ('f, 'p, unit) bytes_op" where
  "Bytes_Append grow g p x = writing g p (\<lambda>v. Some (append_bytes grow v [x]))"

definition Bytes_AppendAll :: "(nat \<Rightarrow> nat) \<Rightarrow> globals \<Rightarrow> 'p \<Rightarrow> 8 word list \<Rightarrow> ('f, 'p, unit) bytes_op" where
  "Bytes_AppendAll grow g p xs = writing g p (\<lambda>v. Some (append_bytes grow v xs))"

definition Bytes_Reset :: "globals \<Rightarrow> 'p \<Rightarrow> byte_slice \<Rightarrow> ('f, 'p, unit) bytes_op" where
  "Bytes_Reset g p v = writing g p (\<lambda>_. Some v)"

text \<open>\<^verbatim>\<open>bytesRef.Finalize\<close> hides the method of the embedded \<^verbatim>\<open>RefCount\<close>; it returns the finalizer it calls.\<close>

definition Bytes_Finalize :: "('f, 'p) bytesRef \<Rightarrow> 'f option" where
  "Bytes_Finalize b = opts b"

definition NewBytesOptions :: "'f option" where "NewBytesOptions = None"

definition BytesOptions_SetFinalizer :: "'f option \<Rightarrow> 'f option \<Rightarrow> 'f option" where
  [opt_field]: "BytesOptions_SetFinalizer os v = v"

definition BytesOptions_Finalizer :: "'f option \<Rightarrow> 'f option" where
  [opt_field]: "BytesOptions_Finalizer os = os"

interpretation bytes_finalizer: option_field BytesOptions_Finalizer BytesOptions_SetFinalizer
  by unfold_locales (simp_all add: opt_field)

section \<open>The debugger keeps the last cycles\<close>

text \<open>The reference: the events split into cycles, each ended by a finalize event.\<close>

fun split_cycles :: "'p debuggerEntry list \<Rightarrow> 'p debuggerEntry list list" where
  "split_cycles [] = [[]]"
| "split_cycles (x # xs) =
     (let s = split_cycles xs in if event x = finalizeEvent then [x] # s else (x # hd s) # tl s)"

lemma split_cycles_nonempty [simp]: "split_cycles xs \<noteq> []"
  by (cases xs) (simp_all add: Let_def)

lemma split_cycles_snoc:
  "split_cycles (xs @ [x]) =
     butlast (split_cycles xs) @ [last (split_cycles xs) @ [x]] @ (if event x = finalizeEvent then [[]] else [])"
proof (induction xs)
  case (Cons y ys)
  obtain a as where s: "split_cycles ys = a # as" by (meson list.exhaust split_cycles_nonempty)
  show ?case by (cases "as = []") (use Cons s in \<open>auto simp: Let_def\<close>)
qed simp

lemma concat_split_cycles: "concat (split_cycles xs) = xs"
proof (induction xs)
  case (Cons x xs)
  obtain a as where "split_cycles xs = a # as" by (meson list.exhaust split_cycles_nonempty)
  with Cons show ?case by (auto simp: Let_def)
qed simp

definition lastn :: "nat \<Rightarrow> 'a list \<Rightarrow> 'a list" where
  "lastn n xs = drop (length xs - n) xs"

lemma lastn_snoc: "0 < n \<Longrightarrow> lastn n (xs @ [x]) = (if length xs < n then xs else drop (length xs + 1 - n) xs) @ [x]"
  by (auto simp: lastn_def)

lemma lastn_shift:
  assumes "0 < n"
  shows "lastn n (ys @ [y]) = (if length (lastn n ys) = n then tl (lastn n ys) else lastn n ys) @ [y]"
proof (cases "n \<le> length ys")
  case True
  then have "Suc (length ys) - n = Suc (length ys - n)" by simp
  then have "drop (Suc (length ys) - n) ys = tl (drop (length ys - n) ys)" by (simp add: drop_Suc tl_drop)
  with True assms show ?thesis by (simp add: lastn_def)
qed (simp add: lastn_def)

fun append_all ::
    "int \<Rightarrow> 'p debugger \<Rightarrow> 'p debuggerEntry list \<Rightarrow> ('p checked_panic, 'p debugger) outcome" where
  "append_all cycles d [] = Ret d"
| "append_all cycles d (e # es) =
     bind_outcome (debugger_append cycles d (event e) (eref e) (stamp e)) (\<lambda>d. append_all cycles d es)"

lemma append_all_snoc:
  "append_all cycles d (es @ [e]) =
     bind_outcome (append_all cycles d es) (\<lambda>d. debugger_append cycles d (event e) (eref e) (stamp e))"
proof (induction es arbitrary: d)
  case Nil
  show ?case by (cases "debugger_append cycles d (event e) (eref e) (stamp e)") simp_all
next
  case (Cons x es)
  show ?case by (cases "debugger_append cycles d (event x) (eref x) (stamp x)") (simp_all add: Cons)
qed

lemma debugger_append_step:
  assumes "entries d = ps @ [z]" and "ecap d = cycles" and "int (length ps) < cycles"
  shows "debugger_append cycles d (event e) (eref e) (stamp e) =
    Ret (d\<lparr>entries :=
      (if event e = finalizeEvent
       then (if int (length ps) + 1 = cycles then tl (ps @ [z @ [e]]) else ps @ [z @ [e]]) @ [[]]
       else ps @ [z @ [e]])\<rparr>)"
proof -
  have e: "\<lparr>event = event e, eref = eref e, stamp = stamp e\<rparr> = e" by simp
  have "(tl (ps @ [z @ [e]]) @ [z @ [e]])[length ps := []] = tl (ps @ [z @ [e]]) @ [[]]"
    by (cases ps) (simp_all add: list_update_append)
  with assms show ?thesis by (auto simp: debugger_append_def Let_def e)
qed

lemma debugger_append_first:
  "1 \<le> cycles \<Longrightarrow> debugger_append cycles new_debugger ev rf p =
     debugger_append cycles \<lparr>entries = [[]], ecap = cycles\<rparr> ev rf p"
  by (simp add: debugger_append_def new_debugger_def Let_def)

lemma append_all_cycles:
  assumes "1 \<le> cycles"
  shows "append_all cycles \<lparr>entries = [[]], ecap = cycles\<rparr> xs =
    Ret \<lparr>entries = lastn (nat cycles) (split_cycles xs), ecap = cycles\<rparr>"
proof (induction xs rule: rev_induct)
  case Nil
  show ?case using assms by (simp add: lastn_def)
next
  case (snoc x xs)
  let ?n = "nat cycles"
  obtain qs z where s: "split_cycles xs = qs @ [z]" by (metis append_butlast_last_id split_cycles_nonempty)
  define ps where "ps = (if length qs < ?n then qs else drop (length qs + 1 - ?n) qs)"
  have n: "0 < ?n" using assms by simp
  have l: "lastn ?n (split_cycles xs) = ps @ [z]" by (simp add: s ps_def lastn_snoc [OF n])
  have len: "length ps < ?n" "length ps + 1 = ?n \<longleftrightarrow> ?n \<le> length qs + 1"
    using n by (auto simp: ps_def)
  have step: "debugger_append cycles \<lparr>entries = ps @ [z], ecap = cycles\<rparr> (event x) (eref x) (stamp x) =
      Ret \<lparr>entries = lastn ?n (split_cycles (xs @ [x])), ecap = cycles\<rparr>"
  proof (cases "event x = finalizeEvent")
    case True
    have "lastn ?n ((qs @ [z @ [x]]) @ [[]]) =
        (if length ps + 1 = ?n then tl (ps @ [z @ [x]]) else ps @ [z @ [x]]) @ [[]]"
      using lastn_shift [OF n, of "qs @ [z @ [x]]"] by (simp add: lastn_snoc [OF n, of qs] ps_def [symmetric])
    with True len assms show ?thesis
      by (subst debugger_append_step [where ps = ps and z = z]) (auto simp: split_cycles_snoc s)
  next
    case False
    have "lastn ?n (qs @ [z @ [x]]) = ps @ [z @ [x]]" by (simp add: ps_def lastn_snoc [OF n])
    with False len assms show ?thesis
      by (subst debugger_append_step [where ps = ps and z = z]) (auto simp: split_cycles_snoc s)
  qed
  show ?case by (simp add: append_all_snoc snoc l step)
qed

lemma debugger_entries_rev: "debugger_entries d = rev (concat (entries d))"
  by (simp add: debugger_entries_def rev_concat rev_map)

text \<open>When the number of cycles is raised while a debugger has filled its slice, the next finalize
  event reslices beyond the capacity.\<close>

lemma debugger_append_more_cycles:
  assumes "entries d \<noteq> []" and "int (length (entries d)) = ecap d" and "ecap d < cycles"
  shows "debugger_append cycles d finalizeEvent rf p = Panic SliceBounds"
  using assms by (auto simp: debugger_append_def Let_def)

section \<open>Sequences of operations\<close>

datatype ref_op = OIncRef | ODecRef | OMoveRef | OFinalize | OIncReads | ODecReads | OIncWrites | ODecWrites

text \<open>One operation; the finalizer that a finalize calls is not looked at.\<close>

fun ref_step ::
    "globals \<Rightarrow> 'p \<Rightarrow> ref_op \<Rightarrow> ('f, 'p) RefCount \<Rightarrow> ('p checked_panic, unit) outcome \<times> ('f, 'p) RefCount" where
  "ref_step g p OIncRef c = IncRef g p c"
| "ref_step g p ODecRef c = DecRef g p c"
| "ref_step g p OMoveRef c = MoveRef g p c"
| "ref_step g p OFinalize c = andthen (RefCount_Finalize g p c) (\<lambda>_ c. (Ret (), c))"
| "ref_step g p OIncReads c = IncReads g p c"
| "ref_step g p ODecReads c = DecReads g p c"
| "ref_step g p OIncWrites c = IncWrites g p c"
| "ref_step g p ODecWrites c = DecWrites g p c"

fun ref_run ::
    "globals \<Rightarrow> 'p \<Rightarrow> ref_op list \<Rightarrow> ('f, 'p) RefCount \<Rightarrow> ('p checked_panic, unit) outcome \<times> ('f, 'p) RefCount" where
  "ref_run g p [] c = (Ret (), c)"
| "ref_run g p (op # ops) c = andthen (ref_step g p op c) (\<lambda>_ c. ref_run g p ops c)"

lemma ref_run_snoc: "ref_run g p (ops @ [op]) c = andthen (ref_run g p ops c) (\<lambda>_ c. ref_step g p op c)"
proof (induction ops arbitrary: c)
  case Nil
  show ?case by (cases "ref_step g p op c") (auto simp: andthen_def split: outcome.split)
next
  case (Cons x ops)
  show ?case by (simp add: Cons andthen_def split: prod.split outcome.split)
qed

definition balance :: "ref_op \<Rightarrow> ref_op \<Rightarrow> ref_op list \<Rightarrow> int" where
  "balance i d ops = int (count_list ops i) - int (count_list ops d)"

abbreviation refs_at :: "ref_op list \<Rightarrow> int" where "refs_at \<equiv> balance OIncRef ODecRef"
abbreviation reads_at :: "ref_op list \<Rightarrow> int" where "reads_at \<equiv> balance OIncReads ODecReads"
abbreviation writes_at :: "ref_op list \<Rightarrow> int" where "writes_at \<equiv> balance OIncWrites ODecWrites"

text \<open>What an operation demands of the operations before it.\<close>

fun allowed :: "ref_op list \<Rightarrow> ref_op \<Rightarrow> bool" where
  "allowed pre ODecRef \<longleftrightarrow> 0 < refs_at pre"
| "allowed pre OFinalize \<longleftrightarrow> refs_at pre = 0"
| "allowed pre OIncReads \<longleftrightarrow> reads_at pre < 0 \<or> 0 < refs_at pre"
| "allowed pre ODecReads \<longleftrightarrow> 0 < refs_at pre"
| "allowed pre OIncWrites \<longleftrightarrow> writes_at pre < 0 \<or> writes_at pre = 0 \<and> 0 < refs_at pre"
| "allowed pre ODecWrites \<longleftrightarrow> 0 < refs_at pre"
| "allowed pre _ \<longleftrightarrow> True"

definition disciplined :: "ref_op list \<Rightarrow> bool" where
  "disciplined ops \<longleftrightarrow> (\<forall>pre op post. ops = pre @ op # post \<longrightarrow> allowed pre op)"

lemma disciplined_snoc: "disciplined (ops @ [op]) \<longleftrightarrow> disciplined ops \<and> allowed ops op"
proof
  assume a: "disciplined (ops @ [op])"
  have "allowed pre x" if "ops = pre @ x # post" for pre x post
    using a that unfolding disciplined_def by (metis append.assoc append_Cons)
  moreover have "allowed ops op" using a unfolding disciplined_def by blast
  ultimately show "disciplined ops \<and> allowed ops op" unfolding disciplined_def by blast
next
  assume a: "disciplined ops \<and> allowed ops op"
  have "allowed pre x" if e: "ops @ [op] = pre @ x # post" for pre x post
  proof (cases post rule: rev_cases)
    case Nil
    with e a show ?thesis by simp
  next
    case (snoc post' y)
    with e have "ops = pre @ x # post'" by simp
    with a show ?thesis unfolding disciplined_def by blast
  qed
  then show "disciplined (ops @ [op])" unfolding disciplined_def by blast
qed

lemma balance_bound: "abs (balance i d ops) \<le> int (length ops)"
  using count_le_length [of ops i] count_le_length [of ops d] by (simp add: balance_def)

lemma balance_snoc:
  "i \<noteq> d \<Longrightarrow> balance i d (ops @ [op]) =
     balance i d ops + (if op = i then 1 else if op = d then - 1 else 0)"
  by (simp add: balance_def)

text \<open>The state after a sequence of operations, when tracebacks are off.\<close>

definition counts_at :: "ref_op list \<Rightarrow> ('f, 'p) RefCount" where
  "counts_at ops = \<lparr>ref = refs_at ops, reads = reads_at ops, writes = writes_at ops, finalizer = None\<rparr>"

lemma ref_step_counts:
  assumes "\<not> traceback g" and "\<forall>v. panicFn g v" and "length ops + 1 < 2 ^ 31"
  shows "(\<exists>x. fst (ref_step g p op (counts_at ops :: ('f, 'p) RefCount)) = Panic x) \<longleftrightarrow> \<not> allowed ops op"
    and "allowed ops op \<Longrightarrow> ref_step g p op (counts_at ops :: ('f, 'p) RefCount) = (Ret (), counts_at (ops @ [op]))"
proof -
  have "wrap32 (balance i d ops + 1) = balance i d ops + 1" "wrap32 (balance i d ops - 1) = balance i d ops - 1"
    for i d
  proof -
    have "abs (balance i d ops) < 2147483647" using balance_bound [of i d ops] assms(3) by simp
    then show "wrap32 (balance i d ops + 1) = balance i d ops + 1" "wrap32 (balance i d ops - 1) = balance i d ops - 1"
      by (auto intro!: wrap32_id simp: int32_ok_iff)
  qed
  note w = this
  note defs = IncRef_def DecRef_def MoveRef_def RefCount_Finalize_def IncReads_def DecReads_def
    IncWrites_def DecWrites_def tracebackEvent_def check_def panicRef_def andthen_def counts_at_def
    NumRef_def Let_def
  show "(\<exists>x. fst (ref_step g p op (counts_at ops :: ('f, 'p) RefCount)) = Panic x) \<longleftrightarrow> \<not> allowed ops op"
    using assms(1,2) by (cases op) (auto simp: defs w)
  show "ref_step g p op (counts_at ops :: ('f, 'p) RefCount) = (Ret (), counts_at (ops @ [op]))" if "allowed ops op"
    using assms(1,2) that by (cases op) (auto simp: defs w balance_snoc)
qed

lemma ref_run_iff:
  assumes "\<not> traceback g" and "\<forall>v. panicFn g v" and "length ops < 2 ^ 31"
    and c0: "c0 = (new_RefCount :: ('f, 'p) RefCount)"
  shows "(if disciplined ops then ref_run g p ops c0 = (Ret (), counts_at ops)
          else \<exists>x. fst (ref_run g p ops c0) = Panic x)"
  using assms(3)
proof (induction ops rule: rev_induct)
  case Nil
  show ?case by (simp add: disciplined_def c0 new_RefCount_def counts_at_def balance_def)
next
  case (snoc op ops)
  then have IH: "if disciplined ops then ref_run g p ops c0 = (Ret (), counts_at ops)
      else \<exists>x. fst (ref_run g p ops c0) = Panic x" by simp
  show ?case
  proof (cases "disciplined ops")
    case True
    have l: "length ops + 1 < 2 ^ 31" using snoc.prems by simp
    have run: "ref_run g p (ops @ [op]) c0 = ref_step g p op (counts_at ops)"
      using IH True by (simp add: ref_run_snoc andthen_def)
    show ?thesis using ref_step_counts [OF assms(1,2) l, where op = op and p = p and 'f = 'f] True
      by (simp add: run disciplined_snoc)
  next
    case False
    with IH obtain x c where "ref_run g p ops c0 = (Panic x, c)" by (auto simp: prod_eq_iff)
    with False show ?thesis by (simp add: ref_run_snoc disciplined_snoc andthen_def)
  qed
qed

section \<open>Brackets of the checked bytes\<close>

definition usable :: "globals \<Rightarrow> ('f, 'p) bytesRef \<Rightarrow> bool" where
  "usable g b \<longleftrightarrow> \<not> traceback g \<and> (\<forall>v. panicFn g v) \<and> 1 \<le> ref (rc b) \<and> writes (rc b) = 0 \<and>
     0 \<le> reads (rc b) \<and> reads (rc b) < 2 ^ 31 - 1"

lemmas bracket_defs = reading_def writing_def on_rc_def IncReads_def DecReads_def IncWrites_def DecWrites_def
  tracebackEvent_def check_def panicRef_def andthen_def NumRef_def Let_def

lemma reading_usable: "usable g b \<Longrightarrow> reading g p f b = (Ret (f (val b)), b)"
  by (simp add: usable_def bracket_defs wrap32_id int32_ok_iff)

lemma writing_usable:
  "usable g b \<Longrightarrow> writing g p f b =
     (case f (val b) of Some v \<Rightarrow> (Ret (), b\<lparr>val := v\<rparr>)
      | None \<Rightarrow> (Panic SliceBounds, b\<lparr>rc := (rc b)\<lparr>writes := 1\<rparr>\<rparr>))"
  by (simp add: usable_def bracket_defs wrap32_id int32_ok_iff split: option.split)

lemma writing_stuck:
  assumes "usable g b" and "b' = b\<lparr>rc := (rc b)\<lparr>writes := 1\<rparr>\<rparr>"
  shows "fst (writing g p f b') = Panic (Violation (DoubleWrite 2 (ref (rc b))) None)"
  using assms by (simp add: usable_def bracket_defs wrap32_id int32_ok_iff)

lemma reading_freed:
  assumes "\<not> traceback g" and "\<forall>v. panicFn g v" and "ref (rc b) < 1" and "0 \<le> reads (rc b)" and "reads (rc b) < 2 ^ 31 - 1"
  shows "fst (reading g p f b) = Panic (Violation (ReadAfterFree (reads (rc b) + 1) (ref (rc b))) None)"
  using assms by (simp add: bracket_defs wrap32_id int32_ok_iff)

lemma append_bytes_contents:
  "blen s \<le> bcap s \<Longrightarrow> slice_bytes (append_bytes grow s vs) = slice_bytes s @ vs"
  by (simp add: append_bytes_def slice_bytes_def bcap_def Let_def)

lemma Bytes_Finalize_unchecked:
  "Bytes_Finalize (b\<lparr>rc := c\<rparr>) = Bytes_Finalize b"
  by (simp add: Bytes_Finalize_def)

section \<open>Properties\<close>

text \<open>
  C21: with the default panic function and tracebacks off, a sequence of fewer than \<open>2 ^ 31\<close> operations on a new
  entity runs without a panic exactly when it is disciplined: a reference is dropped, and a read or
  write finished, only while references are held, a read or write is begun only while references are
  held and a write only when no write is in progress (unless more were finished than begun), and the
  entity is finalized only when no reference is held.  The counters are then the balances.
\<close>

theorem RefCount_panics_iff:
  assumes "\<not> traceback g" and "\<forall>v. panicFn g v" and "length ops < 2 ^ 31"
    and "ref_run g p ops new_RefCount = (out, c :: ('f, 'p) RefCount)"
  shows "(out = Ret () \<longleftrightarrow> disciplined ops) \<and> (disciplined ops \<longrightarrow> c = counts_at ops)"
  using ref_run_iff [OF assms(1-3) refl, where 'f = 'f and p = p] assms(4) by (auto split: if_splits)

theorem RefCount_panics_iff_witness:
  "\<exists>out c. ref_run default_globals () [OIncRef, OIncReads, ODecRef, ODecReads]
     (new_RefCount :: (unit, unit) RefCount) = (out, c) \<and> out \<noteq> Ret ()"
proof -
  let ?ops = "[OIncRef, OIncReads, ODecRef, ODecReads]"
  obtain out c where r: "ref_run default_globals () ?ops (new_RefCount :: (unit, unit) RefCount) = (out, c)"
    by force
  have "\<not> disciplined [OIncRef, OIncReads, ODecRef, ODecReads]"
    unfolding disciplined_def not_all
    by (rule exI [of _ "[OIncRef, OIncReads, ODecRef]"], rule exI [of _ ODecReads], rule exI [of _ "[]"])
      (simp add: balance_def)
  moreover have "\<not> traceback default_globals" "\<forall>v. panicFn default_globals v"
    by (simp_all add: default_globals_def)
  ultimately have "out \<noteq> Ret ()" using RefCount_panics_iff [OF _ _ _ r] by simp
  with r show ?thesis by blast
qed

text \<open>
  C22: checked bytes that are referenced and not being written behave like the plain slice: reading returns
  the contents, appending extends them, resizing within the capacity cuts or extends into the array,
  and all leave the counters as they were.  Resizing beyond the capacity panics after the writer was
  counted and before it is discounted: every later write then panics as a double write.
\<close>

theorem Bytes_contract:
  assumes "usable g b" and "blen (val b) \<le> bcap (val b)"
  shows "Bytes_Bytes g p b = (Ret (slice_bytes (val b)), b) \<and>
    (\<exists>b'. Bytes_AppendAll grow g p xs b = (Ret (), b') \<and> rc b' = rc b \<and>
       Bytes_Bytes g p b' = (Ret (slice_bytes (val b) @ xs), b')) \<and>
    (if 0 \<le> n \<and> n \<le> int (bcap (val b)) then
       \<exists>b'. Bytes_Resize g p n b = (Ret (), b') \<and> rc b' = rc b \<and>
         Bytes_Bytes g p b' = (Ret (take (nat n) (buf (val b))), b')
     else
       \<exists>b'. Bytes_Resize g p n b = (Panic SliceBounds, b') \<and> val b' = val b \<and>
         (\<exists>x. fst (Bytes_AppendAll grow g p xs b') = Panic (Violation (DoubleWrite 2 x) None)))"
proof -
  have u: "usable g (b\<lparr>val := v\<rparr>)" for v using assms(1) by (simp add: usable_def)
  note defs = Bytes_Bytes_def Bytes_AppendAll_def Bytes_Resize_def
  have 1: "Bytes_Bytes g p b = (Ret (slice_bytes (val b)), b)"
    by (simp add: defs reading_usable assms(1))
  have 2: "Bytes_AppendAll grow g p xs b = (Ret (), b\<lparr>val := append_bytes grow (val b) xs\<rparr>)"
    by (simp add: defs writing_usable assms(1))
  have 3: "Bytes_Resize g p n b =
      (if 0 \<le> n \<and> n \<le> int (bcap (val b)) then (Ret (), b\<lparr>val := (val b)\<lparr>blen := nat n\<rparr>\<rparr>)
       else (Panic SliceBounds, b\<lparr>rc := (rc b)\<lparr>writes := 1\<rparr>\<rparr>))"
    by (simp add: defs writing_usable assms(1))
  show ?thesis
    unfolding 1 2 3
    using append_bytes_contents [OF assms(2)] writing_stuck [OF assms(1) refl]
    by (simp add: Bytes_Bytes_def Bytes_AppendAll_def reading_usable u) (simp add: slice_bytes_def)
qed

definition ex_bytes :: "(unit, unit) bytesRef" where
  "ex_bytes = \<lparr>rc = \<lparr>ref = 1, reads = 0, writes = 0, finalizer = None\<rparr>, opts = None,
     val = \<lparr>buf = [1, 2, 3], blen = 2\<rparr>\<rparr>"

theorem Bytes_contract_witness:
  "\<exists>b' x. Bytes_Resize default_globals () 4 ex_bytes = (Panic SliceBounds, b') \<and>
     fst (Bytes_AppendAll (\<lambda>n. n) default_globals () [7] b') = Panic (Violation (DoubleWrite 2 x) None)"
proof -
  have "usable default_globals ex_bytes" "blen (val ex_bytes) \<le> bcap (val ex_bytes)"
    by (simp_all add: usable_def default_globals_def ex_bytes_def bcap_def)
  from Bytes_contract [OF this, of "()" "\<lambda>n. n" "[7]" 4] show ?thesis
    by (auto simp: ex_bytes_def bcap_def)
qed

text \<open>
  C23: with a fixed positive number of cycles the traceback debugger never panics, and what it prints are the events
  of the last cycles, latest first, where a cycle ends with a finalize event.
\<close>

theorem debugger_keeps_last_cycles:
  assumes "1 \<le> cycles" and "xs \<noteq> []"
  shows "\<exists>d. append_all cycles new_debugger xs = Ret d \<and>
    debugger_entries d = rev (concat (lastn (nat cycles) (split_cycles xs))) \<and>
    debugger_String sh d = concat (map sh (rev (concat (lastn (nat cycles) (split_cycles xs)))))"
proof -
  have "append_all cycles new_debugger xs = append_all cycles \<lparr>entries = [[]], ecap = cycles\<rparr> xs"
    using assms by (cases xs) (simp_all add: debugger_append_first)
  with append_all_cycles [OF assms(1), of xs] show ?thesis
    by (simp add: debugger_entries_rev debugger_String_def)
qed

theorem debugger_keeps_last_cycles_witness:
  "\<exists>d. append_all 1 new_debugger
      [\<lparr>event = incRefEvent, eref = 1, stamp = ()\<rparr>, \<lparr>event = finalizeEvent, eref = 0, stamp = ()\<rparr>,
       \<lparr>event = incRefEvent, eref = 1, stamp = ()\<rparr>] = Ret d \<and>
     debugger_entries d = [\<lparr>event = incRefEvent, eref = 1, stamp = ()\<rparr>]"
  using debugger_keeps_last_cycles [of 1 "[\<lparr>event = incRefEvent, eref = 1, stamp = ()\<rparr>,
     \<lparr>event = finalizeEvent, eref = 0, stamp = ()\<rparr>, \<lparr>event = incRefEvent, eref = 1, stamp = ()\<rparr>]"]
  by (fastforce simp: Let_def lastn_def)

end
