(* ===== verification/Pool.thy ===== *)
theory Pool
  imports Float64 Checked
begin

text \<open>
  The object pool of the package \<^verbatim>\<open>pool\<close> (\<^verbatim>\<open>options.go\<close>, \<^verbatim>\<open>object.go\<close>, the object part of \<^verbatim>\<open>config.go\<close>).

  The buffered channel is a list with a capacity: the head is received next.  An allocator acts on a state
  \<open>'s\<close> of its own (the bytes pool is the state of the allocator of a checked bytes pool) and may panic.
  The goroutine started by \<^verbatim>\<open>tryFill\<close> runs interleaved with the other operations, one iteration
  of its loop at a time.
\<close>

datatype pool_error = errPoolAlreadyInitialized | errPoolGetBeforeInitialized | errPoolPutBeforeInitialized

datatype pool_panic = PoolAccess pool_error | NilFunctionCall | MakeSize | TypeAssertion | CheckedPanic "unit checked_panic"

section \<open>Options\<close>

text \<open>\<open>onPoolAccessErrorFn e\<close> says whether the error function panics on \<open>e\<close>; \<open>'io\<close> is \<^verbatim>\<open>instrument.Options\<close>.\<close>

record 'io objectPoolOptions =
  o_size :: int
  o_refillLowWatermark :: float64
  o_refillHighWatermark :: float64
  o_instrumentOpts :: 'io
  o_onPoolAccessErrorFn :: "pool_error \<Rightarrow> bool"

definition defaultSize :: int where "defaultSize = 4096"
definition defaultRefillLowWatermark :: float64 where "defaultRefillLowWatermark = Fin 0"
definition defaultRefillHighWatermark :: float64 where "defaultRefillHighWatermark = Fin 0"

definition NewObjectPoolOptions :: "'io \<Rightarrow> 'io objectPoolOptions" where
  "NewObjectPoolOptions iopts =
     \<lparr>o_size = defaultSize, o_refillLowWatermark = defaultRefillLowWatermark,
      o_refillHighWatermark = defaultRefillHighWatermark, o_instrumentOpts = iopts,
      o_onPoolAccessErrorFn = (\<lambda>_. True)\<rparr>"

definition pool_SetSize :: "'io objectPoolOptions \<Rightarrow> int \<Rightarrow> 'io objectPoolOptions" where
  [opt_field]: "pool_SetSize os v = os\<lparr>o_size := v\<rparr>"

definition pool_Size :: "'io objectPoolOptions \<Rightarrow> int" where
  [opt_field]: "pool_Size os = o_size os"

definition pool_SetRefillLowWatermark :: "'io objectPoolOptions \<Rightarrow> float64 \<Rightarrow> 'io objectPoolOptions" where
  [opt_field]: "pool_SetRefillLowWatermark os v = os\<lparr>o_refillLowWatermark := v\<rparr>"

definition pool_RefillLowWatermark :: "'io objectPoolOptions \<Rightarrow> float64" where
  [opt_field]: "pool_RefillLowWatermark os = o_refillLowWatermark os"

definition pool_SetRefillHighWatermark :: "'io objectPoolOptions \<Rightarrow> float64 \<Rightarrow> 'io objectPoolOptions" where
  [opt_field]: "pool_SetRefillHighWatermark os v = os\<lparr>o_refillHighWatermark := v\<rparr>"

definition pool_RefillHighWatermark :: "'io objectPoolOptions \<Rightarrow> float64" where
  [opt_field]: "pool_RefillHighWatermark os = o_refillHighWatermark os"

definition pool_SetInstrumentOptions :: "'io objectPoolOptions \<Rightarrow> 'io \<Rightarrow> 'io objectPoolOptions" where
  [opt_field]: "pool_SetInstrumentOptions os v = os\<lparr>o_instrumentOpts := v\<rparr>"

definition pool_InstrumentOptions :: "'io objectPoolOptions \<Rightarrow> 'io" where
  [opt_field]: "pool_InstrumentOptions os = o_instrumentOpts os"

definition pool_SetOnPoolAccessErrorFn ::
    "'io objectPoolOptions \<Rightarrow> (pool_error \<Rightarrow> bool) \<Rightarrow> 'io objectPoolOptions" where
  [opt_field]: "pool_SetOnPoolAccessErrorFn os v = os\<lparr>o_onPoolAccessErrorFn := v\<rparr>"

definition pool_OnPoolAccessErrorFn :: "'io objectPoolOptions \<Rightarrow> pool_error \<Rightarrow> bool" where
  [opt_field]: "pool_OnPoolAccessErrorFn os = o_onPoolAccessErrorFn os"

interpretation pf_size: option_field pool_Size pool_SetSize
  by unfold_locales (simp_all add: opt_field)

interpretation pf_low: option_field pool_RefillLowWatermark pool_SetRefillLowWatermark
  by unfold_locales (simp_all add: opt_field)

interpretation pf_high: option_field pool_RefillHighWatermark pool_SetRefillHighWatermark
  by unfold_locales (simp_all add: opt_field)

interpretation pf_instrument: option_field pool_InstrumentOptions pool_SetInstrumentOptions
  by unfold_locales (simp_all add: opt_field)

interpretation pf_error: option_field pool_OnPoolAccessErrorFn pool_SetOnPoolAccessErrorFn
  by unfold_locales (simp_all add: opt_field)

record WatermarkConfiguration =
  wc_RefillLowWatermark :: float64
  wc_RefillHighWatermark :: float64

record ObjectPoolConfiguration =
  oc_Size :: int
  oc_Watermark :: WatermarkConfiguration

definition ObjectPoolConfiguration_NewObjectPoolOptions ::
    "'io \<Rightarrow> ObjectPoolConfiguration \<Rightarrow> 'io \<Rightarrow> 'io objectPoolOptions" where
  "ObjectPoolConfiguration_NewObjectPoolOptions dflt c iopts =
     (let sz = (if oc_Size c \<noteq> 0 then oc_Size c else defaultSize) in
      pool_SetRefillHighWatermark
        (pool_SetRefillLowWatermark
          (pool_SetSize (pool_SetInstrumentOptions (NewObjectPoolOptions dflt) iopts) sz)
          (wc_RefillLowWatermark (oc_Watermark c)))
        (wc_RefillHighWatermark (oc_Watermark c)))"

section \<open>The object pool\<close>

type_synonym ('s, 'v) allocator = "'s \<Rightarrow> (pool_panic, 'v) outcome \<times> 's"

record objectPoolMetrics =
  free :: int
  total :: int
  getOnEmpty :: nat
  putOnFull :: nat

record ('io, 's, 'v) objectPool =
  p_opts :: "'io objectPoolOptions"
  p_values :: "'v list"
  p_cap :: nat
  p_alloc :: "('s, 'v) allocator option"
  p_size :: int
  refillLowWatermark :: int
  refillHighWatermark :: int
  filling :: bool
  initialized :: bool
  dice :: int
  p_metrics :: objectPoolMetrics

text \<open>\<^verbatim>\<open>int(math.Ceil(w * float64(size)))\<close>.\<close>

definition float_ceil :: "float64 \<Rightarrow> float64" where
  "float_ceil x = (case x of Fin r \<Rightarrow> Fin (of_int \<lceil>r\<rceil>) | _ \<Rightarrow> x)"

definition watermark :: "int \<Rightarrow> float64 \<Rightarrow> int \<Rightarrow> int" where
  "watermark indef w sz = float_to_signed 64 indef (float_ceil (float_mul w (float_of_int sz)))"

definition setGauges :: "('io, 's, 'v) objectPool \<Rightarrow> ('io, 's, 'v) objectPool" where
  "setGauges p = p\<lparr>p_metrics := (p_metrics p)\<lparr>free := int (length (p_values p)), total := p_size p\<rparr>\<rparr>"

definition trySetGauges :: "('io, 's, 'v) objectPool \<Rightarrow> ('io, 's, 'v) objectPool" where
  "trySetGauges p =
     (let n = wrap32 (dice p + 1); p = p\<lparr>dice := n\<rparr> in if n smod 100 = 0 then setGauges p else p)"

text \<open>\<open>dflt\<close> is \<^verbatim>\<open>instrument.NewOptions()\<close>, used when no options are given.\<close>

definition NewObjectPool ::
    "int \<Rightarrow> 'io \<Rightarrow> 'io objectPoolOptions option \<Rightarrow> (pool_panic, ('io, 's, 'v) objectPool) outcome" where
  "NewObjectPool indef dflt oo =
     (let os = (case oo of None \<Rightarrow> NewObjectPoolOptions dflt | Some os \<Rightarrow> os) in
      if pool_Size os < 0 then Panic MakeSize
      else Ret (setGauges
        \<lparr>p_opts = os, p_values = [], p_cap = nat (pool_Size os), p_alloc = None, p_size = pool_Size os,
         refillLowWatermark = watermark indef (pool_RefillLowWatermark os) (pool_Size os),
         refillHighWatermark = watermark indef (pool_RefillHighWatermark os) (pool_Size os),
         filling = False, initialized = False, dice = 0,
         p_metrics = \<lparr>free = 0, total = 0, getOnEmpty = 0, putOnFull = 0\<rparr>\<rparr>))"

text \<open>The result of an operation: its outcome, the pool and the state of the allocator.\<close>

type_synonym ('io, 's, 'v, 'a) pool_result = "(pool_panic, 'a) outcome \<times> ('io, 's, 'v) objectPool \<times> 's"

definition call_alloc :: "('io, 's, 'v) objectPool \<Rightarrow> 's \<Rightarrow> (pool_panic, 'v) outcome \<times> 's" where
  "call_alloc p s = (case p_alloc p of None \<Rightarrow> (Panic NilFunctionCall, s) | Some f \<Rightarrow> f s)"

text \<open>The loop of \<^verbatim>\<open>Init\<close>: \<open>n\<close> sends into a channel that has room for them.\<close>

fun init_fill :: "nat \<Rightarrow> ('io, 's, 'v) objectPool \<Rightarrow> 's \<Rightarrow> ('io, 's, 'v, unit) pool_result" where
  "init_fill 0 p s = (Ret (), p, s)"
| "init_fill (Suc n) p s =
     (case call_alloc p s of
        (Panic e, s) \<Rightarrow> (Panic e, p, s)
      | (Ret v, s) \<Rightarrow> init_fill n (p\<lparr>p_values := p_values p @ [v]\<rparr>) s)"

definition access_error :: "pool_error \<Rightarrow> ('io, 's, 'v) objectPool \<Rightarrow> 's \<Rightarrow> ('io, 's, 'v, unit) pool_result" where
  "access_error e p s =
     (if pool_OnPoolAccessErrorFn (p_opts p) e then (Panic (PoolAccess e), p, s) else (Ret (), p, s))"

definition objectPool_Init ::
    "('s, 'v) allocator \<Rightarrow> ('io, 's, 'v) objectPool \<Rightarrow> 's \<Rightarrow> ('io, 's, 'v, unit) pool_result" where
  "objectPool_Init alloc p s =
     (if initialized p then access_error errPoolAlreadyInitialized p s
      else
        (case init_fill (p_cap p) (p\<lparr>initialized := True, p_alloc := Some alloc\<rparr>) s of
           (Panic e, p, s) \<Rightarrow> (Panic e, p, s)
         | (Ret u, p, s) \<Rightarrow> (Ret (), setGauges p, s)))"

definition tryFill :: "('io, 's, 'v) objectPool \<Rightarrow> ('io, 's, 'v) objectPool" where
  "tryFill p = (if filling p then p else p\<lparr>filling := True\<rparr>)"

text \<open>One iteration of the goroutine's loop; it clears \<open>filling\<close> when the loop ends.\<close>

definition fill_step :: "('io, 's, 'v) objectPool \<Rightarrow> 's \<Rightarrow> ('io, 's, 'v, unit) pool_result" where
  "fill_step p s =
     (if \<not> filling p then (Ret (), p, s)
      else if int (length (p_values p)) < refillHighWatermark p then
        (case call_alloc p s of
           (Panic e, s) \<Rightarrow> (Panic e, p\<lparr>filling := False\<rparr>, s)
         | (Ret v, s) \<Rightarrow>
             (if length (p_values p) < p_cap p then (Ret (), p\<lparr>p_values := p_values p @ [v]\<rparr>, s)
              else (Ret (), p\<lparr>filling := False\<rparr>, s)))
      else (Ret (), p\<lparr>filling := False\<rparr>, s))"

definition objectPool_Get :: "('io, 's, 'v) objectPool \<Rightarrow> 's \<Rightarrow> ('io, 's, 'v, 'v) pool_result" where
  "objectPool_Get p s =
     (if \<not> initialized p then
        (case access_error errPoolGetBeforeInitialized p s of
           (Panic e, p, s) \<Rightarrow> (Panic e, p, s)
         | (Ret u, p, s) \<Rightarrow> (case call_alloc p s of (x, s) \<Rightarrow> (x, p, s)))
      else
        (let (x, p, s) =
           (case p_values p of
              v # vs \<Rightarrow> (Ret v, p\<lparr>p_values := vs\<rparr>, s)
            | [] \<Rightarrow> (case call_alloc p s of
                 (Panic e, s) \<Rightarrow> (Panic e, p, s)
               | (Ret v, s) \<Rightarrow>
                   (Ret v, p\<lparr>p_metrics := (p_metrics p)\<lparr>getOnEmpty := getOnEmpty (p_metrics p) + 1\<rparr>\<rparr>, s)))
         in case x of Panic e \<Rightarrow> (Panic e, p, s)
            | Ret v \<Rightarrow>
                (let p = trySetGauges p in
                 (Ret v,
                  if refillLowWatermark p > 0 \<and> int (length (p_values p)) \<le> refillLowWatermark p
                  then tryFill p else p, s))))"

definition objectPool_Put :: "'v \<Rightarrow> ('io, 's, 'v) objectPool \<Rightarrow> 's \<Rightarrow> ('io, 's, 'v, unit) pool_result" where
  "objectPool_Put obj p s =
     (if \<not> initialized p then access_error errPoolPutBeforeInitialized p s
      else
        (Ret (), trySetGauges
           (if length (p_values p) < p_cap p then p\<lparr>p_values := p_values p @ [obj]\<rparr>
            else p\<lparr>p_metrics := (p_metrics p)\<lparr>putOnFull := putOnFull (p_metrics p) + 1\<rparr>\<rparr>), s))"

section \<open>Contents of a pool\<close>

text \<open>
  What a client of a pool relies on: an allocator whose objects satisfy \<open>good\<close> for allocator states that
  satisfy \<open>I\<close>, which it keeps, and which does not panic there.
\<close>

locale good_allocator =
  fixes alloc :: "('s, 'v) allocator" and I :: "'s \<Rightarrow> bool" and good :: "'v \<Rightarrow> bool"
  assumes alloc_good: "I s \<Longrightarrow> \<exists>v s'. alloc s = (Ret v, s') \<and> good v \<and> I s'"
begin

definition pool_inv :: "('io, 's, 'v) objectPool \<Rightarrow> bool" where
  "pool_inv p \<longleftrightarrow> initialized p \<and> p_alloc p = Some alloc \<and> (\<forall>v\<in>set (p_values p). good v) \<and>
     length (p_values p) \<le> p_cap p"

lemma call_alloc_good:
  "pool_inv p \<Longrightarrow> I s \<Longrightarrow> \<exists>v s'. call_alloc p s = (Ret v, s') \<and> good v \<and> I s'"
  using alloc_good by (simp add: pool_inv_def call_alloc_def)

lemma pool_inv_cong:
  assumes "initialized p' = initialized p" and "p_alloc p' = p_alloc p" and "p_values p' = p_values p"
    and "p_cap p' = p_cap p"
  shows "pool_inv p' \<longleftrightarrow> pool_inv p"
  using assms by (simp add: pool_inv_def)

lemma gauges_inv: "pool_inv (trySetGauges p) \<longleftrightarrow> pool_inv p" "pool_inv (setGauges p) \<longleftrightarrow> pool_inv p"
  "pool_inv (tryFill p) \<longleftrightarrow> pool_inv p"
  by (rule pool_inv_cong; simp add: trySetGauges_def setGauges_def tryFill_def Let_def)+

lemma init_fill_good:
  "pool_inv p \<Longrightarrow> I s \<Longrightarrow> length (p_values p) + n = p_cap p \<Longrightarrow>
   \<exists>p' s'. init_fill n p s = (Ret (), p', s') \<and> pool_inv p' \<and> I s' \<and> length (p_values p') = p_cap p'"
proof (induction n arbitrary: p s)
  case (Suc n)
  obtain v s' where a: "call_alloc p s = (Ret v, s')" "good v" "I s'"
    using call_alloc_good [OF Suc.prems(1,2)] by blast
  let ?p = "p\<lparr>p_values := p_values p @ [v]\<rparr>"
  have "pool_inv ?p" "length (p_values ?p) + n = p_cap ?p"
    using Suc.prems a by (simp_all add: pool_inv_def)
  from Suc.IH [OF this(1) a(3) this(2)] a show ?case by simp
qed simp

lemma Init_good:
  assumes "\<not> initialized p" and "p_values p = []" and "I s"
  shows "\<exists>p' s'. objectPool_Init alloc p s = (Ret (), p', s') \<and> pool_inv p' \<and> I s' \<and>
    length (p_values p') = p_cap p'"
proof -
  let ?p = "p\<lparr>initialized := True, p_alloc := Some alloc\<rparr>"
  have "pool_inv ?p" "length (p_values ?p) + p_cap p = p_cap ?p" using assms by (simp_all add: pool_inv_def)
  from init_fill_good [OF this(1) assms(3) this(2)] obtain p' s' where
    f: "init_fill (p_cap p) ?p s = (Ret (), p', s')" "pool_inv p'" "I s'" "length (p_values p') = p_cap p'"
    by blast
  have "objectPool_Init alloc p s = (Ret (), setGauges p', s')"
    using assms(1) f(1) by (simp add: objectPool_Init_def)
  moreover have "pool_inv (setGauges p')" using f(2) gauges_inv(2) by blast
  moreover have "length (p_values (setGauges p')) = p_cap (setGauges p')" using f(4) by (simp add: setGauges_def)
  ultimately show ?thesis using f(3) by blast
qed

lemma Get_good:
  assumes "pool_inv p" and "I s"
  shows "\<exists>v p' s'. objectPool_Get p s = (Ret v, p', s') \<and> good v \<and> pool_inv p' \<and> I s' \<and>
    (\<forall>x xs. p_values p = x # xs \<longrightarrow> v = x \<and> p_values p' = xs \<and> s' = s) \<and>
    (p_values p = [] \<longrightarrow> p_values p' = [])"
proof (cases "p_values p")
  case (Cons x xs)
  let ?p = "trySetGauges (p\<lparr>p_values := xs\<rparr>)"
  have "pool_inv ?p" "good x" "p_values ?p = xs" "p_values (tryFill ?p) = xs" using assms(1) Cons
    by (simp_all add: gauges_inv, simp_all add: pool_inv_def trySetGauges_def setGauges_def tryFill_def Let_def)
  then show ?thesis using assms Cons
    by (auto simp: objectPool_Get_def pool_inv_def [of p] gauges_inv Let_def)
next
  case Nil
  obtain v s' where a: "call_alloc p s = (Ret v, s')" "good v" "I s'" using call_alloc_good [OF assms] by blast
  let ?q = "p\<lparr>p_metrics := (p_metrics p)\<lparr>getOnEmpty := getOnEmpty (p_metrics p) + 1\<rparr>\<rparr>"
  have "pool_inv ?q" using assms(1) by (simp add: pool_inv_def)
  moreover have "p_values (trySetGauges ?q) = []" "p_values (tryFill (trySetGauges ?q)) = []"
    using Nil by (simp_all add: trySetGauges_def setGauges_def tryFill_def Let_def)
  ultimately show ?thesis using assms Nil a
    by (auto simp: objectPool_Get_def pool_inv_def [of p] gauges_inv Let_def)
qed

lemma Put_good:
  assumes "pool_inv p" and "good obj"
  shows "\<exists>p'. objectPool_Put obj p s = (Ret (), p', s) \<and> pool_inv p' \<and>
    p_values p' = (if length (p_values p) < p_cap p then p_values p @ [obj] else p_values p)"
proof -
  let ?q = "if length (p_values p) < p_cap p then p\<lparr>p_values := p_values p @ [obj]\<rparr>
     else p\<lparr>p_metrics := (p_metrics p)\<lparr>putOnFull := putOnFull (p_metrics p) + 1\<rparr>\<rparr>"
  have "pool_inv ?q" using assms by (simp add: pool_inv_def)
  moreover have "p_values (trySetGauges ?q) = p_values ?q"
    by (simp add: trySetGauges_def setGauges_def Let_def)
  ultimately show ?thesis using assms(1)
    by (simp add: objectPool_Put_def pool_inv_def [of p] gauges_inv)
qed

lemma fill_good:
  assumes "pool_inv p" and "I s"
  shows "\<exists>p' s'. fill_step p s = (Ret (), p', s') \<and> pool_inv p' \<and> I s' \<and>
    (p_values p' = p_values p \<or> (\<exists>v. p_values p' = p_values p @ [v]))"
proof -
  obtain v s' where a: "call_alloc p s = (Ret v, s')" "good v" "I s'" using call_alloc_good [OF assms] by blast
  have "pool_inv (p\<lparr>filling := b\<rparr>)" for b using assms(1) by (simp add: pool_inv_def)
  moreover have "pool_inv (p\<lparr>p_values := p_values p @ [v]\<rparr>)" if "length (p_values p) < p_cap p"
    using assms(1) a(2) that by (simp add: pool_inv_def)
  ultimately show ?thesis using assms a by (simp add: fill_step_def)
qed

end

section \<open>Interleavings\<close>

text \<open>Operations of clients and iterations of the refilling goroutine, in any order; the run collects the
  objects the clients get.\<close>

datatype 'v pool_op = PGet | PPut 'v | PFill

fun pool_run ::
    "'v pool_op list \<Rightarrow> ('io, 's, 'v) objectPool \<Rightarrow> 's \<Rightarrow> ('io, 's, 'v, 'v list) pool_result" where
  "pool_run [] p s = (Ret [], p, s)"
| "pool_run (PGet # ops) p s =
     (case objectPool_Get p s of
        (Panic e, p, s) \<Rightarrow> (Panic e, p, s)
      | (Ret v, p, s) \<Rightarrow>
          (case pool_run ops p s of (Panic e, p, s) \<Rightarrow> (Panic e, p, s) | (Ret vs, p, s) \<Rightarrow> (Ret (v # vs), p, s)))"
| "pool_run (PPut v # ops) p s =
     (case objectPool_Put v p s of
        (Panic e, p, s) \<Rightarrow> (Panic e, p, s) | (Ret u, p, s) \<Rightarrow> pool_run ops p s)"
| "pool_run (PFill # ops) p s =
     (case fill_step p s of (Panic e, p, s) \<Rightarrow> (Panic e, p, s) | (Ret u, p, s) \<Rightarrow> pool_run ops p s)"

context good_allocator
begin

lemma pool_run_good:
  "pool_inv p \<Longrightarrow> I s \<Longrightarrow> (\<forall>v. PPut v \<in> set ops \<longrightarrow> good v) \<Longrightarrow>
   \<exists>vs p' s'. pool_run ops p s = (Ret vs, p', s') \<and> (\<forall>v\<in>set vs. good v) \<and> pool_inv p' \<and> I s'"
proof (induction ops arbitrary: p s)
  case (Cons op ops)
  show ?case
  proof (cases op)
    case PGet
    obtain v p1 s1 where g: "objectPool_Get p s = (Ret v, p1, s1)" "good v" "pool_inv p1" "I s1"
      using Get_good [OF Cons.prems(1,2)] by blast
    obtain vs p' s' where "pool_run ops p1 s1 = (Ret vs, p', s')" "\<forall>v\<in>set vs. good v" "pool_inv p'" "I s'"
      using Cons.IH [OF g(3,4)] Cons.prems(3) by auto
    with g PGet show ?thesis by simp
  next
    case (PPut v)
    then have "good v" using Cons.prems(3) by simp
    then obtain p1 where g: "objectPool_Put v p s = (Ret (), p1, s)" "pool_inv p1"
      using Put_good [OF Cons.prems(1)] by blast
    from Cons.IH [OF this(2) Cons.prems(2)] Cons.prems(3) g PPut show ?thesis by simp
  next
    case PFill
    obtain p1 s1 where g: "fill_step p s = (Ret (), p1, s1)" "pool_inv p1" "I s1"
      using fill_good [OF Cons.prems(1,2)] by blast
    from Cons.IH [OF g(2,3)] Cons.prems(3) g PFill show ?thesis by simp
  qed
qed simp

end

section \<open>Pools of objects with an identity\<close>

text \<open>
  An allocator of new objects: addresses that \<open>nxt\<close> counts.  \<open>out\<close> are the objects that clients hold; the pool and its
  clients never share one, and the pool holds none twice.
\<close>

locale fresh_allocator =
  fixes alloc :: "('s, nat) allocator" and nxt :: "'s \<Rightarrow> nat"
  assumes alloc_fresh: "\<exists>s'. alloc s = (Ret (nxt s), s') \<and> nxt s' = Suc (nxt s)"
begin

definition owns :: "('io, 's, nat) objectPool \<Rightarrow> 's \<Rightarrow> nat set \<Rightarrow> bool" where
  "owns p s out \<longleftrightarrow> initialized p \<and> p_alloc p = Some alloc \<and> distinct (p_values p) \<and> out \<inter> set (p_values p) = {} \<and>
     (\<forall>v\<in>out \<union> set (p_values p). v < nxt s)"

lemma owns_cong: "owns p s out \<Longrightarrow> nxt s' = nxt s \<Longrightarrow> owns p s' out"
  by (simp add: owns_def)

lemma init_fill_owns:
  "owns p s {} \<Longrightarrow> \<exists>p' s'. init_fill n p s = (Ret (), p', s') \<and> owns p' s' {} \<and> nxt s \<le> nxt s'"
proof (induction n arbitrary: p s)
  case (Suc n)
  obtain s1 where a: "alloc s = (Ret (nxt s), s1)" "nxt s1 = Suc (nxt s)" using alloc_fresh by blast
  let ?p = "p\<lparr>p_values := p_values p @ [nxt s]\<rparr>"
  have "owns ?p s1 {}" using Suc.prems a(2) by (auto simp: owns_def)
  from Suc.IH [OF this] a Suc.prems show ?case by (auto simp: call_alloc_def owns_def)
qed simp

lemma Init_owns:
  assumes "\<not> initialized p" and "p_values p = []"
  shows "\<exists>p' s'. objectPool_Init alloc p s = (Ret (), p', s') \<and> owns p' s' {}"
proof -
  let ?p = "p\<lparr>initialized := True, p_alloc := Some alloc\<rparr>"
  have "owns ?p s {}" using assms(2) by (simp add: owns_def)
  from init_fill_owns [OF this] obtain p' s' where "init_fill (p_cap p) ?p s = (Ret (), p', s')" "owns p' s' {}" by blast
  then show ?thesis using assms(1) by (simp add: objectPool_Init_def) (simp add: owns_def setGauges_def)
qed

lemma Get_owns:
  assumes "owns p s out"
  shows "\<exists>v p' s'. objectPool_Get p s = (Ret v, p', s') \<and> v \<notin> out \<and> owns p' s' (insert v out) \<and>
    (s' = s \<or> alloc s = (Ret v, s'))"
proof (cases "p_values p")
  case Nil
  obtain s1 where "alloc s = (Ret (nxt s), s1)" "nxt s1 = Suc (nxt s)" using alloc_fresh by blast
  then show ?thesis using assms Nil
    by (auto simp: objectPool_Get_def owns_def call_alloc_def trySetGauges_def setGauges_def tryFill_def Let_def)
next
  case (Cons v vs)
  then show ?thesis using assms
    by (auto simp: objectPool_Get_def owns_def trySetGauges_def setGauges_def tryFill_def Let_def)
qed

lemma Put_owns:
  assumes "owns p s out" and "v \<in> out"
  shows "\<exists>p'. objectPool_Put v p s = (Ret (), p', s) \<and> owns p' s (out - {v}) \<and>
    p_values p' = (if length (p_values p) < p_cap p then p_values p @ [v] else p_values p)"
  using assms by (auto simp: objectPool_Put_def owns_def trySetGauges_def setGauges_def Let_def)

lemma fill_owns:
  assumes "owns p s out"
  shows "\<exists>p' s'. fill_step p s = (Ret (), p', s') \<and> owns p' s' out \<and> (s' = s \<or> (\<exists>v. alloc s = (Ret v, s')))"
proof -
  obtain s1 where "alloc s = (Ret (nxt s), s1)" "nxt s1 = Suc (nxt s)" using alloc_fresh by blast
  then show ?thesis using assms by (auto simp: fill_step_def owns_def call_alloc_def less_Suc_eq)
qed

end

section \<open>Properties\<close>

text \<open>
  C27: a pool that was created and initialized with an allocator of good objects serves every interleaving of
  gets, puts of good objects and refills by the background goroutine without a panic.  Every object a
  client gets is good, and the pool never holds more objects than its size.
\<close>

theorem objectPool_serves_good:
  assumes "good_allocator alloc I good" and "I s"
    and "NewObjectPool indef dflt oo = Ret p0" and "\<forall>v. PPut v \<in> set ops \<longrightarrow> good v"
  shows "\<exists>p1 s1 vs p2 s2. objectPool_Init alloc p0 s = (Ret (), p1, s1) \<and>
    length (p_values p1) = nat (p_size p1) \<and> pool_run ops p1 s1 = (Ret vs, p2, s2) \<and> (\<forall>v\<in>set vs. good v) \<and>
    (\<forall>v\<in>set (p_values p2). good v) \<and> length (p_values p2) \<le> p_cap p2"
proof -
  have p0: "\<not> initialized p0" "p_values p0 = []" "p_cap p0 = nat (p_size p0)"
    using assms(3) by (auto simp: NewObjectPool_def setGauges_def Let_def split: if_splits)
  have keep: "p_cap p' = p_cap q \<and> p_size p' = p_size q"
    if "init_fill n q t = (x, p', s')" for n q t x p' s'
    using that by (induction n arbitrary: q t) (auto split: prod.splits outcome.splits)
  obtain p1 s1 where i: "objectPool_Init alloc p0 s = (Ret (), p1, s1)"
    "good_allocator.pool_inv alloc good p1" "I s1" "length (p_values p1) = p_cap p1"
    using good_allocator.Init_good [OF assms(1) p0(1,2) assms(2)] by blast
  then have "p_cap p1 = nat (p_size p1)"
    using p0(1,3) keep by (fastforce simp: objectPool_Init_def setGauges_def split: prod.splits outcome.splits)
  moreover obtain vs p2 s2 where "pool_run ops p1 s1 = (Ret vs, p2, s2)" "\<forall>v\<in>set vs. good v"
    "good_allocator.pool_inv alloc good p2"
    using good_allocator.pool_run_good [OF assms(1) i(2,3) assms(4)] by blast
  ultimately show ?thesis
    using i by (simp add: good_allocator.pool_inv_def [OF assms(1)])
qed

definition ex_alloc :: "(nat, nat) allocator" where
  "ex_alloc n = (Ret (2 * n), n + 1)"

definition ex_pool :: "(unit, nat, nat) objectPool" where
  "ex_pool = the_ret (NewObjectPool 0 () None)"

theorem objectPool_serves_good_witness:
  "\<exists>p1 s1 vs p2 s2. objectPool_Init ex_alloc ex_pool 0 = (Ret (), p1, s1) \<and>
     pool_run [PGet, PFill, PPut 8, PGet, PGet] p1 s1 = (Ret vs, p2, s2) \<and> (\<forall>v\<in>set vs. even v)"
proof -
  have new: "NewObjectPool 0 () None = Ret ex_pool"
    by (simp add: ex_pool_def NewObjectPool_def NewObjectPoolOptions_def defaultSize_def pool_Size_def Let_def)
  have "good_allocator ex_alloc (\<lambda>_. True) even" by unfold_locales (simp add: ex_alloc_def)
  from objectPool_serves_good [OF this _ new, where s = 0 and ops = "[PGet, PFill, PPut 8, PGet, PGet]"]
  show ?thesis by (simp, blast)
qed

text \<open>
  A pool that was created and not initialized panics on \<^verbatim>\<open>Get\<close> whatever the error function of its options does:
  when the function returns, the code goes on to call the allocator, which is nil.
\<close>

theorem Get_before_Init_panics:
  assumes "NewObjectPool indef dflt oo = Ret p"
  shows "fst (objectPool_Get p s) =
    Panic (if pool_OnPoolAccessErrorFn (p_opts p) errPoolGetBeforeInitialized
           then PoolAccess errPoolGetBeforeInitialized else NilFunctionCall)"
proof -
  have "\<not> initialized p" "p_alloc p = None"
    using assms by (auto simp: NewObjectPool_def setGauges_def Let_def split: if_splits)
  then show ?thesis by (simp add: objectPool_Get_def access_error_def call_alloc_def)
qed

definition ex_open_pool :: "(unit, unit, unit) objectPool" where
  "ex_open_pool =
     the_ret (NewObjectPool 0 () (Some (pool_SetOnPoolAccessErrorFn (NewObjectPoolOptions ()) (\<lambda>_. False))))"

theorem Get_before_Init_panics_witness:
  "fst (objectPool_Get ex_open_pool ()) = Panic NilFunctionCall"
proof -
  have "NewObjectPool 0 () (Some (pool_SetOnPoolAccessErrorFn (NewObjectPoolOptions ()) (\<lambda>_. False))) =
      Ret ex_open_pool"
    by (simp add: ex_open_pool_def NewObjectPool_def NewObjectPoolOptions_def defaultSize_def opt_field Let_def)
  from Get_before_Init_panics [OF this, of "()"] show ?thesis
    by (simp add: ex_open_pool_def NewObjectPool_def NewObjectPoolOptions_def defaultSize_def opt_field Let_def
        setGauges_def)
qed

end
