(* ===== verification/Bucketized.thy ===== *)
theory Bucketized
  imports Pool
begin

text \<open>
  The bucketized pools of the package \<^verbatim>\<open>pool\<close>: \<^verbatim>\<open>bucketized.go\<close>, \<^verbatim>\<open>bytes.go\<close>, \<^verbatim>\<open>floats.go\<close>, \<^verbatim>\<open>checked_bytes.go\<close> and the
  bucket part of \<^verbatim>\<open>config.go\<close>.

  \<open>srt\<close> is \<^verbatim>\<open>sort.Sort\<close>, which does not fix the order of buckets with equal capacities, and \<open>tag\<close> adds the
  capacity to the metrics scope of the instrument options.  The state of the allocator of a checked bytes
  pool is the bytes pool it takes its slices from.
\<close>

section \<open>Buckets\<close>

record 'io Bucket =
  b_Capacity :: int
  b_Count :: int
  b_Options :: "'io objectPoolOptions option"

definition BucketByCapacity_Less :: "'io Bucket \<Rightarrow> 'io Bucket \<Rightarrow> bool" where
  "BucketByCapacity_Less a b \<longleftrightarrow> b_Capacity a < b_Capacity b"

record ('io, 's, 'v) bucketizedObjectPool =
  sizesAsc :: "'io Bucket list"
  buckets :: "(int \<times> ('io, 's, 'v) objectPool) list"
  maxBucketCapacity :: int
  bz_opts :: "'io objectPoolOptions"
  bz_alloc :: "(int \<Rightarrow> ('s, 'v) allocator) option"
  maxAlloc :: nat

definition NewBucketizedObjectPool ::
    "('io Bucket list \<Rightarrow> 'io Bucket list) \<Rightarrow> 'io \<Rightarrow> 'io Bucket list \<Rightarrow> 'io objectPoolOptions option \<Rightarrow>
     ('io, 's, 'v) bucketizedObjectPool" where
  "NewBucketizedObjectPool srt dflt sizes oo =
     (let asc = srt sizes in
      \<lparr>sizesAsc = asc, buckets = [], maxBucketCapacity = (if asc \<noteq> [] then b_Capacity (last asc) else 0),
       bz_opts = (case oo of None \<Rightarrow> NewObjectPoolOptions dflt | Some os \<Rightarrow> os), bz_alloc = None, maxAlloc = 0\<rparr>)"

text \<open>The loop of \<^verbatim>\<open>Init\<close> over the sizes.\<close>

fun init_buckets ::
    "int \<Rightarrow> (int \<Rightarrow> 'io \<Rightarrow> 'io) \<Rightarrow> 'io objectPoolOptions \<Rightarrow> (int \<Rightarrow> ('s, 'v) allocator) \<Rightarrow> 'io Bucket list \<Rightarrow> 's \<Rightarrow>
     (pool_panic, (int \<times> ('io, 's, 'v) objectPool) list) outcome \<times> 's" where
  "init_buckets indef tag dos alloc [] s = (Ret [], s)"
| "init_buckets indef tag dos alloc (b # bs) s =
     (let os = (case b_Options b of Some os \<Rightarrow> os | None \<Rightarrow> dos);
          os = pool_SetSize os (b_Count b);
          os = pool_SetInstrumentOptions os (tag (b_Capacity b) (pool_InstrumentOptions os))
      in case NewObjectPool indef (pool_InstrumentOptions os) (Some os) of
           Panic e \<Rightarrow> (Panic e, s)
         | Ret p \<Rightarrow>
             (case objectPool_Init (alloc (b_Capacity b)) p s of
                (Panic e, p, s) \<Rightarrow> (Panic e, s)
              | (Ret u, p, s) \<Rightarrow>
                  (case init_buckets indef tag dos alloc bs s of
                     (Panic e, s) \<Rightarrow> (Panic e, s)
                   | (Ret ps, s) \<Rightarrow> (Ret ((b_Capacity b, p) # ps), s))))"

type_synonym ('io, 's, 'v, 'a) bz_result =
  "(pool_panic, 'a) outcome \<times> ('io, 's, 'v) bucketizedObjectPool \<times> 's"

definition bucketized_Init ::
    "int \<Rightarrow> (int \<Rightarrow> 'io \<Rightarrow> 'io) \<Rightarrow> (int \<Rightarrow> ('s, 'v) allocator) \<Rightarrow> ('io, 's, 'v) bucketizedObjectPool \<Rightarrow> 's \<Rightarrow>
     ('io, 's, 'v, unit) bz_result" where
  "bucketized_Init indef tag alloc p s =
     (case init_buckets indef tag (bz_opts p) alloc (sizesAsc p) s of
        (Panic e, s) \<Rightarrow> (Panic e, p, s)
      | (Ret bs, s) \<Rightarrow> (Ret (), p\<lparr>buckets := bs, bz_alloc := Some alloc\<rparr>, s))"

text \<open>The loops of \<^verbatim>\<open>Get\<close> and \<^verbatim>\<open>Put\<close>; \<^const>\<open>None\<close> when no bucket fits.\<close>

fun get_bucket ::
    "int \<Rightarrow> (int \<times> ('io, 's, 'v) objectPool) list \<Rightarrow> 's \<Rightarrow>
     ((pool_panic, 'v) outcome \<times> (int \<times> ('io, 's, 'v) objectPool) list \<times> 's) option" where
  "get_bucket capacity [] s = None"
| "get_bucket capacity ((c, p) # bs) s =
     (if c \<ge> capacity then (case objectPool_Get p s of (x, p, s) \<Rightarrow> Some (x, (c, p) # bs, s))
      else map_option (\<lambda>(x, bs, s). (x, (c, p) # bs, s)) (get_bucket capacity bs s))"

definition bz_call_alloc :: "int \<Rightarrow> ('io, 's, 'v) bucketizedObjectPool \<Rightarrow> 's \<Rightarrow> ('io, 's, 'v, 'v) bz_result" where
  "bz_call_alloc capacity p s =
     (case bz_alloc p of None \<Rightarrow> (Panic NilFunctionCall, p, s)
      | Some f \<Rightarrow> (case f capacity s of (x, s) \<Rightarrow> (x, p, s)))"

definition bucketized_Get :: "int \<Rightarrow> ('io, 's, 'v) bucketizedObjectPool \<Rightarrow> 's \<Rightarrow> ('io, 's, 'v, 'v) bz_result" where
  "bucketized_Get capacity p s =
     (if capacity > maxBucketCapacity p then bz_call_alloc capacity (p\<lparr>maxAlloc := maxAlloc p + 1\<rparr>) s
      else (case get_bucket capacity (buckets p) s of
              Some (x, bs, s) \<Rightarrow> (x, p\<lparr>buckets := bs\<rparr>, s)
            | None \<Rightarrow> bz_call_alloc capacity p s))"

text \<open>The loop of \<^verbatim>\<open>Put\<close> runs from the last bucket to the first: the list is given reversed.\<close>

fun put_bucket ::
    "'v \<Rightarrow> int \<Rightarrow> (int \<times> ('io, 's, 'v) objectPool) list \<Rightarrow> 's \<Rightarrow>
     (pool_panic, unit) outcome \<times> (int \<times> ('io, 's, 'v) objectPool) list \<times> 's" where
  "put_bucket obj capacity [] s = (Ret (), [], s)"
| "put_bucket obj capacity ((c, p) # bs) s =
     (if capacity \<ge> c then (case objectPool_Put obj p s of (x, p, s) \<Rightarrow> (x, (c, p) # bs, s))
      else (case put_bucket obj capacity bs s of (x, bs, s) \<Rightarrow> (x, (c, p) # bs, s)))"

definition bucketized_Put ::
    "'v \<Rightarrow> int \<Rightarrow> ('io, 's, 'v) bucketizedObjectPool \<Rightarrow> 's \<Rightarrow> ('io, 's, 'v, unit) bz_result" where
  "bucketized_Put obj capacity p s =
     (if capacity > maxBucketCapacity p then (Ret (), p, s)
      else (case put_bucket obj capacity (rev (buckets p)) s of
              (x, bs, s) \<Rightarrow> (x, p\<lparr>buckets := rev bs\<rparr>, s)))"

text \<open>One iteration of the refilling goroutine of the \<open>i\<close>-th bucket.\<close>

definition bucketized_fill :: "nat \<Rightarrow> ('io, 's, 'v) bucketizedObjectPool \<Rightarrow> 's \<Rightarrow> ('io, 's, 'v, unit) bz_result" where
  "bucketized_fill i p s =
     (if i < length (buckets p) then
        (case buckets p ! i of (c, q) \<Rightarrow>
          (case fill_step q s of (x, q, s) \<Rightarrow> (x, p\<lparr>buckets := (buckets p)[i := (c, q)]\<rparr>, s)))
      else (Ret (), p, s))"

section \<open>Bytes and floats\<close>

text \<open>\<^verbatim>\<open>make([]byte, 0, capacity)\<close>.\<close>

definition make_bytes :: "int \<Rightarrow> (unit, byte_slice) allocator" where
  "make_bytes capacity s =
     (if capacity < 0 then (Panic MakeSize, s) else (Ret \<lparr>buf = replicate (nat capacity) 0, blen = 0\<rparr>, s))"

definition nil_bytes :: byte_slice where "nil_bytes = \<lparr>buf = [], blen = 0\<rparr>"

type_synonym 'io bytesPool = "('io, unit, byte_slice) bucketizedObjectPool"

definition NewBytesPool ::
    "('io Bucket list \<Rightarrow> 'io Bucket list) \<Rightarrow> 'io \<Rightarrow> 'io Bucket list \<Rightarrow> 'io objectPoolOptions option \<Rightarrow> 'io bytesPool" where
  "NewBytesPool srt dflt sizes oo = NewBucketizedObjectPool srt dflt sizes oo"

definition bytesPool_Init ::
    "int \<Rightarrow> (int \<Rightarrow> 'io \<Rightarrow> 'io) \<Rightarrow> 'io bytesPool \<Rightarrow> (pool_panic, unit) outcome \<times> 'io bytesPool" where
  "bytesPool_Init indef tag p = (case bucketized_Init indef tag make_bytes p () of (x, p, _) \<Rightarrow> (x, p))"

definition bytesPool_Get :: "int \<Rightarrow> 'io bytesPool \<Rightarrow> (pool_panic, byte_slice) outcome \<times> 'io bytesPool" where
  "bytesPool_Get capacity p =
     (if capacity < 1 then (Ret nil_bytes, p)
      else (case bucketized_Get capacity p () of (x, p, _) \<Rightarrow> (x, p)))"

definition bytesPool_Put :: "byte_slice \<Rightarrow> 'io bytesPool \<Rightarrow> (pool_panic, unit) outcome \<times> 'io bytesPool" where
  "bytesPool_Put value p =
     (let value = value\<lparr>blen := 0\<rparr>
      in case bucketized_Put value (int (bcap value)) p () of (x, p, _) \<Rightarrow> (x, p))"

text \<open>
  \<^verbatim>\<open>AppendByte\<close>.  The slice taken from the pool is resliced to the length of the old one, which panics when
  its capacity is smaller; \<^verbatim>\<open>copy\<close> then copies all of the old one.
\<close>

definition AppendByte ::
    "(nat \<Rightarrow> nat) \<Rightarrow> byte_slice \<Rightarrow> 8 word \<Rightarrow> 'io bytesPool \<Rightarrow> (pool_panic, byte_slice) outcome \<times> 'io bytesPool" where
  "AppendByte grow bytes b pool =
     (if blen bytes = bcap bytes then
        andthen (bytesPool_Get (wrap64 (int (bcap bytes) * 2)) pool) (\<lambda>newBytes pool.
          if bcap newBytes < blen bytes then (Panic (CheckedPanic SliceBounds), pool)
          else
            (let n = blen bytes;
                 newBytes = \<lparr>buf = slice_bytes bytes @ drop n (buf newBytes), blen = n\<rparr>
             in andthen (bytesPool_Put bytes pool) (\<lambda>_ pool. (Ret (append_bytes grow newBytes [b]), pool))))
      else (Ret (append_bytes grow bytes [b]), pool))"

text \<open>A slice of \<^verbatim>\<open>float64\<close>.\<close>

record float_slice =
  fbuf :: "float64 list"
  flen :: nat

definition fcap :: "float_slice \<Rightarrow> nat" where "fcap s = length (fbuf s)"

definition make_floats :: "int \<Rightarrow> (unit, float_slice) allocator" where
  "make_floats capacity s =
     (if capacity < 0 then (Panic MakeSize, s) else (Ret \<lparr>fbuf = replicate (nat capacity) (Fin 0), flen = 0\<rparr>, s))"

type_synonym 'io floatsPool = "('io, unit, float_slice) bucketizedObjectPool"

definition NewFloatsPool ::
    "('io Bucket list \<Rightarrow> 'io Bucket list) \<Rightarrow> 'io \<Rightarrow> 'io Bucket list \<Rightarrow> 'io objectPoolOptions option \<Rightarrow> 'io floatsPool" where
  "NewFloatsPool srt dflt sizes oo = NewBucketizedObjectPool srt dflt sizes oo"

definition floatsPool_Init ::
    "int \<Rightarrow> (int \<Rightarrow> 'io \<Rightarrow> 'io) \<Rightarrow> 'io floatsPool \<Rightarrow> (pool_panic, unit) outcome \<times> 'io floatsPool" where
  "floatsPool_Init indef tag p = (case bucketized_Init indef tag make_floats p () of (x, p, _) \<Rightarrow> (x, p))"

definition floatsPool_Get :: "int \<Rightarrow> 'io floatsPool \<Rightarrow> (pool_panic, float_slice) outcome \<times> 'io floatsPool" where
  "floatsPool_Get capacity p = (case bucketized_Get capacity p () of (x, p, _) \<Rightarrow> (x, p))"

definition floatsPool_Put :: "float_slice \<Rightarrow> 'io floatsPool \<Rightarrow> (pool_panic, unit) outcome \<times> 'io floatsPool" where
  "floatsPool_Put value p =
     (let value = value\<lparr>flen := 0\<rparr>
      in case bucketized_Put value (int (fcap value)) p () of (x, p, _) \<Rightarrow> (x, p))"

section \<open>Checked bytes pool\<close>

text \<open>The finalizer of the pool's checked bytes is the pool itself, the value \<open>()\<close>.\<close>

record 'io checkedBytesPool =
  cb_bytesPool :: "'io bytesPool"
  cb_pool :: "('io, 'io bytesPool, (unit, unit) bytesRef) bucketizedObjectPool"

definition NewCheckedBytesPool ::
    "('io Bucket list \<Rightarrow> 'io Bucket list) \<Rightarrow> 'io \<Rightarrow> 'io Bucket list \<Rightarrow> 'io objectPoolOptions option \<Rightarrow>
     ('io Bucket list \<Rightarrow> 'io bytesPool) \<Rightarrow> 'io checkedBytesPool" where
  "NewCheckedBytesPool srt dflt sizes oo newBacking =
     \<lparr>cb_bytesPool = newBacking sizes, cb_pool = NewBucketizedObjectPool srt dflt sizes oo\<rparr>"

definition checked_alloc :: "globals \<Rightarrow> int \<Rightarrow> ('io bytesPool, (unit, unit) bytesRef) allocator" where
  "checked_alloc g capacity bp =
     andthen (bytesPool_Get capacity bp) (\<lambda>value bp. (Ret (fst (NewBytes g () value (Some ()))), bp))"

definition checkedBytesPool_Init ::
    "int \<Rightarrow> (int \<Rightarrow> 'io \<Rightarrow> 'io) \<Rightarrow> globals \<Rightarrow> 'io checkedBytesPool \<Rightarrow>
     (pool_panic, unit) outcome \<times> 'io checkedBytesPool" where
  "checkedBytesPool_Init indef tag g p =
     (case bytesPool_Init indef tag (cb_bytesPool p) of
        (Panic e, bp) \<Rightarrow> (Panic e, p\<lparr>cb_bytesPool := bp\<rparr>)
      | (Ret u, bp) \<Rightarrow>
          (case bucketized_Init indef tag (checked_alloc g) (cb_pool p) bp of
             (x, q, bp) \<Rightarrow> (x, \<lparr>cb_bytesPool = bp, cb_pool = q\<rparr>)))"

definition checkedBytesPool_Get ::
    "int \<Rightarrow> 'io checkedBytesPool \<Rightarrow> (pool_panic, (unit, unit) bytesRef) outcome \<times> 'io checkedBytesPool" where
  "checkedBytesPool_Get capacity p =
     (case bucketized_Get capacity (cb_pool p) (cb_bytesPool p) of
        (x, q, bp) \<Rightarrow> (x, \<lparr>cb_bytesPool = bp, cb_pool = q\<rparr>))"

text \<open>A panic of a checked operation as a panic of the pool.\<close>

definition lift_checked :: "(unit checked_panic, 'a) outcome \<times> 's \<Rightarrow> (pool_panic, 'a) outcome \<times> 's" where
  "lift_checked x = (case x of (Panic e, s) \<Rightarrow> (Panic (CheckedPanic e), s) | (Ret a, s) \<Rightarrow> (Ret a, s))"

definition checkedBytesPool_FinalizeBytes ::
    "globals \<Rightarrow> (unit, unit) bytesRef \<Rightarrow> 'io checkedBytesPool \<Rightarrow> (pool_panic, unit) outcome \<times> 'io checkedBytesPool" where
  "checkedBytesPool_FinalizeBytes g bytes p =
     (case lift_checked
        (andthen (on_rc (IncRef g ()) bytes) (\<lambda>_ bytes.
         andthen (Bytes_Resize g () 0 bytes) (\<lambda>_ bytes.
         andthen (Bytes_Cap g () bytes) (\<lambda>capacity bytes.
         andthen (on_rc (DecRef g ()) bytes) (\<lambda>_ bytes. (Ret capacity, bytes)))))) of
        (Panic e, _) \<Rightarrow> (Panic e, p)
      | (Ret capacity, bytes) \<Rightarrow>
          (case bucketized_Put bytes (int capacity) (cb_pool p) (cb_bytesPool p) of
             (x, q, bp) \<Rightarrow> (x, \<lparr>cb_bytesPool = bp, cb_pool = q\<rparr>)))"

text \<open>
  \<^verbatim>\<open>AppendByteChecked\<close>: the bytes are copied to new ones from the pool when they are full.  The operations on the old and the
  new bytes interleave, hence the state of the copying part is the pair of them.  The result tells whether the
  bytes were swapped, and comes with the bytes that were passed.
\<close>

definition on_old :: "('f, 'p, 'a) Checked.bytes_op \<Rightarrow> ('f, 'p) bytesRef \<times> ('f, 'p) bytesRef \<Rightarrow>
    ('p checked_panic, 'a) outcome \<times> ('f, 'p) bytesRef \<times> ('f, 'p) bytesRef" where
  "on_old op s = (case op (fst s) of (x, b) \<Rightarrow> (x, b, snd s))"

definition on_new :: "('f, 'p, 'a) Checked.bytes_op \<Rightarrow> ('f, 'p) bytesRef \<times> ('f, 'p) bytesRef \<Rightarrow>
    ('p checked_panic, 'a) outcome \<times> ('f, 'p) bytesRef \<times> ('f, 'p) bytesRef" where
  "on_new op s = (case op (snd s) of (x, b) \<Rightarrow> (x, fst s, b))"

text \<open>The built-in \<^verbatim>\<open>copy\<close> into the slice of checked bytes.\<close>

definition copy_bytes :: "8 word list \<Rightarrow> byte_slice \<Rightarrow> byte_slice" where
  "copy_bytes d v = (let k = min (blen v) (length d) in v\<lparr>buf := take k d @ drop k (buf v)\<rparr>)"

definition swap_append :: "(nat \<Rightarrow> nat) \<Rightarrow> globals \<Rightarrow> 8 word \<Rightarrow> (unit, unit) bytesRef \<times> (unit, unit) bytesRef \<Rightarrow>
    (unit checked_panic, unit) outcome \<times> (unit, unit) bytesRef \<times> (unit, unit) bytesRef" where
  "swap_append grow g b s =
     andthen (on_new (on_rc (IncRef g ())) s) (\<lambda>_ s.
     andthen (on_old (Bytes_Len g ()) s) (\<lambda>n s.
     andthen (on_new (Bytes_Resize g () (int n)) s) (\<lambda>_ s.
     andthen (on_new (Bytes_Bytes g ()) s) (\<lambda>_ s.
     andthen (on_old (Bytes_Bytes g ()) s) (\<lambda>d s.
     andthen (on_new (\<lambda>y. (Ret (), y\<lparr>val := copy_bytes d (val y)\<rparr>)) s) (\<lambda>_ s.
     andthen (on_new (Bytes_Append grow g () b) s) (\<lambda>_ s.
       on_new (on_rc (DecRef g ())) s)))))))"

definition AppendByteChecked ::
    "(nat \<Rightarrow> nat) \<Rightarrow> globals \<Rightarrow> (unit, unit) bytesRef \<Rightarrow> 8 word \<Rightarrow> 'io checkedBytesPool \<Rightarrow>
     (pool_panic, (unit, unit) bytesRef \<times> bool) outcome \<times> (unit, unit) bytesRef \<times> 'io checkedBytesPool" where
  "AppendByteChecked grow g bytes b p =
     (case lift_checked (andthen (Bytes_Len g () bytes) (\<lambda>n bytes.
             andthen (Bytes_Cap g () bytes) (\<lambda>c bytes. (Ret (n, c), bytes)))) of
        (Panic e, bytes) \<Rightarrow> (Panic e, bytes, p)
      | (Ret (n, c), bytes) \<Rightarrow>
          (if n = c then
             (case lift_checked (Bytes_Cap g () bytes) of
                (Panic e, bytes) \<Rightarrow> (Panic e, bytes, p)
              | (Ret c, bytes) \<Rightarrow>
                  (case checkedBytesPool_Get (wrap64 (int c * 2)) p of
                     (Panic e, p) \<Rightarrow> (Panic e, bytes, p)
                   | (Ret newBytes, p) \<Rightarrow>
                       (case lift_checked (swap_append grow g b (bytes, newBytes)) of
                          (Panic e, bytes, _) \<Rightarrow> (Panic e, bytes, p)
                        | (Ret _, bytes, newBytes) \<Rightarrow> (Ret (newBytes, True), bytes, p))))
           else
             (case lift_checked (Bytes_Append grow g () b bytes) of
                (Panic e, bytes) \<Rightarrow> (Panic e, bytes, p)
              | (Ret _, bytes) \<Rightarrow> (Ret (bytes, False), bytes, p))))"

section \<open>Configuration\<close>

record BucketConfiguration =
  bc_Count :: int
  bc_Capacity :: int

definition BucketConfiguration_NewBucket :: "BucketConfiguration \<Rightarrow> 'io Bucket" where
  "BucketConfiguration_NewBucket c = \<lparr>b_Capacity = bc_Capacity c, b_Count = bc_Count c, b_Options = None\<rparr>"

record BucketizedPoolConfiguration =
  bpc_Buckets :: "BucketConfiguration list"
  bpc_Watermark :: WatermarkConfiguration

definition BucketizedPoolConfiguration_NewObjectPoolOptions ::
    "'io \<Rightarrow> BucketizedPoolConfiguration \<Rightarrow> 'io \<Rightarrow> 'io objectPoolOptions" where
  "BucketizedPoolConfiguration_NewObjectPoolOptions dflt c iopts =
     pool_SetRefillHighWatermark
       (pool_SetRefillLowWatermark
         (pool_SetInstrumentOptions (NewObjectPoolOptions dflt) iopts)
         (wc_RefillLowWatermark (bpc_Watermark c)))
       (wc_RefillHighWatermark (bpc_Watermark c))"

definition BucketizedPoolConfiguration_NewBuckets :: "BucketizedPoolConfiguration \<Rightarrow> 'io Bucket list" where
  "BucketizedPoolConfiguration_NewBuckets c = map BucketConfiguration_NewBucket (bpc_Buckets c)"

section \<open>The contract of an allocator of sized objects\<close>

text \<open>
  Asked for a capacity that is not negative, in a state that satisfies \<open>I\<close>, the allocator returns an object
  that is \<open>ok\<close> and has at least that capacity.  Each bucket is then a pool with a good allocator.
\<close>

locale sized_allocator =
  fixes alloc :: "int \<Rightarrow> ('s, 'v) allocator" and I :: "'s \<Rightarrow> bool" and ok :: "'v \<Rightarrow> bool" and capf :: "'v \<Rightarrow> int"
  assumes sized: "0 \<le> c \<Longrightarrow> I s \<Longrightarrow> \<exists>v s'. alloc c s = (Ret v, s') \<and> ok v \<and> c \<le> capf v \<and> I s'"
begin

sublocale bucket: good_allocator "alloc c" "\<lambda>s. 0 \<le> c \<and> I s" "\<lambda>v. ok v \<and> c \<le> capf v" for c
  using sized by unfold_locales blast

definition bucket_inv :: "int \<times> ('io, 's, 'v) objectPool \<Rightarrow> bool" where
  "bucket_inv b \<longleftrightarrow> 0 \<le> fst b \<and> bucket.pool_inv (fst b) (snd b)"

definition bz_inv :: "('io, 's, 'v) bucketizedObjectPool \<Rightarrow> bool" where
  "bz_inv p \<longleftrightarrow> (\<forall>b\<in>set (buckets p). bucket_inv b) \<and> bz_alloc p = Some alloc"

lemma get_bucket_good:
  "\<forall>b\<in>set bs. bucket_inv b \<Longrightarrow> I s \<Longrightarrow>
   get_bucket n bs s = None \<or>
   (\<exists>v bs' s'. get_bucket n bs s = Some (Ret v, bs', s') \<and> ok v \<and> n \<le> capf v \<and> (\<forall>b\<in>set bs'. bucket_inv b) \<and> I s')"
proof (induction n bs s rule: get_bucket.induct)
  case (2 n c p bs s)
  show ?case
  proof (cases "c \<ge> n")
    case True
    have "bucket.pool_inv c p" "0 \<le> c \<and> I s" using 2(2,3) by (simp_all add: bucket_inv_def)
    then obtain v p' s' where "objectPool_Get p s = (Ret v, p', s')" "ok v \<and> c \<le> capf v"
      "bucket.pool_inv c p'" "0 \<le> c \<and> I s'" using bucket.Get_good by blast
    with True 2(2) show ?thesis by (auto simp: bucket_inv_def)
  next
    case False
    with 2 show ?thesis by auto
  qed
qed simp

lemma put_bucket_good:
  "\<forall>b\<in>set bs. bucket_inv b \<Longrightarrow> ok v \<Longrightarrow> n \<le> capf v \<Longrightarrow>
   \<exists>bs'. put_bucket v n bs s = (Ret (), bs', s) \<and> (\<forall>b\<in>set bs'. bucket_inv b)"
proof (induction v n bs s rule: put_bucket.induct)
  case (2 v n c p bs s)
  show ?case
  proof (cases "n \<ge> c")
    case True
    then have "ok v \<and> c \<le> capf v" "bucket.pool_inv c p" using 2 by (simp_all add: bucket_inv_def)
    then obtain p' where "objectPool_Put v p s = (Ret (), p', s)" "bucket.pool_inv c p'"
      using bucket.Put_good by blast
    with True 2(2) show ?thesis by (auto simp: bucket_inv_def)
  next
    case False
    with 2 show ?thesis by fastforce
  qed
qed simp

lemma bz_call_alloc_good:
  "bz_inv p \<Longrightarrow> I s \<Longrightarrow> 0 \<le> n \<Longrightarrow>
   \<exists>v s'. bz_call_alloc n p s = (Ret v, p, s') \<and> ok v \<and> n \<le> capf v \<and> I s'"
  using sized [of n s] by (auto simp: bz_call_alloc_def bz_inv_def)

lemma bz_Get_good:
  assumes "bz_inv p" and "I s" and "0 \<le> n"
  shows "\<exists>v p' s'. bucketized_Get n p s = (Ret v, p', s') \<and> ok v \<and> n \<le> capf v \<and> bz_inv p' \<and> I s'"
proof (cases "n > maxBucketCapacity p")
  case True
  have i: "bz_inv (p\<lparr>maxAlloc := maxAlloc p + 1\<rparr>)" using assms(1) by (simp add: bz_inv_def)
  from bz_call_alloc_good [OF i assms(2,3)] i True show ?thesis by (auto simp: bucketized_Get_def)
next
  case False
  have b: "\<forall>b\<in>set (buckets p). bucket_inv b" using assms(1) by (simp add: bz_inv_def)
  show ?thesis
  proof (cases "get_bucket n (buckets p) s")
    case None
    with False bz_call_alloc_good [OF assms] assms(1) show ?thesis by (auto simp: bucketized_Get_def)
  next
    case (Some r)
    with get_bucket_good [OF b assms(2), of n] obtain v bs' s' where
      "r = (Ret v, bs', s')" "ok v" "n \<le> capf v" "\<forall>b\<in>set bs'. bucket_inv b" "I s'" by auto
    with Some False assms(1) show ?thesis by (simp add: bucketized_Get_def bz_inv_def)
  qed
qed

lemma bz_Put_good:
  assumes "bz_inv p" and "ok v" and "n \<le> capf v"
  shows "\<exists>p'. bucketized_Put v n p s = (Ret (), p', s) \<and> bz_inv p'"
proof -
  have "\<forall>b\<in>set (rev (buckets p)). bucket_inv b" using assms(1) by (simp add: bz_inv_def)
  from put_bucket_good [OF this assms(2,3), of s] assms(1) show ?thesis
    by (auto simp: bucketized_Put_def bz_inv_def)
qed

lemma bz_fill_good:
  assumes "bz_inv p" and "I s"
  shows "\<exists>p' s'. bucketized_fill i p s = (Ret (), p', s') \<and> bz_inv p' \<and> I s'"
proof (cases "i < length (buckets p)")
  case True
  obtain c q where b: "buckets p ! i = (c, q)" by force
  then have "bucket_inv (c, q)" using assms(1) True nth_mem by (fastforce simp: bz_inv_def)
  then have "bucket.pool_inv c q" "0 \<le> c \<and> I s" using assms(2) by (simp_all add: bucket_inv_def)
  then obtain q' s' where f: "fill_step q s = (Ret (), q', s')" "bucket.pool_inv c q'" "0 \<le> c \<and> I s'"
    using bucket.fill_good by blast
  then have "bz_inv (p\<lparr>buckets := (buckets p)[i := (c, q')]\<rparr>)"
    using assms(1) set_update_subset_insert [of "buckets p" i "(c, q')"]
    by (auto simp: bz_inv_def bucket_inv_def)
  with True b f show ?thesis by (simp add: bucketized_fill_def)
qed (use assms in \<open>simp add: bucketized_fill_def\<close>)

lemma init_buckets_good:
  "\<forall>b\<in>set bs. 0 \<le> b_Capacity b \<and> 0 \<le> b_Count b \<Longrightarrow> I s \<Longrightarrow>
   \<exists>ps s'. init_buckets indef tag dos alloc bs s = (Ret ps, s') \<and> (\<forall>b\<in>set ps. bucket_inv b) \<and>
     map fst ps = map b_Capacity (bs :: 'io Bucket list) \<and> I s'"
proof (induction bs arbitrary: s)
  case (Cons b bs)
  define os where "os = (let os = pool_SetSize (case b_Options b of Some os \<Rightarrow> os | None \<Rightarrow> dos) (b_Count b)
    in pool_SetInstrumentOptions os (tag (b_Capacity b) (pool_InstrumentOptions os)))"
  have "pool_Size os = b_Count b" by (simp add: os_def Let_def opt_field)
  then obtain p :: "('io, 's, 'v) objectPool" where
    p: "NewObjectPool indef (pool_InstrumentOptions os) (Some os) = Ret p"
    "\<not> initialized p" "p_values p = []"
    using Cons.prems(1) by (auto simp: NewObjectPool_def setGauges_def Let_def)
  obtain p' s' where i: "objectPool_Init (alloc (b_Capacity b)) p s = (Ret (), p', s')"
    "bucket.pool_inv (b_Capacity b) p'" "0 \<le> b_Capacity b \<and> I s'"
    using bucket.Init_good [OF p(2,3), where c = "b_Capacity b" and s = s] Cons.prems by auto
  obtain ps s'' where "init_buckets indef tag dos alloc bs s' = (Ret ps, s'')" "\<forall>b\<in>set ps. bucket_inv b"
    "map fst ps = map b_Capacity bs" "I s''" using Cons.IH [of s'] Cons.prems(1) i(3) by auto
  with i p(1) show ?case by (simp add: os_def [symmetric] Let_def bucket_inv_def opt_field os_def)
qed simp

lemma bz_Init_good:
  assumes "\<forall>b\<in>set (sizesAsc p). 0 \<le> b_Capacity b \<and> 0 \<le> b_Count b" and "I s"
  shows "\<exists>p' s'. bucketized_Init indef tag alloc p s = (Ret (), p', s') \<and> bz_inv p' \<and>
    map fst (buckets p') = map b_Capacity (sizesAsc p) \<and> I s'"
  using init_buckets_good [OF assms, of indef tag "bz_opts p"] by (auto simp: bucketized_Init_def bz_inv_def)

end

interpretation bytes: sized_allocator make_bytes "\<lambda>_. True" "\<lambda>v. blen v = 0" "\<lambda>v. int (bcap v)"
  by unfold_locales (simp add: make_bytes_def bcap_def)

interpretation floats: sized_allocator make_floats "\<lambda>_. True" "\<lambda>v. flen v = 0" "\<lambda>v. int (fcap v)"
  by unfold_locales (simp add: make_floats_def fcap_def)

lemma bytesPool_Get_good:
  assumes "bytes.bz_inv p"
  shows "\<exists>v p'. bytesPool_Get n p = (Ret v, p') \<and> blen v = 0 \<and> n \<le> int (bcap v) \<and> bytes.bz_inv p'"
  using bytes.bz_Get_good [OF assms, where s = "()" and n = n] assms
  by (cases "n < 1") (auto simp: bytesPool_Get_def nil_bytes_def bcap_def)

lemma bytesPool_Put_good:
  "bytes.bz_inv p \<Longrightarrow> \<exists>p'. bytesPool_Put v p = (Ret (), p') \<and> bytes.bz_inv p'"
  using bytes.bz_Put_good [of p "v\<lparr>blen := 0\<rparr>" "int (bcap v)" "()"]
  by (auto simp: bytesPool_Put_def Let_def bcap_def)

text \<open>A new checked byte slice over an empty slice of the bytes pool: not referenced, not in use.\<close>

definition idle_bytes :: "(unit, unit) bytesRef \<Rightarrow> bool" where
  "idle_bytes b \<longleftrightarrow> ref (rc b) = 0 \<and> reads (rc b) = 0 \<and> writes (rc b) = 0 \<and> opts b = Some () \<and> blen (val b) = 0"

text \<open>The contract of the bytes pool gives the contract of the allocator of the checked bytes pool.\<close>

interpretation cbytes: sized_allocator "checked_alloc g" bytes.bz_inv idle_bytes "\<lambda>b. int (bcap (val b))" for g
proof
  fix c :: int and bp :: "'a bytesPool"
  assume "0 \<le> c" and "bytes.bz_inv bp"
  with bytesPool_Get_good [of bp c] show "\<exists>v s'. checked_alloc g c bp = (Ret v, s') \<and> idle_bytes v \<and>
      c \<le> int (bcap (val v)) \<and> bytes.bz_inv s'"
    by (auto simp: checked_alloc_def andthen_def NewBytes_def idle_bytes_def new_RefCount_def
        RefCount_SetFinalizer_def)
qed

section \<open>Runs\<close>

text \<open>Operations of clients of a bytes pool and iterations of the refilling goroutines of its buckets; the run
  collects what is got, with the capacity that was asked for.\<close>

datatype bytes_op = BGet int | BPut byte_slice | BFill nat

fun bytes_run ::
    "bytes_op list \<Rightarrow> 'io bytesPool \<Rightarrow> (pool_panic, (int \<times> byte_slice) list) outcome \<times> 'io bytesPool" where
  "bytes_run [] p = (Ret [], p)"
| "bytes_run (BGet n # ops) p =
     andthen (bytesPool_Get n p) (\<lambda>v p. andthen (bytes_run ops p) (\<lambda>vs p. (Ret ((n, v) # vs), p)))"
| "bytes_run (BPut v # ops) p = andthen (bytesPool_Put v p) (\<lambda>_ p. bytes_run ops p)"
| "bytes_run (BFill i # ops) p =
     andthen (case bucketized_fill i p () of (x, p, _) \<Rightarrow> (x, p)) (\<lambda>_ p. bytes_run ops p)"

lemma bytes_run_good:
  "bytes.bz_inv p \<Longrightarrow> \<exists>vs p'. bytes_run ops p = (Ret vs, p') \<and> bytes.bz_inv p' \<and>
     (\<forall>(n, v)\<in>set vs. blen v = 0 \<and> n \<le> int (bcap v))"
proof (induction ops arbitrary: p)
  case (Cons op ops)
  show ?case
  proof (cases op)
    case (BGet n)
    obtain v p1 where g: "bytesPool_Get n p = (Ret v, p1)" "blen v = 0" "n \<le> int (bcap v)" "bytes.bz_inv p1"
      using bytesPool_Get_good [OF Cons.prems] by blast
    with Cons.IH [OF g(4)] BGet show ?thesis by (auto simp: andthen_def)
  next
    case (BPut v)
    obtain p1 where g: "bytesPool_Put v p = (Ret (), p1)" "bytes.bz_inv p1"
      using bytesPool_Put_good [OF Cons.prems] by blast
    with Cons.IH [OF g(2)] BPut show ?thesis by (auto simp: andthen_def)
  next
    case (BFill i)
    obtain p1 where g: "bucketized_fill i p () = (Ret (), p1, ())" "bytes.bz_inv p1"
      using bytes.bz_fill_good [OF Cons.prems, where i = i] by auto
    with Cons.IH [OF g(2)] BFill show ?thesis by (auto simp: andthen_def)
  qed
qed simp

lemma bytesPool_Init_good:
  assumes "\<forall>b\<in>set sizes. 0 \<le> b_Capacity b \<and> 0 \<le> b_Count b" and "set (srt sizes) = set sizes"
  shows "\<exists>p. bytesPool_Init indef tag (NewBytesPool srt dflt sizes oo) = (Ret (), p) \<and> bytes.bz_inv p"
proof -
  let ?p = "NewBytesPool srt dflt sizes oo"
  have "\<forall>b\<in>set (sizesAsc ?p). 0 \<le> b_Capacity b \<and> 0 \<le> b_Count b"
    using assms by (simp add: NewBytesPool_def NewBucketizedObjectPool_def Let_def)
  from bytes.bz_Init_good [OF this, where indef = indef and tag = tag] show ?thesis by (auto simp: bytesPool_Init_def)
qed

lemma AppendByte_good:
  assumes "bytes.bz_inv p" and "blen bs \<le> bcap bs" and "bcap bs < 2 ^ 62"
  shows "\<exists>v p'. AppendByte grow bs b p = (Ret v, p') \<and> slice_bytes v = slice_bytes bs @ [b] \<and> bytes.bz_inv p'"
proof (cases "blen bs = bcap bs")
  case True
  have w: "wrap64 (int (bcap bs) * 2) = int (bcap bs) * 2"
    using assms(3) by (intro wrap64_id) (simp add: int64_ok_iff)
  obtain v p1 where g: "bytesPool_Get (int (bcap bs) * 2) p = (Ret v, p1)" "int (bcap bs) * 2 \<le> int (bcap v)"
    "bytes.bz_inv p1" using bytesPool_Get_good [OF assms(1)] by blast
  obtain p2 where h: "bytesPool_Put bs p1 = (Ret (), p2)" "bytes.bz_inv p2"
    using bytesPool_Put_good [OF g(3)] by blast
  let ?n = "\<lparr>buf = slice_bytes bs @ drop (blen bs) (buf v), blen = blen bs\<rparr>"
  have "blen ?n \<le> bcap ?n" "slice_bytes ?n = slice_bytes bs"
    using assms(2) g(2) by (simp_all add: bcap_def slice_bytes_def)
  with append_bytes_contents [of ?n grow "[b]"] g h w True show ?thesis
    by (simp add: AppendByte_def andthen_def Let_def)
next
  case False
  with assms append_bytes_contents [OF assms(2)] show ?thesis by (simp add: AppendByte_def)
qed

text \<open>Operations of clients of a checked bytes pool: a finalizer hands bytes back that are not in use.\<close>

datatype checked_op = CGet int | CFinalize "(unit, unit) bytesRef"

fun checked_run ::
    "globals \<Rightarrow> checked_op list \<Rightarrow> 'io checkedBytesPool \<Rightarrow>
     (pool_panic, (int \<times> (unit, unit) bytesRef) list) outcome \<times> 'io checkedBytesPool" where
  "checked_run g [] p = (Ret [], p)"
| "checked_run g (CGet n # ops) p =
     andthen (checkedBytesPool_Get n p) (\<lambda>v p. andthen (checked_run g ops p) (\<lambda>vs p. (Ret ((n, v) # vs), p)))"
| "checked_run g (CFinalize b # ops) p =
     andthen (checkedBytesPool_FinalizeBytes g b p) (\<lambda>_ p. checked_run g ops p)"

definition released :: "(unit, unit) bytesRef \<Rightarrow> bool" where
  "released b \<longleftrightarrow> ref (rc b) = 0 \<and> reads (rc b) = 0 \<and> writes (rc b) = 0 \<and> opts b = Some ()"

definition cb_inv :: "globals \<Rightarrow> 'io checkedBytesPool \<Rightarrow> bool" where
  "cb_inv g p \<longleftrightarrow> bytes.bz_inv (cb_bytesPool p) \<and> cbytes.bz_inv g (cb_pool p)"

lemma bcap_blen [simp]: "bcap (v\<lparr>blen := n\<rparr>) = bcap v"
  by (simp add: bcap_def)

lemma FinalizeBytes_good:
  assumes "\<not> traceback g" and "\<forall>v. panicFn g v" and "cb_inv g p" and "released b"
  shows "\<exists>p'. checkedBytesPool_FinalizeBytes g b p = (Ret (), p') \<and> cb_inv g p'"
proof -
  let ?b = "b\<lparr>rc := (rc b)\<lparr>ref := 1\<rparr>\<rparr>" and ?d = "b\<lparr>val := (val b)\<lparr>blen := 0\<rparr>\<rparr>"
  have u: "usable g (?b\<lparr>val := v\<rparr>)" "usable g ?b" for v
    using assms(1,2,4) by (simp_all add: usable_def released_def)
  have 1: "on_rc (IncRef g ()) b = (Ret (), ?b)"
    using assms(1,4) by (simp add: on_rc_def IncRef_def tracebackEvent_def released_def wrap32_id int32_ok_iff)
  have 2: "Bytes_Resize g () 0 ?b = (Ret (), ?b\<lparr>val := (val b)\<lparr>blen := 0\<rparr>\<rparr>)"
    using writing_usable [OF u(2)] by (simp add: Bytes_Resize_def)
  have 3: "Bytes_Cap g () (?b\<lparr>val := (val b)\<lparr>blen := 0\<rparr>\<rparr>) = (Ret (bcap (val b)), ?b\<lparr>val := (val b)\<lparr>blen := 0\<rparr>\<rparr>)"
    by (simp add: Bytes_Cap_def reading_usable [OF u(1)])
  have 4: "on_rc (DecRef g ()) (?b\<lparr>val := (val b)\<lparr>blen := 0\<rparr>\<rparr>) = (Ret (), ?d)"
  proof -
    have "wrap32 0 = 0" by (simp add: wrap32_id int32_ok_iff)
    then show ?thesis using assms(1,4)
      by (simp add: on_rc_def DecRef_def tracebackEvent_def check_def andthen_def released_def)
  qed
  have "idle_bytes ?d" "int (bcap (val b)) \<le> int (bcap (val ?d))"
    using assms(4) by (simp_all add: idle_bytes_def released_def bcap_def)
  from cbytes.bz_Put_good [OF _ this, of g "cb_pool p" "cb_bytesPool p"] assms(3) 1 2 3 4
  show ?thesis by (auto simp: checkedBytesPool_FinalizeBytes_def andthen_def lift_checked_def cb_inv_def)
qed

lemma checked_run_good:
  assumes "\<not> traceback g" and "\<forall>v. panicFn g v"
  shows "cb_inv g p \<Longrightarrow> (\<forall>op\<in>set ops. case op of CGet n \<Rightarrow> 0 \<le> n | CFinalize b \<Rightarrow> released b) \<Longrightarrow>
   \<exists>vs p'. checked_run g ops p = (Ret vs, p') \<and> (\<forall>(n, v)\<in>set vs. idle_bytes v \<and> n \<le> int (bcap (val v)))"
proof (induction ops arbitrary: p)
  case (Cons op ops)
  show ?case
  proof (cases op)
    case (CGet n)
    obtain v q bp where "bucketized_Get n (cb_pool p) (cb_bytesPool p) = (Ret v, q, bp)" "idle_bytes v"
      "n \<le> int (bcap (val v))" "cbytes.bz_inv g q" "bytes.bz_inv bp"
      using cbytes.bz_Get_good [of g "cb_pool p" "cb_bytesPool p" n] Cons.prems CGet by (auto simp: cb_inv_def)
    moreover have "cb_inv g \<lparr>cb_bytesPool = bp, cb_pool = q\<rparr>" using calculation by (simp add: cb_inv_def)
    ultimately show ?thesis using Cons.IH Cons.prems(2) CGet
      by (fastforce simp: checkedBytesPool_Get_def andthen_def)
  next
    case (CFinalize b)
    then obtain p1 where "checkedBytesPool_FinalizeBytes g b p = (Ret (), p1)" "cb_inv g p1"
      using FinalizeBytes_good [OF assms Cons.prems(1)] Cons.prems(2) by auto
    with Cons.IH Cons.prems(2) CFinalize show ?thesis by (auto simp: andthen_def)
  qed
qed simp

section \<open>Appending to checked bytes\<close>

text \<open>
  \<^verbatim>\<open>AppendByteChecked\<close> appends the byte, on bytes that are referenced and not in use.  The bytes are swapped exactly when they
  are full; then the result is not referenced, and the bytes that were passed are as before.
\<close>

theorem AppendByteChecked_appends:
  assumes "cb_inv g p" and "usable g bytes" and "blen (val bytes) \<le> bcap (val bytes)" and "bcap (val bytes) < 2 ^ 62"
  shows "\<exists>r bytes' p'. AppendByteChecked grow g bytes b p = (Ret (r, blen (val bytes) = bcap (val bytes)), bytes', p') \<and>
    slice_bytes (val r) = slice_bytes (val bytes) @ [b] \<and>
    (blen (val bytes) = bcap (val bytes) \<longrightarrow> bytes' = bytes \<and> ref (rc r) = 0) \<and>
    (blen (val bytes) \<noteq> bcap (val bytes) \<longrightarrow> bytes' = r \<and> rc r = rc bytes \<and> p' = p)"
proof (cases "blen (val bytes) = bcap (val bytes)")
  case False
  then show ?thesis
    using append_bytes_contents [OF assms(3), of grow "[b]"]
    by (simp add: AppendByteChecked_def lift_checked_def andthen_def Bytes_Len_def Bytes_Cap_def Bytes_Append_def
        writing_usable [OF assms(2)] reading_usable [OF assms(2)])
next
  case True
  let ?c = "int (bcap (val bytes))" and ?n = "blen (val bytes)"
  have w: "wrap64 (?c * 2) = ?c * 2" using assms(4) by (intro wrap64_id) (simp add: int64_ok_iff)
  obtain v p1 where v: "checkedBytesPool_Get (?c * 2) p = (Ret v, p1)" "idle_bytes v" "?c * 2 \<le> int (bcap (val v))"
  proof -
    obtain v q bp where "bucketized_Get (?c * 2) (cb_pool p) (cb_bytesPool p) = (Ret v, q, bp)" "idle_bytes v"
      "?c * 2 \<le> int (bcap (val v))"
      using cbytes.bz_Get_good [of g "cb_pool p" "cb_bytesPool p" "?c * 2"] assms(1) by (auto simp: cb_inv_def)
    then show ?thesis by (intro that) (simp_all add: checkedBytesPool_Get_def)
  qed
  let ?v = "\<lambda>x. v\<lparr>rc := (rc v)\<lparr>ref := 1\<rparr>, val := x\<rparr>"
  have u: "usable g (?v x)" "usable g (v\<lparr>rc := (rc v)\<lparr>ref := 1\<rparr>\<rparr>)" for x
    using v(2) assms(2) by (simp_all add: usable_def idle_bytes_def)
  have inc: "on_rc (IncRef g ()) v = (Ret (), ?v (val v))"
    using assms(2) v(2) by (simp add: usable_def on_rc_def IncRef_def tracebackEvent_def idle_bytes_def wrap32_id int32_ok_iff)
  have dec: "on_rc (DecRef g ()) (?v x) = (Ret (), v\<lparr>rc := (rc v)\<lparr>ref := 0\<rparr>, val := x\<rparr>)" for x
  proof -
    have "wrap32 0 = 0" by (simp add: wrap32_id int32_ok_iff)
    then show ?thesis using assms(2) by (simp add: usable_def on_rc_def DecRef_def tracebackEvent_def check_def andthen_def)
  qed
  let ?x = "copy_bytes (slice_bytes (val bytes)) ((val v)\<lparr>blen := ?n\<rparr>)"
  have x: "blen ?x \<le> bcap ?x" "slice_bytes ?x = slice_bytes (val bytes)"
    using v(3) assms(3) by (simp_all add: copy_bytes_def bcap_def slice_bytes_def Let_def)
  have fits: "?n \<le> bcap (val v)" using v(3) assms(3) by simp
  have "swap_append grow g b (bytes, v) = (Ret (), bytes, v\<lparr>rc := (rc v)\<lparr>ref := 0\<rparr>, val := append_bytes grow ?x [b]\<rparr>)"
    using inc dec fits
    by (simp add: swap_append_def on_new_def on_old_def andthen_def Bytes_Len_def Bytes_Resize_def Bytes_Bytes_def Bytes_Append_def
        writing_usable [OF u(1)] writing_usable [OF u(2)] reading_usable [OF u(1)] reading_usable [OF assms(2)])
  then show ?thesis using True v(1) w append_bytes_contents [OF x(1), of grow "[b]"] x(2)
    by (simp add: AppendByteChecked_def lift_checked_def andthen_def Bytes_Len_def Bytes_Cap_def reading_usable [OF assms(2)])
qed

section \<open>Properties\<close>

text \<open>
  C24: a bytes pool whose buckets have no negative capacity or count initializes, and then serves every
  sequence of gets, puts of arbitrary slices and refills without a panic; every slice got is empty and
  has at least the capacity that was asked for.  The order that sorting gives to buckets of equal
  capacity does not matter.
\<close>

theorem bytesPool_capacity:
  assumes "\<forall>b\<in>set sizes. 0 \<le> b_Capacity b \<and> 0 \<le> b_Count b" and "mset (srt sizes) = mset sizes"
  shows "\<exists>p1 vs p2. bytesPool_Init indef tag (NewBytesPool srt dflt sizes oo) = (Ret (), p1) \<and>
    bytes_run ops p1 = (Ret vs, p2) \<and> (\<forall>(n, v)\<in>set vs. blen v = 0 \<and> n \<le> int (bcap v))"
  using bytesPool_Init_good [where srt = srt, OF assms(1) mset_eq_setD [OF assms(2)], of indef tag dflt oo] bytes_run_good
  by blast

definition ex_sizes :: "unit Bucket list" where
  "ex_sizes = [\<lparr>b_Capacity = 8, b_Count = 1, b_Options = None\<rparr>, \<lparr>b_Capacity = 4, b_Count = 2, b_Options = None\<rparr>]"

theorem bytesPool_capacity_witness:
  "\<exists>p1 vs p2. bytesPool_Init 0 (\<lambda>_ x. x) (NewBytesPool (sort_key b_Capacity) () ex_sizes None) = (Ret (), p1) \<and>
     bytes_run [BGet 5, BPut \<lparr>buf = replicate 6 7, blen = 6\<rparr>, BGet 3, BGet 9] p1 = (Ret vs, p2) \<and>
     (\<forall>(n, v)\<in>set vs. blen v = 0 \<and> n \<le> int (bcap v))"
  by (rule bytesPool_capacity) (simp_all add: ex_sizes_def)

text \<open>
  C26: \<^verbatim>\<open>AppendByte\<close> appends the byte.  On a pool that has been initialized and used in any way, the result has the
  bytes of the argument followed by the new one, also when the bytes were copied to a slice from the
  pool, and there is always room for the copy.
\<close>

theorem AppendByte_appends:
  assumes "\<forall>b\<in>set sizes. 0 \<le> b_Capacity b \<and> 0 \<le> b_Count b" and "mset (srt sizes) = mset sizes"
    and "bytesPool_Init indef tag (NewBytesPool srt dflt sizes oo) = (Ret (), p1)"
    and "bytes_run ops p1 = (Ret vs, p2)" and "blen bs \<le> bcap bs" and "bcap bs < 2 ^ 62"
  shows "\<exists>v p3. AppendByte grow bs b p2 = (Ret v, p3) \<and> slice_bytes v = slice_bytes bs @ [b]"
proof -
  have "bytes.bz_inv p1"
    using bytesPool_Init_good [where srt = srt, OF assms(1) mset_eq_setD [OF assms(2)], of indef tag dflt oo] assms(3) by simp
  then have "bytes.bz_inv p2" using bytes_run_good [of p1 ops] assms(4) by simp
  from AppendByte_good [OF this assms(5,6)] show ?thesis by blast
qed

theorem AppendByte_appends_witness:
  "\<exists>p1 p2 vs v p3. bytesPool_Init 0 (\<lambda>_ x. x) (NewBytesPool (sort_key b_Capacity) () ex_sizes None) = (Ret (), p1) \<and>
     bytes_run [BGet 5] p1 = (Ret vs, p2) \<and>
     AppendByte (\<lambda>n. n) \<lparr>buf = [1, 2], blen = 2\<rparr> 3 p2 = (Ret v, p3) \<and> slice_bytes v = [1, 2, 3]"
proof -
  have sz: "\<forall>b\<in>set ex_sizes. 0 \<le> b_Capacity b \<and> 0 \<le> b_Count b" by (simp add: ex_sizes_def)
  obtain p1 where i: "bytesPool_Init 0 (\<lambda>_ x. x) (NewBytesPool (sort_key b_Capacity) () ex_sizes None) = (Ret (), p1)"
    "bytes.bz_inv p1" using bytesPool_Init_good [OF sz, of "sort_key b_Capacity" 0 "\<lambda>_ x. x" "()" None] by auto
  obtain vs p2 where r: "bytes_run [BGet 5] p1 = (Ret vs, p2)" using bytes_run_good [OF i(2)] by blast
  from AppendByte_appends [OF sz _ i(1) r, of "\<lparr>buf = [1, 2], blen = 2\<rparr>" "\<lambda>n. n" 3] i(1) r
  show ?thesis by (auto simp: bcap_def slice_bytes_def)
qed



end
