(* ===== verification/Context.thy ===== *)
theory Context
  imports Prelude
begin

text \<open>
  The package \<^verbatim>\<open>context\<close>: contexts with finalizers, dependencies between contexts, child contexts and the context
  pool (\<^verbatim>\<open>context.go\<close>, \<^verbatim>\<open>pool.go\<close>, \<^verbatim>\<open>options.go\<close>, \<^verbatim>\<open>cancel.go\<close>).

  Contexts are addresses into a world that also holds the pool of contexts (a bounded queue), the goroutines that
  wait in \<^verbatim>\<open>finalize\<close> with the finalizers they captured, and a log of the finalizers and closers of other
  packages in the order in which they are called.  A call through a chain of parents uses the stack;
  \<open>n\<close> bounds the depth, since the parents of pooled contexts can form a cycle.  The pooled slices of
  finalizers are empty when they are taken and carry no state beyond their capacity.
\<close>

section \<open>State\<close>

datatype 'x fz = ExtF 'x | CtxF nat

record 'x finalizeable =
  f_finalizer :: "'x fz option"
  f_closer :: "'x option"

record ('g, 'x) ctx =
  goCtx :: "'g option"
  pooled :: bool
  c_done :: bool
  wg :: int
  finalizeables :: "'x finalizeable list option"
  parent :: "nat option"
  checkedAndNotSampled :: bool

record ('g, 'x) world =
  ctxs :: "nat \<Rightarrow> ('g, 'x) ctx"
  next_ctx :: nat
  pool_free :: "nat list"
  pool_cap :: nat
  pending :: "(nat \<times> 'x finalizeable list) list"
  calls_log :: "'x list"

datatype ctx_panic = NegativeWaitGroup | StackOverflow | Deadlock

definition empty_ctx :: "bool \<Rightarrow> ('g, 'x) ctx" where
  "empty_ctx p = \<lparr>goCtx = None, pooled = p, c_done = False, wg = 0, finalizeables = None, parent = None,
     checkedAndNotSampled = False\<rparr>"

definition new_world :: "nat \<Rightarrow> ('g, 'x) world" where
  "new_world cap = \<lparr>ctxs = (\<lambda>_. empty_ctx False), next_ctx = 0, pool_free = [], pool_cap = cap,
     pending = [], calls_log = []\<rparr>"

definition upd_ctx :: "nat \<Rightarrow> (('g, 'x) ctx \<Rightarrow> ('g, 'x) ctx) \<Rightarrow> ('g, 'x) world \<Rightarrow> ('g, 'x) world" where
  "upd_ctx c f w = w\<lparr>ctxs := (ctxs w)(c := f (ctxs w c))\<rparr>"

section \<open>Creation and the pool\<close>

definition alloc_ctx :: "bool \<Rightarrow> ('g, 'x) world \<Rightarrow> nat \<times> ('g, 'x) world" where
  "alloc_ctx p w =
     (next_ctx w, w\<lparr>ctxs := (ctxs w)(next_ctx w := empty_ctx p), next_ctx := next_ctx w + 1\<rparr>)"

definition NewContext :: "('g, 'x) world \<Rightarrow> nat \<times> ('g, 'x) world" where
  "NewContext w = alloc_ctx False w"

definition newPooledContext :: "('g, 'x) world \<Rightarrow> nat \<times> ('g, 'x) world" where
  "newPooledContext w = alloc_ctx True w"

definition ctxPool_Get :: "('g, 'x) world \<Rightarrow> nat \<times> ('g, 'x) world" where
  "ctxPool_Get w =
     (case pool_free w of [] \<Rightarrow> newPooledContext w | c # cs \<Rightarrow> (c, w\<lparr>pool_free := cs\<rparr>))"

definition ctxPool_Put :: "nat \<Rightarrow> ('g, 'x) world \<Rightarrow> ('g, 'x) world" where
  "ctxPool_Put c w = (if length (pool_free w) < pool_cap w then w\<lparr>pool_free := pool_free w @ [c]\<rparr> else w)"

section \<open>Operations\<close>

definition GoContext :: "nat \<Rightarrow> ('g, 'x) world \<Rightarrow> 'g option" where
  "GoContext c w = goCtx (ctxs w c)"

definition SetGoContext :: "nat \<Rightarrow> 'g option \<Rightarrow> ('g, 'x) world \<Rightarrow> ('g, 'x) world" where
  "SetGoContext c v w = upd_ctx c (\<lambda>x. x\<lparr>goCtx := v\<rparr>) w"

fun IsClosed :: "nat \<Rightarrow> nat \<Rightarrow> ('g, 'x) world \<Rightarrow> (ctx_panic, bool) outcome" where
  "IsClosed 0 c w = Panic StackOverflow"
| "IsClosed (Suc n) c w =
     (case parent (ctxs w c) of Some p \<Rightarrow> IsClosed n p w | None \<Rightarrow> Ret (c_done (ctxs w c)))"

definition registerFinalizeable :: "nat \<Rightarrow> 'x finalizeable \<Rightarrow> ('g, 'x) world \<Rightarrow> ('g, 'x) world" where
  "registerFinalizeable c f w =
     (if c_done (ctxs w c) then w
      else upd_ctx c (\<lambda>x. x\<lparr>finalizeables :=
        Some (case finalizeables x of Some fs \<Rightarrow> fs @ [f] | None \<Rightarrow> [f])\<rparr>) w)"

fun RegisterFinalizer ::
    "nat \<Rightarrow> nat \<Rightarrow> 'x fz option \<Rightarrow> ('g, 'x) world \<Rightarrow> (ctx_panic, ('g, 'x) world) outcome" where
  "RegisterFinalizer 0 c f w = Panic StackOverflow"
| "RegisterFinalizer (Suc n) c f w =
     (case parent (ctxs w c) of Some p \<Rightarrow> RegisterFinalizer n p f w
      | None \<Rightarrow> Ret (registerFinalizeable c \<lparr>f_finalizer = f, f_closer = None\<rparr> w))"

fun RegisterCloser ::
    "nat \<Rightarrow> nat \<Rightarrow> 'x option \<Rightarrow> ('g, 'x) world \<Rightarrow> (ctx_panic, ('g, 'x) world) outcome" where
  "RegisterCloser 0 c f w = Panic StackOverflow"
| "RegisterCloser (Suc n) c f w =
     (case parent (ctxs w c) of Some p \<Rightarrow> RegisterCloser n p f w
      | None \<Rightarrow> Ret (registerFinalizeable c \<lparr>f_finalizer = None, f_closer = f\<rparr> w))"

text \<open>
  \<^verbatim>\<open>DependsOn\<close> calls the blocker while it holds the lock of the context: a blocker whose chain of parents reaches
  the context itself never gets the lock.
\<close>

fun chain_reaches :: "nat \<Rightarrow> nat \<Rightarrow> nat \<Rightarrow> ('g, 'x) world \<Rightarrow> bool" where
  "chain_reaches 0 b c w \<longleftrightarrow> False"
| "chain_reaches (Suc n) b c w \<longleftrightarrow>
     b = c \<or> (case parent (ctxs w b) of Some p \<Rightarrow> chain_reaches n p c w | None \<Rightarrow> False)"

fun DependsOn :: "nat \<Rightarrow> nat \<Rightarrow> nat \<Rightarrow> ('g, 'x) world \<Rightarrow> (ctx_panic, ('g, 'x) world) outcome" where
  "DependsOn 0 c blocker w = Panic StackOverflow"
| "DependsOn (Suc n) c blocker w =
     (case parent (ctxs w c) of Some p \<Rightarrow> DependsOn n p blocker w
      | None \<Rightarrow>
          (if \<not> c_done (ctxs w c) then
             if chain_reaches n blocker c w then Panic Deadlock
             else RegisterFinalizer n blocker (Some (CtxF c)) (upd_ctx c (\<lambda>x. x\<lparr>wg := wg x + 1\<rparr>) w)
           else Ret w))"

text \<open>\<^verbatim>\<open>ctx.Finalize\<close>: a context that was depended upon has closed.\<close>

definition ctx_Finalize :: "nat \<Rightarrow> ('g, 'x) world \<Rightarrow> (ctx_panic, ('g, 'x) world) outcome" where
  "ctx_Finalize c w =
     (if wg (ctxs w c) < 1 then Panic NegativeWaitGroup else Ret (upd_ctx c (\<lambda>x. x\<lparr>wg := wg x - 1\<rparr>) w))"

fun Reset :: "nat \<Rightarrow> nat \<Rightarrow> ('g, 'x) world \<Rightarrow> (ctx_panic, ('g, 'x) world) outcome" where
  "Reset 0 c w = Panic StackOverflow"
| "Reset (Suc n) c w =
     (case parent (ctxs w c) of Some p \<Rightarrow> Reset n p w
      | None \<Rightarrow> Ret (upd_ctx c (\<lambda>x. x\<lparr>c_done := False, finalizeables := None, goCtx := None,
          checkedAndNotSampled := False\<rparr>) w))"

definition returnToPool :: "nat \<Rightarrow> nat \<Rightarrow> ('g, 'x) world \<Rightarrow> (ctx_panic, ('g, 'x) world) outcome" where
  "returnToPool n c w =
     (if \<not> pooled (ctxs w c) then Ret w else bind_outcome (Reset n c w) (\<lambda>w. Ret (ctxPool_Put c w)))"

text \<open>The loop of \<^verbatim>\<open>finalize\<close> over the captured finalizers.\<close>

definition call_finalizeable :: "'x finalizeable \<Rightarrow> ('g, 'x) world \<Rightarrow> (ctx_panic, ('g, 'x) world) outcome" where
  "call_finalizeable f w =
     bind_outcome
       (case f_finalizer f of None \<Rightarrow> Ret w
        | Some (ExtF x) \<Rightarrow> Ret (w\<lparr>calls_log := calls_log w @ [x]\<rparr>)
        | Some (CtxF d) \<Rightarrow> ctx_Finalize d w)
       (\<lambda>w. case f_closer f of None \<Rightarrow> Ret w | Some x \<Rightarrow> Ret (w\<lparr>calls_log := calls_log w @ [x]\<rparr>))"

fun call_finalizeables :: "'x finalizeable list \<Rightarrow> ('g, 'x) world \<Rightarrow> (ctx_panic, ('g, 'x) world) outcome" where
  "call_finalizeables [] w = Ret w"
| "call_finalizeables (f # fs) w = bind_outcome (call_finalizeable f w) (call_finalizeables fs)"

text \<open>\<^verbatim>\<open>finalize\<close> once its wait for the dependencies is over.\<close>

definition finalize :: "nat \<Rightarrow> nat \<Rightarrow> 'x finalizeable list \<Rightarrow> ('g, 'x) world \<Rightarrow> (ctx_panic, ('g, 'x) world) outcome" where
  "finalize n c fs w = bind_outcome (call_finalizeables fs w) (returnToPool n c)"

datatype closeMode = closeAsync | closeBlock

text \<open>
  \<^verbatim>\<open>close\<close>.  A goroutine, or a blocking call that has to wait for dependencies, is left pending with the
  finalizers it captured.
\<close>

definition close ::
    "nat \<Rightarrow> closeMode \<Rightarrow> nat \<Rightarrow> ('g, 'x) world \<Rightarrow> (ctx_panic, ('g, 'x) world) outcome" where
  "close n mode c w =
     (if c_done (ctxs w c) then Ret w
      else
        (let w = upd_ctx c (\<lambda>x. x\<lparr>c_done := True\<rparr>) w in
         case finalizeables (ctxs w c) of
           None \<Rightarrow> returnToPool n c w
         | Some f \<Rightarrow>
             (let w = upd_ctx c (\<lambda>x. x\<lparr>finalizeables := None\<rparr>) w in
              if mode = closeBlock \<and> wg (ctxs w c) = 0 then finalize n c f w
              else Ret (w\<lparr>pending := pending w @ [(c, f)]\<rparr>))))"

fun Close_with ::
    "nat \<Rightarrow> closeMode \<Rightarrow> nat \<Rightarrow> ('g, 'x) world \<Rightarrow> (ctx_panic, ('g, 'x) world) outcome" where
  "Close_with 0 mode c w = Panic StackOverflow"
| "Close_with (Suc n) mode c w =
     (case parent (ctxs w c) of
        Some p \<Rightarrow>
          bind_outcome (IsClosed n p w) (\<lambda>closed.
          bind_outcome (if closed then Ret w else Close_with n mode p w) (\<lambda>w.
          returnToPool n c w))
      | None \<Rightarrow> close n mode c w)"

definition Close :: "nat \<Rightarrow> nat \<Rightarrow> ('g, 'x) world \<Rightarrow> (ctx_panic, ('g, 'x) world) outcome" where
  "Close n c w = Close_with n closeAsync c w"

definition BlockingClose :: "nat \<Rightarrow> nat \<Rightarrow> ('g, 'x) world \<Rightarrow> (ctx_panic, ('g, 'x) world) outcome" where
  "BlockingClose n c w = Close_with n closeBlock c w"

text \<open>The \<open>i\<close>-th pending call of \<^verbatim>\<open>finalize\<close> runs when the wait group of its context is zero.\<close>

definition run_pending :: "nat \<Rightarrow> nat \<Rightarrow> ('g, 'x) world \<Rightarrow> (ctx_panic, ('g, 'x) world) outcome" where
  "run_pending n i w =
     (if i < length (pending w) \<and> wg (ctxs w (fst (pending w ! i))) = 0 then
        finalize n (fst (pending w ! i)) (snd (pending w ! i))
          (w\<lparr>pending := take i (pending w) @ drop (Suc i) (pending w)\<rparr>)
      else Ret w)"

definition setParentCtx :: "nat \<Rightarrow> nat \<Rightarrow> ('g, 'x) world \<Rightarrow> ('g, 'x) world" where
  "setParentCtx c p w = upd_ctx c (\<lambda>x. x\<lparr>parent := Some p\<rparr>) w"

definition parentCtx :: "nat \<Rightarrow> ('g, 'x) world \<Rightarrow> nat option" where
  "parentCtx c w = parent (ctxs w c)"

definition newChildContext :: "nat \<Rightarrow> ('g, 'x) world \<Rightarrow> nat \<times> ('g, 'x) world" where
  "newChildContext c w =
     (let (child, w) = (if pooled (ctxs w c) then ctxPool_Get w else NewContext w)
      in (child, setParentCtx child c w))"

text \<open>
  The type assertions of \<^verbatim>\<open>spanIsSampled\<close> are arguments: \<open>as_jaeger\<close> gives the context of a Jaeger span, \<open>as_context\<close> the Jaeger context it is.
\<close>

definition spanIsSampled :: "('sp \<Rightarrow> 'c option) \<Rightarrow> ('c \<Rightarrow> 'd option) \<Rightarrow> ('d \<Rightarrow> bool) \<Rightarrow> 'sp \<Rightarrow> bool" where
  "spanIsSampled as_jaeger as_context is_sampled sp =
     (case as_jaeger sp of
        None \<Rightarrow> False
      | Some jaegerCtx \<Rightarrow>
          (case as_context jaegerCtx of None \<Rightarrow> False | Some spanCtx \<Rightarrow> if \<not> is_sampled spanCtx then False else True))"

text \<open>
  \<^verbatim>\<open>StartTraceSpan\<close>: \<open>has_span\<close>, \<open>start\<close> and \<open>sampled\<close> are the tracing library.  Returns the context to use, the
  span and whether tracing is on.
\<close>

definition StartTraceSpan ::
    "('g \<Rightarrow> bool) \<Rightarrow> ('g \<Rightarrow> string \<Rightarrow> 'sp \<times> 'g) \<Rightarrow> ('sp \<Rightarrow> bool) \<Rightarrow> string \<Rightarrow> nat \<Rightarrow> ('g, 'x) world \<Rightarrow>
     (nat \<times> 'sp option \<times> bool) \<times> ('g, 'x) world" where
  "StartTraceSpan has_span start sampled name c w =
     (case GoContext c w of
        None \<Rightarrow> ((c, None, False), w)
      | Some g \<Rightarrow>
          (if checkedAndNotSampled (ctxs w c) then ((c, None, False), w)
           else
             (let (sp, spCtx) = start g name in
              if \<not> has_span g \<and> \<not> sampled sp then
                ((c, None, False), upd_ctx c (\<lambda>x. x\<lparr>checkedAndNotSampled := True\<rparr>) w)
              else
                (let (child, w) = newChildContext c w
                 in ((child, Some sp, True), SetGoContext child (Some spCtx) w)))))"

section \<open>Cancellable\<close>

definition NewCancellable :: int where "NewCancellable = 0"
definition IsCancelled :: "int \<Rightarrow> bool" where "IsCancelled c \<longleftrightarrow> c = 1"
definition Cancel :: "int \<Rightarrow> int" where "Cancel c = 1"
definition Cancellable_Reset :: "int \<Rightarrow> int" where "Cancellable_Reset c = 0"

text \<open>The no-op cancellable has no state.\<close>

definition NewNoOpCanncellable :: unit where "NewNoOpCanncellable = ()"
definition NoOp_IsCancelled :: "unit \<Rightarrow> bool" where "NoOp_IsCancelled c \<longleftrightarrow> False"
definition NoOp_Cancel :: "unit \<Rightarrow> unit" where "NoOp_Cancel c = c"
definition NoOp_Reset :: "unit \<Rightarrow> unit" where "NoOp_Reset c = c"

section \<open>Options\<close>

definition defaultInitFinalizersCap :: int where "defaultInitFinalizersCap = 4"
definition defaultMaxFinalizersCap :: int where "defaultMaxFinalizersCap = 2 ^ 16"

record 'po context_opts =
  contextPoolOpts :: 'po
  finalizerPoolOpts :: 'po
  maxPooledFinalizerCap :: int
  initPooledFinalizerCap :: int

definition context_NewOptions :: "'po \<Rightarrow> 'po context_opts" where
  "context_NewOptions po = \<lparr>contextPoolOpts = po, finalizerPoolOpts = po,
     maxPooledFinalizerCap = defaultMaxFinalizersCap, initPooledFinalizerCap = defaultInitFinalizersCap\<rparr>"

definition SetContextPoolOptions :: "'po context_opts \<Rightarrow> 'po \<Rightarrow> 'po context_opts" where
  [opt_field]: "SetContextPoolOptions os v = os\<lparr>contextPoolOpts := v\<rparr>"

definition ContextPoolOptions :: "'po context_opts \<Rightarrow> 'po" where
  [opt_field]: "ContextPoolOptions os = contextPoolOpts os"

definition SetFinalizerPoolOptions :: "'po context_opts \<Rightarrow> 'po \<Rightarrow> 'po context_opts" where
  [opt_field]: "SetFinalizerPoolOptions os v = os\<lparr>finalizerPoolOpts := v\<rparr>"

definition FinalizerPoolOptions :: "'po context_opts \<Rightarrow> 'po" where
  [opt_field]: "FinalizerPoolOptions os = finalizerPoolOpts os"

definition SetMaxPooledFinalizerCapacity :: "'po context_opts \<Rightarrow> int \<Rightarrow> 'po context_opts" where
  [opt_field]: "SetMaxPooledFinalizerCapacity os v = os\<lparr>maxPooledFinalizerCap := v\<rparr>"

definition MaxPooledFinalizerCapacity :: "'po context_opts \<Rightarrow> int" where
  [opt_field]: "MaxPooledFinalizerCapacity os = maxPooledFinalizerCap os"

definition SetInitPooledFinalizerCapacity :: "'po context_opts \<Rightarrow> int \<Rightarrow> 'po context_opts" where
  [opt_field]: "SetInitPooledFinalizerCapacity os v = os\<lparr>initPooledFinalizerCap := v\<rparr>"

definition InitPooledFinalizerCapacity :: "'po context_opts \<Rightarrow> int" where
  [opt_field]: "InitPooledFinalizerCapacity os = initPooledFinalizerCap os"

interpretation cf_ctx: option_field ContextPoolOptions SetContextPoolOptions
  by unfold_locales (simp_all add: opt_field)

interpretation cf_fin: option_field FinalizerPoolOptions SetFinalizerPoolOptions
  by unfold_locales (simp_all add: opt_field)

interpretation cf_max: option_field MaxPooledFinalizerCapacity SetMaxPooledFinalizerCapacity
  by unfold_locales (simp_all add: opt_field)

interpretation cf_init: option_field InitPooledFinalizerCapacity SetInitPooledFinalizerCapacity
  by unfold_locales (simp_all add: opt_field)

section \<open>Dependencies that are still to be reported\<close>

text \<open>The number of registered and not yet called finalizers that report to the context \<open>d\<close>.\<close>

definition reports :: "nat \<Rightarrow> 'x finalizeable list \<Rightarrow> int" where
  "reports d fs = int (length (filter (\<lambda>f. f_finalizer f = Some (CtxF d)) fs))"

definition ctx_reports :: "nat \<Rightarrow> ('g, 'x) ctx \<Rightarrow> int" where
  "ctx_reports d x = (case finalizeables x of None \<Rightarrow> 0 | Some fs \<Rightarrow> reports d fs)"

definition outstanding :: "nat \<Rightarrow> ('g, 'x) world \<Rightarrow> int" where
  "outstanding d w = (\<Sum>c<next_ctx w. ctx_reports d (ctxs w c)) + sum_list (map (\<lambda>p. reports d (snd p)) (pending w))"

text \<open>The finalizers and closers of other packages in a list of finalizeables.\<close>

definition ext_calls :: "'x finalizeable list \<Rightarrow> 'x list" where
  "ext_calls fs = concat (map (\<lambda>f. (case f_finalizer f of Some (ExtF x) \<Rightarrow> [x] | _ \<Rightarrow> []) @
     (case f_closer f of Some x \<Rightarrow> [x] | None \<Rightarrow> [])) fs)"

lemma reports_simps [simp]:
  "reports d [] = 0"
  "reports d (f # fs) = (if f_finalizer f = Some (CtxF d) then 1 else 0) + reports d fs"
  "reports d (fs @ gs) = reports d fs + reports d gs"
  by (simp_all add: reports_def)

lemma reports_nonneg [simp]: "0 \<le> reports d fs"
  by (simp add: reports_def)

lemma ctx_reports_nonneg: "0 \<le> ctx_reports d x"
  by (simp add: ctx_reports_def split: option.split)

lemma outstanding_nonneg: "0 \<le> outstanding d w"
  unfolding outstanding_def by (intro add_nonneg_nonneg sum_nonneg sum_list_nonneg) (auto simp: ctx_reports_nonneg)

text \<open>Updates of one context, and of the pending calls.\<close>

lemma sum_fun_upd:
  fixes n :: nat
  assumes "c < n"
  shows "(\<Sum>x<n. g ((m(c := y)) x)) = (\<Sum>x<n. g (m x)) - g (m c) + (g y :: int)"
proof -
  have "(\<Sum>x<n. g ((m(c := y)) x)) = g ((m(c := y)) c) + (\<Sum>x\<in>{..<n} - {c}. g ((m(c := y)) x))"
    using assms by (intro sum.remove) simp_all
  moreover have "(\<Sum>x\<in>{..<n} - {c}. g ((m(c := y)) x)) = (\<Sum>x\<in>{..<n} - {c}. g (m x))" by (rule sum.cong) auto
  moreover have "(\<Sum>x<n. g (m x)) = g (m c) + (\<Sum>x\<in>{..<n} - {c}. g (m x))"
    using assms by (intro sum.remove) simp_all
  ultimately show ?thesis by simp
qed

lemma outstanding_upd_ctx:
  assumes "c < next_ctx w"
  shows "outstanding d (upd_ctx c f w) =
    outstanding d w - ctx_reports d (ctxs w c) + ctx_reports d (f (ctxs w c))"
proof -
  have w: "ctxs (upd_ctx c f w) = (ctxs w)(c := f (ctxs w c))" "next_ctx (upd_ctx c f w) = next_ctx w"
    "pending (upd_ctx c f w) = pending w" by (simp_all add: upd_ctx_def)
  show ?thesis unfolding outstanding_def w sum_fun_upd [OF assms] by simp
qed

lemma pending_remove:
  assumes "i < length ps"
  shows "sum_list (map (\<lambda>p. reports d (snd p)) (take i ps @ drop (Suc i) ps)) =
    sum_list (map (\<lambda>p. reports d (snd p)) ps) - reports d (snd (ps ! i))"
proof -
  have "sum_list (map (\<lambda>p. reports d (snd p)) ps) =
      sum_list (map (\<lambda>p. reports d (snd p)) (take i ps @ ps ! i # drop (Suc i) ps))"
    using id_take_nth_drop [OF assms] by simp
  then show ?thesis by simp
qed

text \<open>What calling a list of finalizers does, when every report it makes is awaited.\<close>

definition after_calls :: "'x finalizeable list \<Rightarrow> ('g, 'x) world \<Rightarrow> ('g, 'x) world" where
  "after_calls fs w = w\<lparr>ctxs := (\<lambda>d. (ctxs w d)\<lparr>wg := wg (ctxs w d) - reports d fs\<rparr>),
     calls_log := calls_log w @ ext_calls fs\<rparr>"

lemma call_finalizeable_after:
  assumes "\<forall>d. reports d [f] \<le> wg (ctxs w d)"
  shows "call_finalizeable f w = Ret (after_calls [f] w)"
proof (cases "f_finalizer f")
  case None
  then show ?thesis
    by (simp add: call_finalizeable_def after_calls_def ext_calls_def split: option.split)
next
  case (Some z)
  show ?thesis
  proof (cases z)
    case (ExtF x)
    with Some show ?thesis
      by (simp add: call_finalizeable_def after_calls_def ext_calls_def split: option.split)
  next
    case (CtxF d)
    have "1 \<le> wg (ctxs w d)" using assms Some CtxF by (auto dest: spec [of _ d])
    moreover have "(\<lambda>e. (ctxs w e)\<lparr>wg := wg (ctxs w e) - reports e [f]\<rparr>) =
        (ctxs w)(d := (ctxs w d)\<lparr>wg := wg (ctxs w d) - 1\<rparr>)"
      using Some CtxF by (auto simp: fun_eq_iff)
    ultimately show ?thesis using Some CtxF
      by (simp add: call_finalizeable_def after_calls_def ext_calls_def ctx_Finalize_def upd_ctx_def
          split: option.split)
  qed
qed

lemma call_finalizeables_after:
  "\<forall>d. reports d fs \<le> wg (ctxs w d) \<Longrightarrow> call_finalizeables fs w = Ret (after_calls fs w)"
proof (induction fs arbitrary: w)
  case Nil
  show ?case by (simp add: after_calls_def ext_calls_def)
next
  case (Cons f fs)
  have 1: "\<forall>d. reports d [f] \<le> wg (ctxs w d)"
  proof
    fix d
    show "reports d [f] \<le> wg (ctxs w d)"
      using Cons.prems [rule_format, of d] reports_nonneg [of d fs] reports_simps(3) [of d "[f]" fs]
      by (simp only: append_Cons append_Nil)
  qed
  have 2: "\<forall>d. reports d fs \<le> wg (ctxs (after_calls [f] w) d)"
  proof
    fix d
    show "reports d fs \<le> wg (ctxs (after_calls [f] w) d)"
      using Cons.prems [rule_format, of d] by (simp add: after_calls_def)
  qed
  have "after_calls fs (after_calls [f] w) = after_calls (f # fs) w"
    by (simp add: after_calls_def ext_calls_def fun_eq_iff algebra_simps)
  with call_finalizeable_after [OF 1] Cons.IH [OF 2] show ?case by simp
qed

lemma outstanding_after_calls [simp]: "outstanding d (after_calls fs w) = outstanding d w"
  by (simp add: outstanding_def after_calls_def ctx_reports_def)

section \<open>Worlds without a pool\<close>

definition plain :: "('g, 'x) world \<Rightarrow> bool" where
  "plain w \<longleftrightarrow> (\<forall>c. \<not> pooled (ctxs w c)) \<and> (\<forall>c\<ge>next_ctx w. ctxs w c = empty_ctx False) \<and>
     (\<forall>c p. parent (ctxs w c) = Some p \<longrightarrow> p < next_ctx w) \<and> (\<forall>p\<in>set (pending w). fst p < next_ctx w) \<and>
     (\<forall>d\<ge>next_ctx w. outstanding d w = 0) \<and> (\<forall>d. outstanding d w \<le> wg (ctxs w d))"

text \<open>One operation on contexts that exist.\<close>

inductive ctx_step :: "('g, 'x) world \<Rightarrow> ('g, 'x) world \<Rightarrow> bool" where
  new: "NewContext w = (c, w') \<Longrightarrow> ctx_step w w'"
| child: "c < next_ctx w \<Longrightarrow> newChildContext c w = (d, w') \<Longrightarrow> ctx_step w w'"
| goctx: "c < next_ctx w \<Longrightarrow> ctx_step w (SetGoContext c v w)"
| finalizer: "c < next_ctx w \<Longrightarrow> RegisterFinalizer n c (Some (ExtF x)) w = Ret w' \<Longrightarrow> ctx_step w w'"
| closer: "c < next_ctx w \<Longrightarrow> RegisterCloser n c f w = Ret w' \<Longrightarrow> ctx_step w w'"
| depends: "c < next_ctx w \<Longrightarrow> b < next_ctx w \<Longrightarrow> DependsOn n c b w = Ret w' \<Longrightarrow> ctx_step w w'"
| shut: "c < next_ctx w \<Longrightarrow> Close_with n mode c w = Ret w' \<Longrightarrow> ctx_step w w'"
| reset: "c < next_ctx w \<Longrightarrow> Reset n c w = Ret w' \<Longrightarrow> ctx_step w w'"
| run: "run_pending n i w = Ret w' \<Longrightarrow> ctx_step w w'"

inductive ctx_reach :: "('g, 'x) world \<Rightarrow> ('g, 'x) world \<Rightarrow> bool" where
  refl: "ctx_reach w w"
| step: "ctx_reach w w' \<Longrightarrow> ctx_step w' w'' \<Longrightarrow> ctx_reach w w''"

text \<open>Operations on a child end at the root of its chain of parents.\<close>

lemma RegisterFinalizer_root:
  "RegisterFinalizer n c f w = Ret w' \<Longrightarrow> plain w \<Longrightarrow> c < next_ctx w \<Longrightarrow>
   \<exists>r<next_ctx w. w' = registerFinalizeable r \<lparr>f_finalizer = f, f_closer = None\<rparr> w"
proof (induction n c f w rule: RegisterFinalizer.induct)
  case (2 n c f w)
  then show ?case by (cases "parent (ctxs w c)") (auto simp: plain_def)
qed simp

lemma RegisterCloser_root:
  "RegisterCloser n c f w = Ret w' \<Longrightarrow> plain w \<Longrightarrow> c < next_ctx w \<Longrightarrow>
   \<exists>r<next_ctx w. w' = registerFinalizeable r \<lparr>f_finalizer = None, f_closer = f\<rparr> w"
proof (induction n c f w rule: RegisterCloser.induct)
  case (2 n c f w)
  then show ?case by (cases "parent (ctxs w c)") (auto simp: plain_def)
qed simp

lemma Reset_root:
  "Reset n c w = Ret w' \<Longrightarrow> plain w \<Longrightarrow> c < next_ctx w \<Longrightarrow>
   \<exists>r<next_ctx w. w' = upd_ctx r (\<lambda>x. x\<lparr>c_done := False, finalizeables := None, goCtx := None,
     checkedAndNotSampled := False\<rparr>) w"
proof (induction n c w rule: Reset.induct)
  case (2 n c w)
  then show ?case by (cases "parent (ctxs w c)") (auto simp: plain_def)
qed simp

lemma DependsOn_root:
  "DependsOn n c b w = Ret w' \<Longrightarrow> plain w \<Longrightarrow> c < next_ctx w \<Longrightarrow>
   \<exists>r<next_ctx w. w' = w \<or> (\<exists>m. RegisterFinalizer m b (Some (CtxF r)) (upd_ctx r (\<lambda>x. x\<lparr>wg := wg x + 1\<rparr>) w) = Ret w')"
proof (induction n c b w rule: DependsOn.induct)
  case (2 n c b w)
  then show ?case by (cases "parent (ctxs w c)") (auto simp: plain_def split: if_splits)
qed simp

lemma returnToPool_plain: "\<not> pooled (ctxs w c) \<Longrightarrow> returnToPool n c w = Ret w"
  by (simp add: returnToPool_def)

text \<open>How far the wait group of a context exceeds the reports it can still get.\<close>

definition slack :: "nat \<Rightarrow> ('g, 'x) world \<Rightarrow> int" where
  "slack d w = wg (ctxs w d) - outstanding d w"

definition frame :: "('g, 'x) world \<Rightarrow> ('g, 'x) world \<Rightarrow> bool" where
  "frame w w' \<longleftrightarrow> next_ctx w' = next_ctx w \<and>
     (\<forall>c. pooled (ctxs w' c) = pooled (ctxs w c) \<and> parent (ctxs w' c) = parent (ctxs w c)) \<and>
     (\<forall>c\<ge>next_ctx w. ctxs w' c = ctxs w c) \<and> (\<forall>p\<in>set (pending w'). fst p < next_ctx w \<or> p \<in> set (pending w))"

lemma frame_trans: "frame w w' \<Longrightarrow> frame w' w'' \<Longrightarrow> frame w w''"
  by (auto simp: frame_def)

lemma plainI:
  assumes "plain w" and "frame w w'" and "\<forall>d. slack d w \<le> slack d w'"
  shows "plain w'"
proof -
  have "0 \<le> slack d w" for d using assms(1) by (simp add: plain_def slack_def)
  then have le: "outstanding d w' \<le> wg (ctxs w' d)" for d
    using assms(3) order_trans unfolding slack_def by (metis diff_ge_0_iff_ge)
  moreover have "outstanding d w' = 0" if "next_ctx w \<le> d" for d
    using assms(1,2) that le [of d] outstanding_nonneg [of d w']
    by (simp add: plain_def frame_def empty_ctx_def)
  ultimately show ?thesis using assms(1,2) by (auto simp: plain_def frame_def)
qed

lemma upd_ctx_frame:
  assumes "c < next_ctx w" and "pooled (f (ctxs w c)) = pooled (ctxs w c)" and "parent (f (ctxs w c)) = parent (ctxs w c)"
  shows "frame w (upd_ctx c f w)"
  using assms by (auto simp: frame_def upd_ctx_def)

lemma upd_ctx_slack:
  assumes "c < next_ctx w"
  shows "slack d (upd_ctx c f w) = slack d w + ctx_reports d (ctxs w c) - ctx_reports d (f (ctxs w c)) +
    (if d = c then wg (f (ctxs w c)) - wg (ctxs w c) else 0)"
  using outstanding_upd_ctx [OF assms, of d f] by (simp add: slack_def) (simp add: upd_ctx_def)

lemma register_frame: "r < next_ctx w \<Longrightarrow> frame w (registerFinalizeable r f w)"
  by (auto simp: registerFinalizeable_def frame_def upd_ctx_def)

lemma register_slack:
  assumes "r < next_ctx w"
  shows "slack d (registerFinalizeable r f w) = slack d w - (if c_done (ctxs w r) then 0 else reports d [f])"
  using upd_ctx_slack [OF assms, of d]
  by (simp add: registerFinalizeable_def ctx_reports_def split: option.split)

lemma finalize_plain:
  assumes "\<forall>c. \<not> pooled (ctxs w c)" and "\<forall>d. reports d fs + outstanding d w \<le> wg (ctxs w d)"
  shows "finalize n c fs w = Ret (after_calls fs w)"
proof -
  have "reports d fs \<le> wg (ctxs w d)" for d
    using assms(2) [rule_format, of d] outstanding_nonneg [of d w] by linarith
  then have "\<forall>d. reports d fs \<le> wg (ctxs w d)" by blast
  from call_finalizeables_after [OF this] assms(1) show ?thesis
    by (simp add: finalize_def returnToPool_def after_calls_def)
qed

lemma after_calls_slack: "slack d (after_calls fs w) = slack d w - reports d fs"
  unfolding slack_def by simp (simp add: after_calls_def)

lemma after_calls_frame: "(\<forall>c\<ge>next_ctx w. reports c fs = 0) \<Longrightarrow> frame w (after_calls fs w)"
  by (auto simp: frame_def after_calls_def)

text \<open>The call of \<^verbatim>\<open>close\<close> at a root: it returns, and no slack is lost.\<close>

lemma close_plain:
  assumes "plain w" and "c < next_ctx w"
  shows "\<exists>w'. close n mode c w = Ret w' \<and> frame w w' \<and> (\<forall>d. slack d w \<le> slack d w')"
proof (cases "c_done (ctxs w c)")
  case True
  then show ?thesis by (auto simp: close_def frame_def)
next
  case False
  let ?w1 = "upd_ctx c (\<lambda>x. x\<lparr>c_done := True\<rparr>) w"
  have s1: "frame w ?w1" "slack d ?w1 = slack d w" for d
    using upd_ctx_frame [OF assms(2)] upd_ctx_slack [OF assms(2), of d] by (simp_all add: ctx_reports_def)
  have np: "\<forall>d. \<not> pooled (ctxs w d)" using assms(1) by (simp add: plain_def)
  show ?thesis
  proof (cases "finalizeables (ctxs w c)")
    case None
    with False s1 np show ?thesis by (auto simp: close_def Let_def returnToPool_def upd_ctx_def)
  next
    case (Some fs)
    let ?w2 = "upd_ctx c (\<lambda>x. x\<lparr>finalizeables := None\<rparr>) ?w1"
    have c1: "c < next_ctx ?w1" using assms(2) by (simp add: upd_ctx_def)
    have s2: "frame ?w1 ?w2" "slack d ?w2 = slack d w + reports d fs" for d
      using upd_ctx_frame [OF c1] upd_ctx_slack [OF c1, of d] s1(2) [of d] Some
      by (simp_all add: ctx_reports_def) (simp add: upd_ctx_def)
    note fr = frame_trans [OF s1(1) s2(1)]
    have pl: "plain w" and n2: "next_ctx ?w2 = next_ctx w" using assms(1) fr by (simp_all add: frame_def)
    have sl: "0 \<le> slack d w" for d using assms(1) by (simp add: plain_def slack_def)
    show ?thesis
    proof (cases "mode = closeBlock \<and> wg (ctxs ?w2 c) = 0")
      case True
      have "reports d fs + outstanding d ?w2 \<le> wg (ctxs ?w2 d)" for d
        using s2(2) [of d] sl [of d] unfolding slack_def by linarith
      then have "\<forall>d. reports d fs + outstanding d ?w2 \<le> wg (ctxs ?w2 d)" by blast
      moreover have "\<forall>d. \<not> pooled (ctxs ?w2 d)" using np by (simp add: upd_ctx_def)
      ultimately have f: "finalize n c fs ?w2 = Ret (after_calls fs ?w2)" by (rule finalize_plain [rotated])
      have "reports d fs = 0" if "next_ctx w \<le> d" for d
      proof -
        have "outstanding d w = 0" using assms(1) that by (simp add: plain_def)
        moreover have "reports d fs \<le> outstanding d w"
          using s2(2) [of d] outstanding_nonneg [of d ?w2] that assms(2) by (simp add: slack_def upd_ctx_def)
        ultimately show ?thesis using reports_nonneg [of d fs] by simp
      qed
      then have "frame ?w2 (after_calls fs ?w2)" using n2 by (simp add: after_calls_frame)
      moreover have "slack d (after_calls fs ?w2) = slack d w" for d using s2(2) [of d] by (simp add: after_calls_slack)
      ultimately show ?thesis
        using f True False Some frame_trans [OF fr] by (auto simp: close_def Let_def) (auto simp: upd_ctx_def)
    next
      case mode: False
      let ?w3 = "?w2\<lparr>pending := pending ?w2 @ [(c, fs)]\<rparr>"
      have "frame ?w2 ?w3" using assms(2) n2 by (simp add: frame_def)
      moreover have "slack d ?w3 = slack d w" for d
        using s2(2) [of d] by (simp add: slack_def outstanding_def)
      moreover have "close n mode c w = Ret ?w3"
        using False Some mode by (auto simp: close_def upd_ctx_def Let_def)
      ultimately show ?thesis using frame_trans [OF fr] by (metis order_refl)
    qed
  qed
qed

lemma Close_with_plain:
  "Close_with n mode c w = Ret w' \<Longrightarrow> plain w \<Longrightarrow> c < next_ctx w \<Longrightarrow>
   frame w w' \<and> (\<forall>d. slack d w \<le> slack d w')"
proof (induction n mode c w arbitrary: w' rule: Close_with.induct)
  case (2 n mode c w)
  show ?case
  proof (cases "parent (ctxs w c)")
    case None
    with 2(2) close_plain [OF 2(3,4), of n mode] show ?thesis by auto
  next
    case (Some p)
    then have p: "p < next_ctx w" using 2(3) by (auto simp: plain_def)
    obtain b w1 where b: "IsClosed n p w = Ret b" "(if b then Ret w else Close_with n mode p w) = Ret w1"
      "returnToPool n c w1 = Ret w'" using 2(2) Some by auto
    have w1: "frame w w1 \<and> (\<forall>d. slack d w \<le> slack d w1)"
    proof (cases b)
      case True
      with b(2) show ?thesis by (simp add: frame_def)
    next
      case False
      with b(2) 2(1) [OF Some False _ 2(3) p] show ?thesis by simp
    qed
    moreover have "w' = w1" using b(3) w1 2(3) by (simp add: returnToPool_def frame_def plain_def)
    ultimately show ?thesis by simp
  qed
qed simp

lemma run_pending_plain:
  assumes "plain w"
  shows "\<exists>w'. run_pending n i w = Ret w' \<and> frame w w' \<and> (\<forall>d. slack d w \<le> slack d w') \<and>
    (i < length (pending w) \<and> wg (ctxs w (fst (pending w ! i))) = 0 \<longrightarrow>
       calls_log w' = calls_log w @ ext_calls (snd (pending w ! i)) \<and>
       pending w' = take i (pending w) @ drop (Suc i) (pending w))"
proof (cases "i < length (pending w) \<and> wg (ctxs w (fst (pending w ! i))) = 0")
  case True
  let ?fs = "snd (pending w ! i)"
  let ?w1 = "w\<lparr>pending := take i (pending w) @ drop (Suc i) (pending w)\<rparr>"
  have o: "outstanding d ?w1 = outstanding d w - reports d ?fs" for d
    using pending_remove [of i "pending w" d] True by (simp add: outstanding_def)
  have "reports d ?fs + outstanding d ?w1 \<le> wg (ctxs ?w1 d)" for d
    using o [of d] assms by (simp add: plain_def)
  then have f: "finalize n (fst (pending w ! i)) ?fs ?w1 = Ret (after_calls ?fs ?w1)"
    using assms by (intro finalize_plain) (simp_all add: plain_def)
  have r0: "\<forall>d\<ge>next_ctx ?w1. reports d ?fs = 0"
  proof (intro allI impI)
    fix d assume "next_ctx ?w1 \<le> d"
    then have "outstanding d w = 0" using assms by (simp add: plain_def)
    then show "reports d ?fs = 0" using o [of d] outstanding_nonneg [of d ?w1] reports_nonneg [of d ?fs] by linarith
  qed
  have "frame w ?w1" by (auto simp: frame_def dest: in_set_takeD in_set_dropD)
  then have "frame w (after_calls ?fs ?w1)" using frame_trans after_calls_frame [OF r0] by blast
  moreover have "slack d (after_calls ?fs ?w1) = slack d w" for d
    using o [of d] by (simp add: after_calls_slack) (simp add: slack_def)
  ultimately show ?thesis using True f by (simp add: run_pending_def after_calls_def)
next
  case False
  then show ?thesis by (auto simp: run_pending_def frame_def)
qed

lemma depends_plain:
  assumes "plain w" and "r < next_ctx w" and "b < next_ctx w"
    and "RegisterFinalizer m b (Some (CtxF r)) (upd_ctx r (\<lambda>x. x\<lparr>wg := wg x + 1\<rparr>) w) = Ret w'"
  shows "\<exists>q<next_ctx w. frame w w' \<and> (\<forall>d. slack d w' = slack d w + (if d = r \<and> c_done (ctxs w q) then 1 else 0))"
proof -
  let ?w1 = "upd_ctx r (\<lambda>x. x\<lparr>wg := wg x + 1\<rparr>) w"
  have f1: "frame w ?w1" using upd_ctx_frame [OF assms(2)] by simp
  have s1: "slack d ?w1 = slack d w + (if d = r then 1 else 0)" for d
    using upd_ctx_slack [OF assms(2), of d] by (simp add: ctx_reports_def)
  have "plain ?w1" using s1 by (intro plainI [OF assms(1) f1]) simp
  moreover have n1: "next_ctx ?w1 = next_ctx w" by (simp add: upd_ctx_def)
  ultimately obtain q where q: "q < next_ctx w" "w' = registerFinalizeable q \<lparr>f_finalizer = Some (CtxF r), f_closer = None\<rparr> ?w1"
    using RegisterFinalizer_root [OF assms(4)] assms(3) by auto
  have "c_done (ctxs ?w1 q) = c_done (ctxs w q)" by (simp add: upd_ctx_def)
  with q s1 register_slack [of q ?w1] frame_trans [OF f1 register_frame, of q] n1 show ?thesis by auto
qed

lemma new_plain:
  assumes "plain w"
  shows "plain (snd (NewContext w)) \<and> (\<forall>d. slack d (snd (NewContext w)) = slack d w)"
proof -
  let ?w = "snd (NewContext w)"
  have same: "ctxs ?w = ctxs w"
    using assms by (auto simp: NewContext_def alloc_ctx_def plain_def fun_eq_iff)
  have "ctx_reports d (ctxs w (next_ctx w)) = 0" for d
    using assms by (simp add: plain_def ctx_reports_def empty_ctx_def)
  then have o: "outstanding d ?w = outstanding d w" for d
    unfolding outstanding_def same by (simp add: NewContext_def alloc_ctx_def)
  have "next_ctx ?w = next_ctx w + 1" "pending ?w = pending w" by (simp_all add: NewContext_def alloc_ctx_def)
  with assms o same show ?thesis unfolding plain_def slack_def by (auto intro: less_SucI)
qed

lemma setParent_plain:
  assumes "plain w" and "p < next_ctx w" and "c < next_ctx w"
  shows "plain (setParentCtx c p w) \<and> (\<forall>d. slack d (setParentCtx c p w) = slack d w)"
proof -
  let ?f = "\<lambda>x. x\<lparr>parent := Some p\<rparr>"
  have s: "slack d (upd_ctx c ?f w) = slack d w" for d
    using upd_ctx_slack [OF assms(3), of d ?f] by (simp add: ctx_reports_def)
  have o: "outstanding d (upd_ctx c ?f w) = outstanding d w" for d
    using outstanding_upd_ctx [OF assms(3), of d ?f] by (simp add: ctx_reports_def)
  have "plain (upd_ctx c ?f w)"
    using assms o unfolding plain_def by (auto simp: upd_ctx_def)
  with s show ?thesis by (simp add: setParentCtx_def)
qed

lemma child_plain:
  assumes "plain w" and "c < next_ctx w" and "newChildContext c w = (d, w')"
  shows "plain w' \<and> (\<forall>e. slack e w' = slack e w)"
proof -
  let ?w = "snd (NewContext w)"
  have "\<not> pooled (ctxs w c)" using assms(1) by (simp add: plain_def)
  then have "w' = setParentCtx (next_ctx w) c ?w"
    using assms(3) by (auto simp: newChildContext_def NewContext_def alloc_ctx_def)
  moreover have "next_ctx ?w = next_ctx w + 1" by (simp add: NewContext_def alloc_ctx_def)
  ultimately show ?thesis
    using new_plain [OF assms(1)] setParent_plain [of ?w c "next_ctx w"] assms(2) by simp
qed

lemma register_plain:
  assumes "plain w" and "r < next_ctx w" and "\<forall>d. reports d [f] = 0"
  shows "plain (registerFinalizeable r f w) \<and> (\<forall>d. slack d w \<le> slack d (registerFinalizeable r f w))"
proof -
  have "\<forall>d. slack d w \<le> slack d (registerFinalizeable r f w)" using register_slack [OF assms(2)] assms(3) by simp
  with plainI [OF assms(1) register_frame [OF assms(2)]] show ?thesis by blast
qed

lemma ctx_step_plain:
  assumes "ctx_step w w'" and "plain w"
  shows "plain w' \<and> (\<forall>d. slack d w \<le> slack d w')"
  using assms
proof cases
  case (new c)
  then show ?thesis using new_plain [OF assms(2)] by (metis snd_conv order_refl)
next
  case (child c d)
  then show ?thesis using child_plain [OF assms(2)] by (metis order_refl)
next
  case (goctx c v)
  have "slack d w' = slack d w" for d
    using upd_ctx_slack [OF goctx(2), of d] goctx(1) by (simp add: SetGoContext_def ctx_reports_def)
  moreover have "frame w w'" using upd_ctx_frame [OF goctx(2)] goctx(1) by (simp add: SetGoContext_def)
  ultimately show ?thesis using plainI [OF assms(2)] by simp
next
  case (finalizer c n x)
  then obtain r where "r < next_ctx w" "w' = registerFinalizeable r \<lparr>f_finalizer = Some (ExtF x), f_closer = None\<rparr> w"
    using RegisterFinalizer_root assms(2) by blast
  then show ?thesis using register_plain [OF assms(2)] by simp
next
  case (closer c n f)
  then obtain r where "r < next_ctx w" "w' = registerFinalizeable r \<lparr>f_finalizer = None, f_closer = f\<rparr> w"
    using RegisterCloser_root assms(2) by blast
  then show ?thesis using register_plain [OF assms(2)] by simp
next
  case (depends c b n)
  then obtain r where r: "r < next_ctx w" "w' = w \<or>
      (\<exists>m. RegisterFinalizer m b (Some (CtxF r)) (upd_ctx r (\<lambda>x. x\<lparr>wg := wg x + 1\<rparr>) w) = Ret w')"
    using DependsOn_root assms(2) by blast
  from r(2) show ?thesis
  proof
    assume "w' = w"
    with assms(2) show ?thesis by simp
  next
    assume "\<exists>m. RegisterFinalizer m b (Some (CtxF r)) (upd_ctx r (\<lambda>x. x\<lparr>wg := wg x + 1\<rparr>) w) = Ret w'"
    with depends_plain [OF assms(2) r(1) depends(2)] have
      "frame w w' \<and> (\<forall>d. slack d w \<le> slack d w')" by fastforce
    then show ?thesis using plainI [OF assms(2)] by blast
  qed
next
  case (shut c n mode)
  then show ?thesis using Close_with_plain [OF shut(2) assms(2) shut(1)] plainI [OF assms(2)] by blast
next
  case (reset c n)
  then obtain r where r: "r < next_ctx w" "w' = upd_ctx r (\<lambda>x. x\<lparr>c_done := False, finalizeables := None,
      goCtx := None, checkedAndNotSampled := False\<rparr>) w" using Reset_root assms(2) by blast
  have "slack d w \<le> slack d w'" for d
    using upd_ctx_slack [OF r(1), of d] r(2) ctx_reports_nonneg [of d "ctxs w r"] by (simp add: ctx_reports_def)
  moreover have "frame w w'" using upd_ctx_frame [OF r(1)] r(2) by simp
  ultimately show ?thesis using plainI [OF assms(2)] by blast
next
  case (run n i)
  then show ?thesis using run_pending_plain [OF assms(2), of n i] plainI [OF assms(2)] by auto
qed

lemma ctx_reach_plain:
  "ctx_reach w w' \<Longrightarrow> plain w \<Longrightarrow> plain w' \<and> (\<forall>d. slack d w \<le> slack d w')"
proof (induction rule: ctx_reach.induct)
  case (step w w' w'')
  then show ?case using ctx_step_plain [OF step(2)] by (meson order_trans)
qed simp

lemma new_world_plain: "plain (new_world cap)"
  by (simp add: plain_def new_world_def outstanding_def empty_ctx_def ctx_reports_def)

section \<open>Properties\<close>


text \<open>Two contexts, the second of which is closed.\<close>

definition ex_world :: "(unit, nat) world" where
  "ex_world = the_ret (Close 2 1 (snd (NewContext (snd (NewContext (new_world 0))))))"

lemma ex_world_reach: "ctx_reach (new_world 0) ex_world"
proof -
  let ?w0 = "new_world 0 :: (unit, nat) world"
  let ?w1 = "snd (NewContext ?w0)" and ?w2 = "snd (NewContext (snd (NewContext ?w0)))"
  have 1: "ctx_step ?w0 ?w1" "ctx_step ?w1 ?w2" by (rule ctx_step.new, rule surjective_pairing)+
  have "Close_with 2 closeAsync 1 ?w2 = Ret ex_world" "1 < next_ctx ?w2"
    by (simp_all add: ex_world_def Close_def numeral_2_eq_2 new_world_def NewContext_def alloc_ctx_def
        empty_ctx_def close_def upd_ctx_def returnToPool_def)
  then have "ctx_step ?w2 ex_world" by (intro ctx_step.shut)
  with 1 show ?thesis by (meson ctx_reach.intros)
qed


text \<open>
  A context that is made to depend on a context that is already closed is never finalized.  The wait group is
  raised, but a closed context drops the registration that would lower it again; whatever happens
  afterwards, a reset of the context included, its pending call of \<^verbatim>\<open>finalize\<close> does not get past the wait.
\<close>

theorem DependsOn_closed_never_finalizes:
  assumes "ctx_reach (new_world cap) w" and "c < next_ctx w" and "b < next_ctx w" and "b \<noteq> c"
    and "parent (ctxs w c) = None" and "parent (ctxs w b) = None"
    and "\<not> c_done (ctxs w c)" and "c_done (ctxs w b)"
    and "DependsOn (Suc (Suc n)) c b w = Ret w1" and "ctx_reach w1 w2"
  shows "wg (ctxs w2 c) \<noteq> 0 \<and>
    (\<forall>m i. i < length (pending w2) \<and> fst (pending w2 ! i) = c \<longrightarrow> run_pending m i w2 = Ret w2)"
proof -
  have p: "plain w" using ctx_reach_plain [OF assms(1) new_world_plain] by blast
  have w1: "w1 = upd_ctx c (\<lambda>x. x\<lparr>wg := wg x + 1\<rparr>) w"
    using assms(4-9) by (auto simp: registerFinalizeable_def upd_ctx_def split: if_splits)
  have f: "frame w w1" using upd_ctx_frame [OF assms(2)] by (simp add: w1)
  have s: "slack d w1 = slack d w + (if d = c then 1 else 0)" for d
    using upd_ctx_slack [OF assms(2), of d] by (simp add: w1 ctx_reports_def)
  have "plain w1" using s by (intro plainI [OF p f]) simp
  from ctx_reach_plain [OF assms(10) this] have "slack c w1 \<le> slack c w2" by blast
  moreover have "0 \<le> slack c w" using p by (simp add: plain_def slack_def)
  ultimately have "1 \<le> slack c w2" using s [of c] by simp
  then have "1 \<le> wg (ctxs w2 c)" using outstanding_nonneg [of c w2] by (simp add: slack_def)
  then show ?thesis by (auto simp: run_pending_def)
qed

theorem DependsOn_closed_never_finalizes_witness:
  "\<exists>w1. DependsOn 2 0 1 ex_world = Ret w1 \<and> (\<forall>w2. ctx_reach w1 w2 \<longrightarrow> wg (ctxs w2 0) \<noteq> 0)"
proof -
  have e: "ex_world = upd_ctx 1 (\<lambda>x. x\<lparr>c_done := True\<rparr>) (snd (NewContext (snd (NewContext (new_world 0)))))"
    by (simp add: ex_world_def Close_def numeral_2_eq_2 new_world_def NewContext_def alloc_ctx_def
        empty_ctx_def close_def upd_ctx_def returnToPool_def)
  have p: "0 < next_ctx ex_world" "1 < next_ctx ex_world" "(1::nat) \<noteq> 0" "parent (ctxs ex_world 0) = None"
    "parent (ctxs ex_world 1) = None" "\<not> c_done (ctxs ex_world 0)" "c_done (ctxs ex_world 1)"
    by (simp_all add: e new_world_def NewContext_def alloc_ctx_def empty_ctx_def upd_ctx_def)
  obtain w1 where d: "DependsOn (Suc (Suc 0)) 0 1 ex_world = Ret w1"
    using p by (auto simp: upd_ctx_def)
  with DependsOn_closed_never_finalizes [OF ex_world_reach p d] show ?thesis
    by (auto simp: numeral_2_eq_2)
qed

text \<open>
  Closing a child context of a pooled context returns both to the pool, and the child keeps its parent.  The
  next two users of the pool get the old parent and the old child: what the second user registers goes
  to the context of the first, and when the second user closes its context, the context of the
  first, who still uses it, is reset and goes back to the pool.
\<close>

theorem pooled_child_keeps_parent:
  assumes "pooled (ctxs w p)" and "parent (ctxs w p) = None" and "\<not> c_done (ctxs w p)"
    and "finalizeables (ctxs w p) = None" and "pooled (ctxs w c)" and "parent (ctxs w c) = Some p" and "c \<noteq> p"
    and "pool_free w = []" and "2 \<le> pool_cap w"
  shows "\<exists>w1 w2 w3 w4. Close 4 c w = Ret w1 \<and> ctxPool_Get w1 = (p, w2) \<and> ctxPool_Get w2 = (c, w3) \<and>
    RegisterFinalizer 2 c f w3 = Ret (registerFinalizeable p \<lparr>f_finalizer = f, f_closer = None\<rparr> w3) \<and>
    Close 4 c w3 = Ret w4 \<and> p \<in> set (pool_free w4)"
proof -
  let ?r = "\<lambda>x. x\<lparr>c_done := False, finalizeables := None, goCtx := None, checkedAndNotSampled := False\<rparr>"
  have step: "Close 4 c u = Ret (u\<lparr>ctxs := (ctxs u)(p := ?r (ctxs u p)), pool_free := [p, c]\<rparr>)"
    if "pooled (ctxs u p)" "parent (ctxs u p) = None" "\<not> c_done (ctxs u p)" "finalizeables (ctxs u p) = None"
      "pooled (ctxs u c)" "parent (ctxs u c) = Some p" "pool_free u = []" "2 \<le> pool_cap u" for u :: "('a, 'b) world"
    using that assms(7)
    by (simp add: Close_def numeral_eq_Suc close_def upd_ctx_def returnToPool_def ctxPool_Put_def Let_def)
  define w1 where "w1 = w\<lparr>ctxs := (ctxs w)(p := ?r (ctxs w p)), pool_free := [p, c]\<rparr>"
  define w2 where "w2 = w1\<lparr>pool_free := [c]\<rparr>"
  define w3 where "w3 = w1\<lparr>pool_free := []\<rparr>"
  have "Close 4 c w = Ret w1" using step [of w] assms by (simp add: w1_def)
  moreover have "ctxPool_Get w1 = (p, w2)" "ctxPool_Get w2 = (c, w3)"
    by (simp_all add: ctxPool_Get_def w1_def w2_def w3_def)
  moreover have "RegisterFinalizer 2 c f w3 = Ret (registerFinalizeable p \<lparr>f_finalizer = f, f_closer = None\<rparr> w3)"
    using assms by (simp add: numeral_2_eq_2 w1_def w3_def)
  moreover obtain w4 where "Close 4 c w3 = Ret w4" "p \<in> set (pool_free w4)"
    using step [of w3] assms by (auto simp: w1_def w3_def)
  ultimately show ?thesis by blast
qed

definition ex_pooled_world :: "(unit, nat) world" where
  "ex_pooled_world = setParentCtx 1 0 (snd (newPooledContext (snd (newPooledContext (new_world 8)))))"

theorem pooled_child_keeps_parent_witness:
  "\<exists>w1 w2 w3 w4. Close 4 1 ex_pooled_world = Ret w1 \<and> ctxPool_Get w1 = (0, w2) \<and> ctxPool_Get w2 = (1, w3) \<and>
     Close 4 1 w3 = Ret w4 \<and> 0 \<in> set (pool_free w4)"
proof -
  note defs = ex_pooled_world_def setParentCtx_def newPooledContext_def alloc_ctx_def new_world_def empty_ctx_def upd_ctx_def
  have "pooled (ctxs ex_pooled_world 0)" "parent (ctxs ex_pooled_world 0) = None" "\<not> c_done (ctxs ex_pooled_world 0)"
    "finalizeables (ctxs ex_pooled_world 0) = None" "pooled (ctxs ex_pooled_world 1)"
    "parent (ctxs ex_pooled_world 1) = Some 0" "(1::nat) \<noteq> 0" "pool_free ex_pooled_world = []"
    "2 \<le> pool_cap ex_pooled_world" by (simp_all add: defs)
  from pooled_child_keeps_parent [OF this] show ?thesis by blast
qed

end
