(* ===== verification/Ident.thy ===== *)
theory Ident
  imports Bucketized
begin

text \<open>
  The package \<^verbatim>\<open>ident\<close>: identifiers and tags (\<^verbatim>\<open>bytes_id.go\<close>, \<^verbatim>\<open>identifier.go\<close>, \<^verbatim>\<open>tag.go\<close>, \<^verbatim>\<open>types.go\<close>), the pool of identifiers
  (\<^verbatim>\<open>identifier_pool.go\<close>) and the iterators (\<^verbatim>\<open>iterator.go\<close>, \<^verbatim>\<open>tag_iterator.go\<close>).

  Identifiers of the type \<^verbatim>\<open>*id\<close> are addresses into a store; the store also holds the queue of pooled identifiers
  and the checked bytes pool their bytes come from.  The checked bytes of an identifier are part of its
  entry.  A method call on a nil interface panics as a call of a nil function.
\<close>

section \<open>Bytes of strings\<close>

definition str_bytes :: "string \<Rightarrow> 8 word list" where
  "str_bytes s = map (\<lambda>c. of_nat (of_char c)) s"

definition bytes_str :: "8 word list \<Rightarrow> string" where
  "bytes_str bs = map (\<lambda>b. char_of (unat b)) bs"

lemma bytes_str_str_bytes [simp]: "bytes_str (str_bytes s) = s"
proof -
  have "char_of (unat (of_nat (of_char c) :: 8 word)) = c" for c
    by (simp add: unat_of_nat)
  then show ?thesis by (simp add: bytes_str_def str_bytes_def o_def)
qed

section \<open>Identifiers\<close>

datatype ID = BytesID "8 word list" | IdPtr nat

record id =
  data :: "(unit, unit) bytesRef option"
  id_pool :: bool
  noFinalize :: bool

text \<open>The store: the identifiers, the queue of pooled ones and the pool of checked bytes.\<close>

record 'io store =
  ids :: "nat \<Rightarrow> id"
  next_id :: nat
  id_free :: "ID option list"
  id_cap :: nat
  bytesPool :: "'io checkedBytesPool"

type_synonym ('io, 'a) ident_op = "'io store \<Rightarrow> (pool_panic, 'a) outcome \<times> 'io store"

definition set_id :: "nat \<Rightarrow> id \<Rightarrow> 'io store \<Rightarrow> 'io store" where
  "set_id i x st = st\<lparr>ids := (ids st)(i := x)\<rparr>"

text \<open>An operation on the checked bytes of an identifier; on nil it is a call on a nil interface.\<close>

definition on_data ::
    "nat \<Rightarrow> ((unit, unit) bytesRef \<Rightarrow> (unit checked_panic, 'a) outcome \<times> (unit, unit) bytesRef) \<Rightarrow> ('io, 'a) ident_op" where
  "on_data i op st =
     (case data (ids st i) of
        None \<Rightarrow> (Panic NilFunctionCall, st)
      | Some b \<Rightarrow> (case lift_checked (op b) of (x, b) \<Rightarrow> (x, set_id i ((ids st i)\<lparr>data := Some b\<rparr>) st)))"

fun ID_Bytes :: "globals \<Rightarrow> ID \<Rightarrow> ('io, 8 word list) ident_op" where
  "ID_Bytes g (BytesID v) st = (Ret v, st)"
| "ID_Bytes g (IdPtr i) st =
     (if data (ids st i) = None then (Ret [], st) else on_data i (Bytes_Bytes g ()) st)"

definition ID_String :: "globals \<Rightarrow> ID \<Rightarrow> ('io, string) ident_op" where
  "ID_String g v st = andthen (ID_Bytes g v st) (\<lambda>bs st. (Ret (bytes_str bs), st))"

fun ID_Equal :: "globals \<Rightarrow> ID \<Rightarrow> ID option \<Rightarrow> ('io, bool) ident_op" where
  "ID_Equal g v None st = (Panic NilFunctionCall, st)"
| "ID_Equal g v (Some u) st =
     andthen (ID_Bytes g v st) (\<lambda>a st. andthen (ID_Bytes g u st) (\<lambda>b st. (Ret (a = b), st)))"

fun ID_NoFinalize :: "ID \<Rightarrow> 'io store \<Rightarrow> 'io store" where
  "ID_NoFinalize (BytesID v) st = st"
| "ID_NoFinalize (IdPtr i) st = set_id i ((ids st i)\<lparr>noFinalize := True\<rparr>) st"

fun ID_IsNoFinalize :: "ID \<Rightarrow> 'io store \<Rightarrow> bool" where
  "ID_IsNoFinalize (BytesID v) st = True"
| "ID_IsNoFinalize (IdPtr i) st = noFinalize (ids st i)"

text \<open>\<^verbatim>\<open>simplePool.Put\<close> takes any identifier into the queue, nil and those of other types included.\<close>

definition simplePool_Put :: "ID option \<Rightarrow> 'io store \<Rightarrow> 'io store" where
  "simplePool_Put i st = (if length (id_free st) < id_cap st then st\<lparr>id_free := id_free st @ [i]\<rparr> else st)"

text \<open>\<^verbatim>\<open>id.Finalize\<close>: the bytes go to their finalizer, the checked bytes pool, when they have one.\<close>

fun ID_Finalize :: "globals \<Rightarrow> ID \<Rightarrow> ('io, unit) ident_op" where
  "ID_Finalize g (BytesID v) st = (Ret (), st)"
| "ID_Finalize g (IdPtr i) st =
     (if noFinalize (ids st i) then (Ret (), st)
      else
        andthen (on_data i (on_rc (DecRef g ())) st) (\<lambda>_ st.
        andthen
          (case data (ids st i) of None \<Rightarrow> (Panic NilFunctionCall, st)
           | Some b \<Rightarrow>
               (case Bytes_Finalize b of None \<Rightarrow> (Ret (), st)
                | Some u \<Rightarrow> (case checkedBytesPool_FinalizeBytes g b (bytesPool st) of
                              (x, p) \<Rightarrow> (x, st\<lparr>bytesPool := p\<rparr>))))
          (\<lambda>_ st.
            let st = set_id i ((ids st i)\<lparr>data := None\<rparr>) st in
            (Ret (), if id_pool (ids st i) then simplePool_Put (Some (IdPtr i)) st else st))))"

text \<open>The constructors without a pool.\<close>

definition new_id :: "id \<Rightarrow> ('io, nat) ident_op" where
  "new_id x st = (Ret (next_id st), st\<lparr>ids := (ids st)(next_id st := x), next_id := next_id st + 1\<rparr>)"

definition BinaryID :: "globals \<Rightarrow> (unit, unit) bytesRef \<Rightarrow> ('io, ID) ident_op" where
  "BinaryID g v st =
     (case lift_checked (on_rc (IncRef g ()) v) of
        (Panic e, _) \<Rightarrow> (Panic e, st)
      | (Ret u, v) \<Rightarrow> andthen (new_id \<lparr>data = Some v, id_pool = False, noFinalize = False\<rparr> st) (\<lambda>i st. (Ret (IdPtr i), st)))"

definition StringID :: "string \<Rightarrow> ID" where
  "StringID str = BytesID (str_bytes str)"

section \<open>Tags\<close>

record Tag =
  Name :: "ID option"
  Value :: "ID option"
  t_noFinalize :: bool

definition empty_Tag :: Tag where "empty_Tag = \<lparr>Name = None, Value = None, t_noFinalize = False\<rparr>"

definition StringTag :: "string \<Rightarrow> string \<Rightarrow> Tag" where
  "StringTag n v = \<lparr>Name = Some (StringID n), Value = Some (StringID v), t_noFinalize = False\<rparr>"

definition BinaryTag :: "globals \<Rightarrow> (unit, unit) bytesRef \<Rightarrow> (unit, unit) bytesRef \<Rightarrow> ('io, Tag) ident_op" where
  "BinaryTag g n v st =
     andthen (BinaryID g n st) (\<lambda>a st. andthen (BinaryID g v st) (\<lambda>b st.
       (Ret \<lparr>Name = Some a, Value = Some b, t_noFinalize = False\<rparr>, st)))"

definition no_finalize_opt :: "ID option \<Rightarrow> ('io, unit) ident_op" where
  "no_finalize_opt v st = (case v of None \<Rightarrow> (Panic NilFunctionCall, st) | Some i \<Rightarrow> (Ret (), ID_NoFinalize i st))"

definition Tag_NoFinalize :: "Tag \<Rightarrow> ('io, Tag) ident_op" where
  "Tag_NoFinalize t st =
     andthen (no_finalize_opt (Name t) st) (\<lambda>_ st. andthen (no_finalize_opt (Value t) st) (\<lambda>_ st.
       (Ret (t\<lparr>t_noFinalize := True\<rparr>), st)))"

definition finalize_opt :: "globals \<Rightarrow> ID option \<Rightarrow> ('io, unit) ident_op" where
  "finalize_opt g v st = (case v of None \<Rightarrow> (Ret (), st) | Some i \<Rightarrow> ID_Finalize g i st)"

definition Tag_Finalize :: "globals \<Rightarrow> Tag \<Rightarrow> ('io, Tag) ident_op" where
  "Tag_Finalize g t st =
     (if t_noFinalize t then (Ret t, st)
      else andthen (finalize_opt g (Name t) st) (\<lambda>_ st. andthen (finalize_opt g (Value t) st) (\<lambda>_ st.
        (Ret (t\<lparr>Name := None, Value := None\<rparr>), st))))"

definition equal_opt :: "globals \<Rightarrow> ID option \<Rightarrow> ID option \<Rightarrow> ('io, bool) ident_op" where
  "equal_opt g a b st = (case a of None \<Rightarrow> (Panic NilFunctionCall, st) | Some v \<Rightarrow> ID_Equal g v b st)"

definition Tag_Equal :: "globals \<Rightarrow> Tag \<Rightarrow> Tag \<Rightarrow> ('io, bool) ident_op" where
  "Tag_Equal g t u st =
     andthen (equal_opt g (Name t) (Name u) st) (\<lambda>e st.
       if e then equal_opt g (Value t) (Value u) st else (Ret False, st))"

record Tags =
  t_values :: "Tag list"
  ts_pool :: bool
  ts_noFinalize :: bool

definition NewTags :: "Tag list \<Rightarrow> Tags" where
  "NewTags vs = \<lparr>t_values = vs, ts_pool = False, ts_noFinalize = False\<rparr>"

definition Tags_Values :: "Tags \<Rightarrow> Tag list" where "Tags_Values t = t_values t"

definition Tags_Append :: "Tags \<Rightarrow> Tag \<Rightarrow> Tags" where
  "Tags_Append t tag = t\<lparr>t_values := t_values t @ [tag]\<rparr>"

text \<open>
  The loop \<^verbatim>\<open>for _, tag := range t.values { tag.NoFinalize() }\<close> works on copies of the tags: their flag is lost, the
  identifiers they share are marked.
\<close>

fun no_finalize_copies :: "Tag list \<Rightarrow> ('io, unit) ident_op" where
  "no_finalize_copies [] st = (Ret (), st)"
| "no_finalize_copies (t # ts) st = andthen (Tag_NoFinalize t st) (\<lambda>_ st. no_finalize_copies ts st)"

definition Tags_NoFinalize :: "Tags \<Rightarrow> ('io, Tags) ident_op" where
  "Tags_NoFinalize t st =
     andthen (no_finalize_copies (t_values t) st) (\<lambda>_ st. (Ret (t\<lparr>ts_noFinalize := True\<rparr>), st))"

text \<open>The loop \<^verbatim>\<open>for i := range values { values[i].Finalize() }\<close> of \<^verbatim>\<open>Tags.Finalize\<close>, which changes the tags of the slice.\<close>

fun finalize_tags :: "globals \<Rightarrow> Tag list \<Rightarrow> ('io, Tag list) ident_op" where
  "finalize_tags g [] st = (Ret [], st)"
| "finalize_tags g (t # ts) st =
     andthen (Tag_Finalize g t st) (\<lambda>u st. andthen (finalize_tags g ts st) (\<lambda>us st. (Ret (u # us), st)))"

fun equal_tags :: "globals \<Rightarrow> Tag list \<Rightarrow> Tag list \<Rightarrow> ('io, bool) ident_op" where
  "equal_tags g (t # ts) (u # us) st =
     andthen (Tag_Equal g t u st) (\<lambda>e st. if e then equal_tags g ts us st else (Ret False, st))"
| "equal_tags g _ _ st = (Ret True, st)"

definition Tags_Equal :: "globals \<Rightarrow> Tags \<Rightarrow> Tags \<Rightarrow> ('io, bool) ident_op" where
  "Tags_Equal g t u st =
     (if length (Tags_Values t) \<noteq> length (Tags_Values u) then (Ret False, st)
      else equal_tags g (t_values t) (t_values u) st)"

section \<open>The pool of identifiers\<close>

text \<open>\<^verbatim>\<open>p.pool.Get().(*id)\<close>: the assertion fails on what is not a pointer.\<close>

definition get_id :: "('io, nat) ident_op" where
  "get_id st =
     (case id_free st of
        Some (IdPtr i) # is \<Rightarrow> (Ret i, st\<lparr>id_free := is\<rparr>)
      | _ # is \<Rightarrow> (Panic TypeAssertion, st\<lparr>id_free := is\<rparr>)
      | [] \<Rightarrow> new_id \<lparr>data = None, id_pool = True, noFinalize = False\<rparr> st)"

definition get_bytes :: "nat \<Rightarrow> ('io, (unit, unit) bytesRef) ident_op" where
  "get_bytes n st = (case checkedBytesPool_Get (int n) (bytesPool st) of (x, p) \<Rightarrow> (x, st\<lparr>bytesPool := p\<rparr>))"

definition simplePool_BinaryID :: "globals \<Rightarrow> (unit, unit) bytesRef \<Rightarrow> ('io, ID) ident_op" where
  "simplePool_BinaryID g v st =
     andthen (get_id st) (\<lambda>i st.
       case lift_checked (on_rc (IncRef g ()) v) of
         (Panic e, _) \<Rightarrow> (Panic e, st)
       | (Ret u, v) \<Rightarrow> (Ret (IdPtr i), set_id i ((ids st i)\<lparr>id_pool := True, data := Some v\<rparr>) st))"

definition simplePool_StringID :: "(nat \<Rightarrow> nat) \<Rightarrow> globals \<Rightarrow> string \<Rightarrow> ('io, ID) ident_op" where
  "simplePool_StringID grow g v st =
     andthen (get_bytes (length v) st) (\<lambda>b st.
       case lift_checked
         (andthen (on_rc (IncRef g ()) b) (\<lambda>_ b.
          andthen (Bytes_AppendAll grow g () (str_bytes v) b) (\<lambda>_ b.
          on_rc (DecRef g ()) b))) of
         (Panic e, _) \<Rightarrow> (Panic e, st)
       | (Ret u, b) \<Rightarrow> simplePool_BinaryID g b st)"

definition simplePool_BinaryTag ::
    "globals \<Rightarrow> (unit, unit) bytesRef \<Rightarrow> (unit, unit) bytesRef \<Rightarrow> ('io, Tag) ident_op" where
  "simplePool_BinaryTag g n v st =
     andthen (simplePool_BinaryID g n st) (\<lambda>a st. andthen (simplePool_BinaryID g v st) (\<lambda>b st.
       (Ret \<lparr>Name = Some a, Value = Some b, t_noFinalize = False\<rparr>, st)))"

definition simplePool_StringTag :: "(nat \<Rightarrow> nat) \<Rightarrow> globals \<Rightarrow> string \<Rightarrow> string \<Rightarrow> ('io, Tag) ident_op" where
  "simplePool_StringTag grow g n v st =
     andthen (simplePool_StringID grow g n st) (\<lambda>a st. andthen (simplePool_StringID grow g v st) (\<lambda>b st.
       (Ret \<lparr>Name = Some a, Value = Some b, t_noFinalize = False\<rparr>, st)))"

definition simplePool_PutTag :: "Tag \<Rightarrow> 'io store \<Rightarrow> 'io store" where
  "simplePool_PutTag t st =
     simplePool_Put (Value t) (simplePool_Put (Name t) st)"

text \<open>\<^verbatim>\<open>Clone\<close>: an identifier from the pool with a copy of the bytes.\<close>

definition simplePool_Clone :: "(nat \<Rightarrow> nat) \<Rightarrow> globals \<Rightarrow> ID \<Rightarrow> ('io, ID) ident_op" where
  "simplePool_Clone grow g existing st =
     andthen (get_id st) (\<lambda>i st.
     andthen (ID_Bytes g existing st) (\<lambda>d st.
     andthen (get_bytes (length d) st) (\<lambda>b st.
       case lift_checked (andthen (on_rc (IncRef g ()) b) (\<lambda>_ b. Bytes_AppendAll grow g () d b)) of
         (Panic e, _) \<Rightarrow> (Panic e, st)
       | (Ret u, b) \<Rightarrow> (Ret (IdPtr i), set_id i ((ids st i)\<lparr>id_pool := True, data := Some b\<rparr>) st))))"

definition clone_opt :: "(nat \<Rightarrow> nat) \<Rightarrow> globals \<Rightarrow> ID option \<Rightarrow> ('io, ID) ident_op" where
  "clone_opt grow g v st = (case v of None \<Rightarrow> (Panic NilFunctionCall, st) | Some i \<Rightarrow> simplePool_Clone grow g i st)"

definition simplePool_CloneTag :: "(nat \<Rightarrow> nat) \<Rightarrow> globals \<Rightarrow> Tag \<Rightarrow> ('io, Tag) ident_op" where
  "simplePool_CloneTag grow g t st =
     andthen (clone_opt grow g (Name t) st) (\<lambda>a st. andthen (clone_opt grow g (Value t) st) (\<lambda>b st.
       (Ret \<lparr>Name = Some a, Value = Some b, t_noFinalize = False\<rparr>, st)))"

fun clone_tags :: "(nat \<Rightarrow> nat) \<Rightarrow> globals \<Rightarrow> Tag list \<Rightarrow> ('io, Tag list) ident_op" where
  "clone_tags grow g [] st = (Ret [], st)"
| "clone_tags grow g (t # ts) st =
     andthen (simplePool_CloneTag grow g t st) (\<lambda>u st. andthen (clone_tags grow g ts st) (\<lambda>us st. (Ret (u # us), st)))"

section \<open>Iterators\<close>

text \<open>
  The iterators over a slice of identifiers, of strings and of tags share their code: a slice, an index and the
  current element, here the element that \<open>conv\<close> makes of an entry of the slice.
\<close>

record ('a, 'b) slice_iter =
  backingSlice :: "'a list"
  currentIdx :: int
  current :: "'b option"

definition new_iter :: "'a list \<Rightarrow> ('a, 'b) slice_iter" where
  "new_iter xs = \<lparr>backingSlice = xs, currentIdx = - 1, current = None\<rparr>"

definition iter_Next :: "('a \<Rightarrow> 'b) \<Rightarrow> ('a, 'b) slice_iter \<Rightarrow> bool \<times> ('a, 'b) slice_iter" where
  "iter_Next conv it =
     (let i = wrap64 (currentIdx it + 1); it = it\<lparr>currentIdx := i\<rparr> in
      if i < int (length (backingSlice it)) then (True, it\<lparr>current := Some (conv (backingSlice it ! nat i))\<rparr>)
      else (False, it\<lparr>current := None\<rparr>))"

definition iter_CurrentIndex :: "('a, 'b) slice_iter \<Rightarrow> int" where
  "iter_CurrentIndex it = (if currentIdx it \<ge> 0 then currentIdx it else 0)"

definition iter_Close :: "('a, 'b) slice_iter \<Rightarrow> ('a, 'b) slice_iter" where
  "iter_Close it = \<lparr>backingSlice = [], currentIdx = 0, current = None\<rparr>"

definition iter_Remaining :: "('a, 'b) slice_iter \<Rightarrow> int" where
  "iter_Remaining it =
     (let r = int (length (backingSlice it)) - 1 - currentIdx it in if r \<ge> 0 then r else 0)"

definition iter_Duplicate :: "('a, 'b) slice_iter \<Rightarrow> ('a, 'b) slice_iter" where
  "iter_Duplicate it =
     \<lparr>backingSlice = backingSlice it, currentIdx = currentIdx it, current = current it\<rparr>"

text \<open>Identifiers.\<close>

type_synonym idSliceIter = "(ID, ID) slice_iter"

definition NewIDSliceIterator :: "ID list \<Rightarrow> idSliceIter" where "NewIDSliceIterator xs = new_iter xs"
definition idSliceIter_Next :: "idSliceIter \<Rightarrow> bool \<times> idSliceIter" where "idSliceIter_Next it = iter_Next (\<lambda>x. x) it"
definition idSliceIter_Current :: "idSliceIter \<Rightarrow> ID option" where "idSliceIter_Current it = current it"
definition idSliceIter_CurrentIndex :: "idSliceIter \<Rightarrow> int" where "idSliceIter_CurrentIndex it = iter_CurrentIndex it"
definition idSliceIter_Close :: "idSliceIter \<Rightarrow> idSliceIter" where "idSliceIter_Close it = iter_Close it"
definition idSliceIter_Len :: "idSliceIter \<Rightarrow> int" where "idSliceIter_Len it = int (length (backingSlice it))"
definition idSliceIter_Remaining :: "idSliceIter \<Rightarrow> int" where "idSliceIter_Remaining it = iter_Remaining it"
definition idSliceIter_Duplicate :: "idSliceIter \<Rightarrow> idSliceIter" where "idSliceIter_Duplicate it = iter_Duplicate it"

text \<open>Strings, which become identifiers one at a time.\<close>

type_synonym stringSliceIter = "(string, ID) slice_iter"

definition NewStringIDsSliceIterator :: "string list \<Rightarrow> stringSliceIter" where
  "NewStringIDsSliceIterator xs = new_iter xs"
definition stringSliceIter_Next :: "stringSliceIter \<Rightarrow> bool \<times> stringSliceIter" where
  "stringSliceIter_Next it = iter_Next StringID it"
definition stringSliceIter_Current :: "stringSliceIter \<Rightarrow> ID option" where "stringSliceIter_Current it = current it"
definition stringSliceIter_CurrentIndex :: "stringSliceIter \<Rightarrow> int" where
  "stringSliceIter_CurrentIndex it = iter_CurrentIndex it"
definition stringSliceIter_Close :: "stringSliceIter \<Rightarrow> stringSliceIter" where "stringSliceIter_Close it = iter_Close it"
definition stringSliceIter_Len :: "stringSliceIter \<Rightarrow> int" where
  "stringSliceIter_Len it = int (length (backingSlice it))"
definition stringSliceIter_Remaining :: "stringSliceIter \<Rightarrow> int" where
  "stringSliceIter_Remaining it = iter_Remaining it"
definition stringSliceIter_Duplicate :: "stringSliceIter \<Rightarrow> stringSliceIter" where
  "stringSliceIter_Duplicate it = iter_Duplicate it"

text \<open>Tags; the current tag is the zero tag where the others have nil.  A pooled iterator is duplicated by
  replaying it on one from the pool, which is reset first.\<close>

type_synonym tagSliceIter = "(Tag, Tag) slice_iter"

definition tagSliceIter_Reset :: "Tag list \<Rightarrow> tagSliceIter \<Rightarrow> tagSliceIter" where
  "tagSliceIter_Reset ts it = it\<lparr>backingSlice := ts, currentIdx := - 1, current := None\<rparr>"

definition newTagSliceIter :: "Tags \<Rightarrow> tagSliceIter" where
  "newTagSliceIter ts =
     tagSliceIter_Reset (Tags_Values ts) \<lparr>backingSlice = [], currentIdx = 0, current = None\<rparr>"

definition NewTagsIterator :: "Tags \<Rightarrow> tagSliceIter" where "NewTagsIterator ts = newTagSliceIter ts"

definition tagSliceIter_Next :: "tagSliceIter \<Rightarrow> bool \<times> tagSliceIter" where
  "tagSliceIter_Next it = iter_Next (\<lambda>x. x) it"

definition tagSliceIter_Current :: "tagSliceIter \<Rightarrow> Tag" where
  "tagSliceIter_Current it = (case current it of Some t \<Rightarrow> t | None \<Rightarrow> empty_Tag)"

definition tagSliceIter_CurrentIndex :: "tagSliceIter \<Rightarrow> int" where
  "tagSliceIter_CurrentIndex it = iter_CurrentIndex it"

definition tagSliceIter_Close :: "tagSliceIter \<Rightarrow> tagSliceIter" where "tagSliceIter_Close it = iter_Close it"

definition tagSliceIter_Len :: "tagSliceIter \<Rightarrow> int" where "tagSliceIter_Len it = int (length (backingSlice it))"

definition tagSliceIter_Remaining :: "tagSliceIter \<Rightarrow> int" where "tagSliceIter_Remaining it = iter_Remaining it"

text \<open>The loop \<^verbatim>\<open>for j := 0; j <= i.currentIdx; j++ { iter.Next() }\<close>.\<close>

fun replay :: "nat \<Rightarrow> tagSliceIter \<Rightarrow> tagSliceIter" where
  "replay 0 it = it"
| "replay (Suc n) it = replay n (snd (tagSliceIter_Next it))"

definition tagSliceIter_Duplicate :: "tagSliceIter option \<Rightarrow> tagSliceIter \<Rightarrow> tagSliceIter" where
  "tagSliceIter_Duplicate from_pool it =
     (case from_pool of
        Some iter \<Rightarrow> replay (nat (currentIdx it + 1)) (tagSliceIter_Reset (backingSlice it) iter)
      | None \<Rightarrow> iter_Duplicate it)"

datatype iterator_error = errInvalidNumberInputsToIteratorMatcher

fun string_tags :: "string list \<Rightarrow> Tag list" where
  "string_tags (n # v # xs) = StringTag n v # string_tags xs"
| "string_tags _ = []"

definition NewTagStringsIterator :: "string list \<Rightarrow> (iterator_error, tagSliceIter) result" where
  "NewTagStringsIterator inputs =
     (if length inputs mod 2 \<noteq> 0 then Inl errInvalidNumberInputsToIteratorMatcher
      else Inr (NewTagsIterator (NewTags (string_tags inputs))))"

text \<open>The panic of \<^verbatim>\<open>MustNewTagStringsIterator\<close> carries the error.\<close>

definition MustNewTagStringsIterator :: "string list \<Rightarrow> (iterator_error, tagSliceIter) outcome" where
  "MustNewTagStringsIterator inputs =
     (case NewTagStringsIterator inputs of Inl e \<Rightarrow> Panic e | Inr it \<Rightarrow> Ret it)"

text \<open>The iterator over no tags, \<^verbatim>\<open>EmptyTagIterator\<close>, has no state.\<close>

definition emptyTagIterator_Next :: "unit \<Rightarrow> bool \<times> unit" where "emptyTagIterator_Next e = (False, e)"
definition emptyTagIterator_Current :: "unit \<Rightarrow> Tag" where "emptyTagIterator_Current e = empty_Tag"
definition emptyTagIterator_CurrentIndex :: "unit \<Rightarrow> int" where "emptyTagIterator_CurrentIndex e = 0"
definition emptyTagIterator_Close :: "unit \<Rightarrow> unit" where "emptyTagIterator_Close e = e"
definition emptyTagIterator_Len :: "unit \<Rightarrow> int" where "emptyTagIterator_Len e = 0"
definition emptyTagIterator_Remaining :: "unit \<Rightarrow> int" where "emptyTagIterator_Remaining e = 0"
definition emptyTagIterator_Duplicate :: "unit \<Rightarrow> unit" where "emptyTagIterator_Duplicate e = e"

section \<open>Iteration\<close>

text \<open>What a client of an iterator relies on: a step function whose results are the elements of the list that
  \<open>rest\<close> gives, in order.\<close>

locale iterator =
  fixes nxt :: "'it \<Rightarrow> bool \<times> 'it" and cur :: "'it \<Rightarrow> 'e" and inv :: "'it \<Rightarrow> bool" and rest :: "'it \<Rightarrow> 'e list"
  assumes nxt_more: "inv it \<Longrightarrow> rest it = x # xs \<Longrightarrow> \<exists>it'. nxt it = (True, it') \<and> cur it' = x \<and> rest it' = xs \<and> inv it'"
    and nxt_end: "inv it \<Longrightarrow> rest it = [] \<Longrightarrow> fst (nxt it) = False"
begin

text \<open>The loop \<^verbatim>\<open>for it.Next() { ... it.Current() ... }\<close>, run for at most \<open>n\<close> rounds.\<close>

fun drain :: "nat \<Rightarrow> 'it \<Rightarrow> 'e list option" where
  "drain 0 it = None"
| "drain (Suc n) it =
     (case nxt it of (False, _) \<Rightarrow> Some [] | (True, it') \<Rightarrow> map_option (\<lambda>xs. cur it' # xs) (drain n it'))"

lemma drain_rest: "inv it \<Longrightarrow> length (rest it) < n \<Longrightarrow> drain n it = Some (rest it)"
proof (induction n arbitrary: it)
  case (Suc n)
  show ?case
  proof (cases "rest it")
    case Nil
    with nxt_end [OF Suc.prems(1)] show ?thesis by (cases "nxt it") auto
  next
    case (Cons x xs)
    with nxt_more [OF Suc.prems(1) Cons] Suc show ?thesis by auto
  qed
qed simp

end

definition iter_inv :: "('a, 'b) slice_iter \<Rightarrow> bool" where
  "iter_inv it \<longleftrightarrow> - 1 \<le> currentIdx it \<and> int (length (backingSlice it)) < 2 ^ 63 \<and> currentIdx it < 2 ^ 63 - 1"

definition iter_rest :: "('a \<Rightarrow> 'b) \<Rightarrow> ('a, 'b) slice_iter \<Rightarrow> 'b list" where
  "iter_rest conv it = map conv (drop (nat (currentIdx it + 1)) (backingSlice it))"

lemma iter_Next_more:
  assumes "iter_inv it" and "iter_rest conv it = x # xs"
  shows "\<exists>it'. iter_Next conv it = (True, it') \<and> current it' = Some x \<and> iter_rest conv it' = xs \<and> iter_inv it'"
proof -
  let ?i = "currentIdx it + 1"
  have w: "wrap64 ?i = ?i" using assms(1) by (simp add: iter_inv_def wrap64_id int64_ok_iff)
  have l: "nat ?i < length (backingSlice it)"
    using assms(2) by (rule_tac ccontr) (simp add: iter_rest_def)
  then have "x = conv (backingSlice it ! nat ?i)" "xs = map conv (drop (Suc (nat ?i)) (backingSlice it))"
    using assms(2) by (simp_all add: iter_rest_def Cons_nth_drop_Suc [symmetric])
  moreover have "?i < int (length (backingSlice it))" "nat (?i + 1) = Suc (nat ?i)"
    using l assms(1) by (auto simp: iter_inv_def)
  ultimately show ?thesis using assms(1)
    by (simp add: iter_Next_def w iter_rest_def iter_inv_def Let_def)
qed

lemma iter_Next_end:
  assumes "iter_inv it" and "iter_rest conv it = []"
  shows "fst (iter_Next conv it) = False"
proof -
  have "wrap64 (currentIdx it + 1) = currentIdx it + 1"
    using assms(1) by (simp add: iter_inv_def wrap64_id int64_ok_iff)
  moreover have "int (length (backingSlice it)) \<le> currentIdx it + 1"
    using assms by (auto simp: iter_rest_def iter_inv_def)
  ultimately show ?thesis by (simp add: iter_Next_def Let_def)
qed

interpretation id_iterator: iterator idSliceIter_Next "\<lambda>it. the (idSliceIter_Current it)" iter_inv "iter_rest (\<lambda>x. x)"
  by unfold_locales (auto simp: idSliceIter_Next_def idSliceIter_Current_def iter_Next_end dest: iter_Next_more)

interpretation string_iterator: iterator stringSliceIter_Next "\<lambda>it. the (stringSliceIter_Current it)" iter_inv
    "iter_rest StringID"
  by unfold_locales (auto simp: stringSliceIter_Next_def stringSliceIter_Current_def iter_Next_end dest: iter_Next_more)

interpretation tag_iterator: iterator tagSliceIter_Next tagSliceIter_Current iter_inv "iter_rest (\<lambda>x. x)"
  by unfold_locales (auto simp: tagSliceIter_Next_def tagSliceIter_Current_def iter_Next_end dest: iter_Next_more)

section \<open>Facts about the iterators\<close>

interpretation empty_iterator: iterator emptyTagIterator_Next emptyTagIterator_Current "\<lambda>_. True" "\<lambda>_. []"
  by unfold_locales (simp_all add: emptyTagIterator_Next_def)

definition iter_at :: "Tag list \<Rightarrow> nat \<Rightarrow> tagSliceIter" where
  "iter_at xs k = \<lparr>backingSlice = xs, currentIdx = int k - 1,
     current = (if 0 < k \<and> k \<le> length xs then Some (xs ! (k - 1)) else None)\<rparr>"

lemma Next_iter_at: "int k < 2 ^ 62 \<Longrightarrow> snd (tagSliceIter_Next (iter_at xs k)) = iter_at xs (Suc k)"
  by (auto simp: tagSliceIter_Next_def iter_Next_def iter_at_def Let_def wrap64_id int64_ok_iff)

lemma replay_iter_at: "int (k + n) < 2 ^ 62 \<Longrightarrow> replay n (iter_at xs k) = iter_at xs (k + n)"
proof (induction n arbitrary: k)
  case (Suc n)
  have "replay (Suc n) (iter_at xs k) = replay n (iter_at xs (Suc k))" using Suc.prems by (simp add: Next_iter_at)
  with Suc.IH [of "Suc k"] Suc.prems show ?case by simp
qed simp

lemma new_iter_at: "newTagSliceIter ts = iter_at (t_values ts) 0" "tagSliceIter_Reset xs it = iter_at xs 0"
  by (simp_all add: newTagSliceIter_def tagSliceIter_Reset_def iter_at_def Tags_Values_def)

section \<open>Facts about pooled identifiers\<close>

lemma get_bytes_good:
  assumes "cb_inv g (bytesPool st)"
  shows "\<exists>b p. get_bytes n st = (Ret b, st\<lparr>bytesPool := p\<rparr>) \<and> idle_bytes b \<and> int n \<le> int (bcap (val b)) \<and> cb_inv g p"
proof -
  let ?p = "bytesPool st"
  obtain v q bp where "bucketized_Get (int n) (cb_pool ?p) (cb_bytesPool ?p) = (Ret v, q, bp)" "idle_bytes v"
    "int n \<le> int (bcap (val v))" "cbytes.bz_inv g q" "bytes.bz_inv bp"
    using cbytes.bz_Get_good [of g "cb_pool ?p" "cb_bytesPool ?p" "int n"] assms by (auto simp: cb_inv_def)
  then show ?thesis
    by (intro exI [of _ v] exI [of _ "\<lparr>cb_bytesPool = bp, cb_pool = q\<rparr>"])
      (simp add: get_bytes_def checkedBytesPool_Get_def cb_inv_def)
qed

definition quiet :: "globals \<Rightarrow> bool" where
  "quiet g \<longleftrightarrow> \<not> traceback g \<and> (\<forall>v. panicFn g v)"

lemma IncRef_idle:
  "quiet g \<Longrightarrow> idle_bytes b \<Longrightarrow> on_rc (IncRef g ()) b = (Ret (), b\<lparr>rc := (rc b)\<lparr>ref := 1\<rparr>\<rparr>)"
  by (simp add: quiet_def on_rc_def IncRef_def tracebackEvent_def idle_bytes_def wrap32_id int32_ok_iff)

lemma DecRef_one:
  "quiet g \<Longrightarrow> ref (rc b) = 1 \<Longrightarrow> on_rc (DecRef g ()) b = (Ret (), b\<lparr>rc := (rc b)\<lparr>ref := 0\<rparr>\<rparr>)"
  by (simp add: quiet_def on_rc_def DecRef_def tracebackEvent_def check_def andthen_def wrap32_id int32_ok_iff)

text \<open>Bytes from the pool that have been referenced and filled.\<close>

definition holds_bytes :: "8 word list \<Rightarrow> (unit, unit) bytesRef \<Rightarrow> bool" where
  "holds_bytes d b \<longleftrightarrow> ref (rc b) = 1 \<and> reads (rc b) = 0 \<and> writes (rc b) = 0 \<and> slice_bytes (val b) = d"

lemma holds_bytes_read: "quiet g \<Longrightarrow> holds_bytes d b \<Longrightarrow> Bytes_Bytes g () b = (Ret d, b)"
  unfolding Bytes_Bytes_def by (subst reading_usable) (simp_all add: quiet_def usable_def holds_bytes_def)

lemma AppendAll_idle:
  assumes "quiet g" and "idle_bytes b"
  shows "\<exists>b'. Bytes_AppendAll grow g () d (b\<lparr>rc := (rc b)\<lparr>ref := 1\<rparr>\<rparr>) = (Ret (), b') \<and> holds_bytes d b' \<and>
    rc b' = (rc b)\<lparr>ref := 1\<rparr>"
proof -
  let ?b = "b\<lparr>rc := (rc b)\<lparr>ref := 1\<rparr>\<rparr>"
  have "usable g ?b" using assms by (simp add: usable_def quiet_def idle_bytes_def)
  from writing_usable [OF this] have
    "Bytes_AppendAll grow g () d ?b = (Ret (), ?b\<lparr>val := append_bytes grow (val b) d\<rparr>)"
    by (simp add: Bytes_AppendAll_def)
  moreover have "slice_bytes (append_bytes grow (val b) d) = d"
    using assms(2) append_bytes_contents [of "val b" grow d] by (simp add: idle_bytes_def slice_bytes_def)
  ultimately show ?thesis using assms(2) by (simp add: holds_bytes_def idle_bytes_def)
qed

definition store_inv :: "globals \<Rightarrow> 'io store \<Rightarrow> bool" where
  "store_inv g st \<longleftrightarrow> quiet g \<and> cb_inv g (bytesPool st) \<and>
     (\<forall>x\<in>set (id_free st). \<exists>i<next_id st. x = Some (IdPtr i)) \<and> distinct (id_free st)"

lemma get_id_good:
  assumes "store_inv g st"
  shows "\<exists>i st'. get_id st = (Ret i, st') \<and> store_inv g st' \<and> i < next_id st' \<and> Some (IdPtr i) \<notin> set (id_free st') \<and>
    (\<forall>j<next_id st. Some (IdPtr j) \<notin> set (id_free st) \<longrightarrow> j \<noteq> i \<and> ids st' j = ids st j \<and>
       Some (IdPtr j) \<notin> set (id_free st')) \<and> next_id st \<le> next_id st'"
proof (cases "id_free st")
  case Nil
  with assms show ?thesis by (auto simp: get_id_def new_id_def store_inv_def)
next
  case (Cons x xs)
  then obtain i where "i < next_id st" "x = Some (IdPtr i)" using assms by (auto simp: store_inv_def)
  with Cons assms show ?thesis by (auto simp: get_id_def store_inv_def)
qed

text \<open>An identifier that is in use and holds the bytes \<open>d\<close>.\<close>

definition live :: "'io store \<Rightarrow> nat \<Rightarrow> 8 word list \<Rightarrow> bool" where
  "live st i d \<longleftrightarrow> i < next_id st \<and> Some (IdPtr i) \<notin> set (id_free st) \<and>
     (\<exists>b. data (ids st i) = Some b \<and> holds_bytes d b)"

lemma live_Bytes:
  assumes "quiet g" and "live st i d"
  shows "ID_Bytes g (IdPtr i) st = (Ret d, st)"
proof -
  obtain b where b: "data (ids st i) = Some b" "holds_bytes d b" using assms(2) by (auto simp: live_def)
  have "set_id i ((ids st i)\<lparr>data := Some b\<rparr>) st = st" using b(1) [symmetric] by (simp add: set_id_def)
  with b holds_bytes_read [OF assms(1) b(2)] show ?thesis by (simp add: on_data_def lift_checked_def)
qed

lemma set_id_inv: "store_inv g st \<Longrightarrow> store_inv g (set_id i x st)"
  by (simp add: store_inv_def set_id_def)

lemma simplePool_StringID_eq:
  assumes "store_inv g st"
  shows "\<exists>b p i st1. cb_inv g p \<and> holds_bytes (str_bytes s) b \<and> get_id (st\<lparr>bytesPool := p\<rparr>) = (Ret i, st1) \<and>
    simplePool_StringID grow g s st = (Ret (IdPtr i), set_id i ((ids st1 i)\<lparr>id_pool := True, data := Some b\<rparr>) st1)"
proof -
  have q: "quiet g" using assms by (simp add: store_inv_def)
  obtain b p where b: "get_bytes (length s) st = (Ret b, st\<lparr>bytesPool := p\<rparr>)" "idle_bytes b" "cb_inv g p"
    using get_bytes_good [of g st "length s"] assms by (auto simp: store_inv_def)
  obtain b' where b': "Bytes_AppendAll grow g () (str_bytes s) (b\<lparr>rc := (rc b)\<lparr>ref := 1\<rparr>\<rparr>) = (Ret (), b')"
    "holds_bytes (str_bytes s) b'" using AppendAll_idle [OF q b(2)] by blast
  let ?st = "st\<lparr>bytesPool := p\<rparr>" and ?d = "b'\<lparr>rc := (rc b')\<lparr>ref := 0\<rparr>\<rparr>"
  have "store_inv g ?st" using assms b(3) by (simp add: store_inv_def)
  then obtain i st1 where i: "get_id ?st = (Ret i, st1)" using get_id_good by blast
  have dec: "on_rc (DecRef g ()) b' = (Ret (), ?d)" using b'(2) by (intro DecRef_one [OF q]) (simp add: holds_bytes_def)
  have inc: "on_rc (IncRef g ()) ?d = (Ret (), b')"
  proof -
    have "b'\<lparr>rc := (rc b')\<lparr>ref := 1\<rparr>\<rparr> = b'" using b'(2) by (simp add: holds_bytes_def)
    then show ?thesis
      using q by (simp add: quiet_def on_rc_def IncRef_def tracebackEvent_def wrap32_id int32_ok_iff)
  qed
  have "simplePool_StringID grow g s st = (Ret (IdPtr i), set_id i ((ids st1 i)\<lparr>id_pool := True, data := Some b'\<rparr>) st1)"
    using b(1) i b'(1) dec inc IncRef_idle [OF q b(2)]
    by (simp add: simplePool_StringID_def simplePool_BinaryID_def andthen_def lift_checked_def)
  then show ?thesis using i b(3) b'(2) by blast
qed

lemma simplePool_StringID_good:
  assumes "store_inv g st"
  shows "\<exists>i st'. simplePool_StringID grow g s st = (Ret (IdPtr i), st') \<and> store_inv g st' \<and> live st' i (str_bytes s)"
proof -
  obtain b p i st1 where e: "cb_inv g p" "holds_bytes (str_bytes s) b" "get_id (st\<lparr>bytesPool := p\<rparr>) = (Ret i, st1)"
    "simplePool_StringID grow g s st = (Ret (IdPtr i), set_id i ((ids st1 i)\<lparr>id_pool := True, data := Some b\<rparr>) st1)"
    using simplePool_StringID_eq [OF assms] by blast
  have "store_inv g (st\<lparr>bytesPool := p\<rparr>)" using assms e(1) by (simp add: store_inv_def)
  then have i: "store_inv g st1" "i < next_id st1" "Some (IdPtr i) \<notin> set (id_free st1)"
    using get_id_good [of g "st\<lparr>bytesPool := p\<rparr>"] e(3) by auto
  let ?st2 = "set_id i ((ids st1 i)\<lparr>id_pool := True, data := Some b\<rparr>) st1"
  have "live ?st2 i (str_bytes s)" using i e(2) by (simp add: live_def set_id_def)
  then show ?thesis using set_id_inv [OF i(1)] e(4) by blast
qed

lemma simplePool_Clone_good:
  assumes "store_inv g st" and "live st e d"
  shows "\<exists>i st'. simplePool_Clone grow g (IdPtr e) st = (Ret (IdPtr i), st') \<and> i \<noteq> e \<and> store_inv g st' \<and>
    live st' i d \<and> live st' e d"
proof -
  have q: "quiet g" using assms by (simp add: store_inv_def)
  obtain i st1 where i: "get_id st = (Ret i, st1)" "store_inv g st1" "i < next_id st1"
    "Some (IdPtr i) \<notin> set (id_free st1)" "e \<noteq> i" "ids st1 e = ids st e" "Some (IdPtr e) \<notin> set (id_free st1)"
    "next_id st \<le> next_id st1"
    using get_id_good [OF assms(1)] assms(2) by (auto simp: live_def)
  have le: "live st1 e d" using assms(2) i by (auto simp: live_def)
  obtain b p where b: "get_bytes (length d) st1 = (Ret b, st1\<lparr>bytesPool := p\<rparr>)" "idle_bytes b" "cb_inv g p"
    using get_bytes_good [of g st1 "length d"] i(2) by (auto simp: store_inv_def)
  obtain b' where b': "Bytes_AppendAll grow g () d (b\<lparr>rc := (rc b)\<lparr>ref := 1\<rparr>\<rparr>) = (Ret (), b')"
    "holds_bytes d b'" using AppendAll_idle [OF q b(2)] by blast
  let ?st1 = "st1\<lparr>bytesPool := p\<rparr>"
  let ?st2 = "set_id i ((ids st1 i)\<lparr>id_pool := True, data := Some b'\<rparr>) ?st1"
  have "simplePool_Clone grow g (IdPtr e) st = (Ret (IdPtr i), ?st2)"
    using i(1) b(1) b'(1) live_Bytes [OF q le] IncRef_idle [OF q b(2)]
    by (simp add: simplePool_Clone_def andthen_def lift_checked_def)
  moreover have "store_inv g ?st2" using i(2) b(3) by (simp add: store_inv_def set_id_def)
  moreover have "live ?st2 i d" "live ?st2 e d" using i b'(2) le by (auto simp: live_def set_id_def)
  ultimately show ?thesis using i(5) by blast
qed

text \<open>\<^verbatim>\<open>Tags.NoFinalize\<close> leaves the flags of its tags as they were: finalizing one of them clears it.\<close>

lemma Tags_NoFinalize_loses_flags:
  assumes "Tags_NoFinalize (NewTags [StringTag n v]) st = (Ret t, st')"
  shows "ts_noFinalize t \<and> Tag_Finalize g (t_values t ! 0) st' = (Ret empty_Tag, st')"
  using assms by (auto simp: Tags_NoFinalize_def NewTags_def StringTag_def Tag_NoFinalize_def no_finalize_opt_def
      andthen_def StringID_def Tag_Finalize_def finalize_opt_def empty_Tag_def)

section \<open>Properties\<close>

text \<open>
  An identifier that the pool makes of a string holds the bytes of the string: it prints as the string and is equal
  to the plain identifier of the string.  A clone of it is another identifier with the same bytes, and
  the original keeps its own.  Neither depends on the capacities the pool hands out.
\<close>

theorem pooled_StringID_roundtrip:
  assumes "store_inv g st"
  shows "\<exists>i st1 j st2. simplePool_StringID grow g s st = (Ret (IdPtr i), st1) \<and>
    ID_String g (IdPtr i) st1 = (Ret s, st1) \<and> ID_Equal g (IdPtr i) (Some (StringID s)) st1 = (Ret True, st1) \<and>
    simplePool_Clone grow g (IdPtr i) st1 = (Ret (IdPtr j), st2) \<and> j \<noteq> i \<and>
    ID_Equal g (IdPtr i) (Some (IdPtr j)) st2 = (Ret True, st2) \<and> ID_String g (IdPtr j) st2 = (Ret s, st2)"
proof -
  have q: "quiet g" using assms by (simp add: store_inv_def)
  obtain i st1 where 1: "simplePool_StringID grow g s st = (Ret (IdPtr i), st1)" "store_inv g st1"
    "live st1 i (str_bytes s)" using simplePool_StringID_good [OF assms] by blast
  obtain j st2 where 2: "simplePool_Clone grow g (IdPtr i) st1 = (Ret (IdPtr j), st2)" "j \<noteq> i"
    "live st2 j (str_bytes s)" "live st2 i (str_bytes s)" using simplePool_Clone_good [OF 1(2,3)] by blast
  show ?thesis
    using 1 2 live_Bytes [OF q 1(3)] live_Bytes [OF q 2(3)] live_Bytes [OF q 2(4)]
    by (simp add: ID_String_def andthen_def StringID_def)
qed

text \<open>A store over an empty checked bytes pool, which allocates everything.\<close>

definition ex_store :: "unit store" where
  "ex_store = \<lparr>ids = (\<lambda>_. \<lparr>data = None, id_pool = False, noFinalize = False\<rparr>), next_id = 0, id_free = [], id_cap = 4,
     bytesPool = snd (checkedBytesPool_Init 0 (\<lambda>_ x. x) default_globals
       (NewCheckedBytesPool (\<lambda>x. x) () [] None (\<lambda>sizes. NewBytesPool (\<lambda>x. x) () sizes None)))\<rparr>"

lemma ex_store_inv: "store_inv default_globals ex_store"
  by (simp add: store_inv_def ex_store_def quiet_def default_globals_def cb_inv_def checkedBytesPool_Init_def
      NewCheckedBytesPool_def NewBytesPool_def NewBucketizedObjectPool_def bytesPool_Init_def bucketized_Init_def
      bytes.bz_inv_def cbytes.bz_inv_def)

theorem pooled_StringID_roundtrip_witness:
  "\<exists>i st1. simplePool_StringID (\<lambda>n. n) default_globals ''foo'' ex_store = (Ret (IdPtr i), st1) \<and>
     ID_String default_globals (IdPtr i) st1 = (Ret ''foo'', st1)"
  using pooled_StringID_roundtrip [OF ex_store_inv, of "\<lambda>n. n" "''foo''"] by blast

text \<open>
  C30: an iterator over tags yields the tags in order, and a duplicate taken after any number of steps is in the same
  state as the original, whether it is a copy or replayed on an iterator from the pool, whatever state
  that one was left in.
\<close>

theorem tag_iterator_Duplicate:
  assumes "int (length (t_values ts)) < 2 ^ 61" and "int k < 2 ^ 61" and "it = replay k (NewTagsIterator ts)"
  shows "tag_iterator.drain (Suc (length (t_values ts))) it = Some (drop k (t_values ts)) \<and>
    tagSliceIter_Duplicate None it = it \<and> tagSliceIter_Duplicate (Some pooled_iter) it = it"
proof -
  have it: "it = iter_at (t_values ts) k"
    using assms(2,3) replay_iter_at [of 0 k "t_values ts"] by (simp add: NewTagsIterator_def new_iter_at)
  have "iter_inv it" "iter_rest (\<lambda>x. x) it = drop k (t_values ts)"
    using assms(1,2) by (simp_all add: it iter_inv_def iter_rest_def iter_at_def)
  then have "tag_iterator.drain (Suc (length (t_values ts))) it = Some (drop k (t_values ts))"
    using tag_iterator.drain_rest [of it "Suc (length (t_values ts))"] by (simp del: tag_iterator.drain.simps)
  moreover have "tagSliceIter_Duplicate None it = it"
    by (simp add: tagSliceIter_Duplicate_def iter_Duplicate_def)
  moreover have "tagSliceIter_Duplicate (Some pooled_iter) it = it"
    using assms(2) replay_iter_at [of 0 k "t_values ts"] new_iter_at(2) [of "t_values ts" pooled_iter]
    by (simp add: tagSliceIter_Duplicate_def it) (simp add: iter_at_def)
  ultimately show ?thesis by blast
qed

theorem tag_iterator_Duplicate_witness:
  "tag_iterator.drain 3 (replay 1 (NewTagsIterator (NewTags [StringTag ''a'' ''b'', StringTag ''c'' ''d'']))) =
     Some [StringTag ''c'' ''d'']"
  using tag_iterator_Duplicate [of "NewTags [StringTag ''a'' ''b'', StringTag ''c'' ''d'']" 1, OF _ _ HOL.refl]
  by (simp add: NewTags_def numeral_3_eq_3)

end
