(* ===== verification/Watch.thy ===== *)
theory Watch
  imports Prelude
begin

text \<open>
  The package \<^verbatim>\<open>watch\<close>: the watchable and its watches (\<^verbatim>\<open>watch.go\<close>), the polling source (\<^verbatim>\<open>source.go\<close>) and the watched value
  (\<^verbatim>\<open>value.go\<close>).

  Goroutines interleave between critical sections.  \<^verbatim>\<open>Watch\<close> is two steps, since it sends the first notification
  after it has released the lock: between them the watchable can change.  A notification channel has room for
  one token; sending to a closed channel and closing a closed channel panic.
\<close>

section \<open>The watchable\<close>

record chan =
  full :: bool
  ch_closed :: bool

text \<open>
  \<open>inflight\<close> are the calls of \<^verbatim>\<open>Watch\<close> between their two steps, with the flag \<^verbatim>\<open>notify\<close>; \<open>handles\<close> are the watches that were
  returned, with their flag \<^verbatim>\<open>closed\<close>.
\<close>

record 'v watchable =
  w_value :: "'v option"
  active :: "nat list"
  w_closed :: bool
  chans :: "nat \<Rightarrow> chan"
  next_chan :: nat
  inflight :: "(nat \<times> bool) list"
  handles :: "nat \<rightharpoonup> bool"

datatype watch_panic = SendOnClosed | CloseOfClosed

datatype watch_error = errClosed

definition NewWatchable :: "'v watchable" where
  "NewWatchable = \<lparr>w_value = None, active = [], w_closed = False, chans = (\<lambda>_. \<lparr>full = False, ch_closed = False\<rparr>),
     next_chan = 0, inflight = [], handles = Map.empty\<rparr>"

definition watchable_Get :: "'v watchable \<Rightarrow> 'v option" where "watchable_Get w = w_value w"

definition NumWatches :: "'v watchable \<Rightarrow> nat" where "NumWatches w = length (active w)"

definition watchable_IsClosed :: "'v watchable \<Rightarrow> bool" where "watchable_IsClosed w = w_closed w"

text \<open>\<^verbatim>\<open>select { case c <- struct{}{}: default: }\<close>.\<close>

definition try_send :: "nat \<Rightarrow> 'v watchable \<Rightarrow> (watch_panic, 'v watchable) outcome" where
  "try_send c w =
     (if ch_closed (chans w c) then Panic SendOnClosed
      else Ret (w\<lparr>chans := (chans w)(c := (chans w c)\<lparr>full := True\<rparr>)\<rparr>))"

definition close_chan :: "nat \<Rightarrow> 'v watchable \<Rightarrow> (watch_panic, 'v watchable) outcome" where
  "close_chan c w =
     (if ch_closed (chans w c) then Panic CloseOfClosed
      else Ret (w\<lparr>chans := (chans w)(c := (chans w c)\<lparr>ch_closed := True\<rparr>)\<rparr>))"

text \<open>\<^verbatim>\<open>Watch\<close> up to the release of the lock.\<close>

definition Watch_begin :: "'v watchable \<Rightarrow> (watch_error, 'v watchable) result" where
  "Watch_begin w =
     (if w_closed w then Inl errClosed
      else
        (let c = next_chan w in
         Inr (w\<lparr>chans := (chans w)(c := \<lparr>full = False, ch_closed = False\<rparr>), next_chan := c + 1,
           active := active w @ [c], inflight := inflight w @ [(c, w_value w \<noteq> None)]\<rparr>)))"

text \<open>The rest of the \<open>i\<close>-th call of \<^verbatim>\<open>Watch\<close> in flight: the first notification, then the result.\<close>

definition Watch_end :: "nat \<Rightarrow> 'v watchable \<Rightarrow> (watch_panic, 'v option \<times> nat \<times> 'v watchable) outcome" where
  "Watch_end i w =
     (let (c, notify) = inflight w ! i;
          w = w\<lparr>inflight := take i (inflight w) @ drop (Suc i) (inflight w)\<rparr>
      in bind_outcome (if notify then try_send c w else Ret w)
           (\<lambda>w. Ret (watchable_Get w, c, w\<lparr>handles := (handles w)(c \<mapsto> False)\<rparr>)))"

fun send_all :: "nat list \<Rightarrow> 'v watchable \<Rightarrow> (watch_panic, 'v watchable) outcome" where
  "send_all [] w = Ret w"
| "send_all (c # cs) w = bind_outcome (try_send c w) (send_all cs)"

definition Update :: "'v option \<Rightarrow> 'v watchable \<Rightarrow> (watch_panic, (watch_error, unit) result \<times> 'v watchable) outcome" where
  "Update v w =
     (if w_closed w then Ret (Inl errClosed, w)
      else bind_outcome (send_all (active w) (w\<lparr>w_value := v\<rparr>)) (\<lambda>w. Ret (Inr (), w)))"

fun close_all :: "nat list \<Rightarrow> 'v watchable \<Rightarrow> (watch_panic, 'v watchable) outcome" where
  "close_all [] w = Ret w"
| "close_all (c # cs) w = bind_outcome (close_chan c w) (close_all cs)"

definition watchable_Close :: "'v watchable \<Rightarrow> (watch_panic, 'v watchable) outcome" where
  "watchable_Close w =
     (if w_closed w then Ret w
      else bind_outcome (close_all (active w) (w\<lparr>w_closed := True\<rparr>)) (\<lambda>w. Ret (w\<lparr>active := []\<rparr>)))"

text \<open>\<^verbatim>\<open>closeFunc\<close>: the loop removes the first occurrence of the channel.\<close>

definition closeFunc :: "nat \<Rightarrow> 'v watchable \<Rightarrow> (watch_panic, 'v watchable) outcome" where
  "closeFunc c w =
     (if w_closed w then Ret w
      else bind_outcome (close_chan c w) (\<lambda>w. Ret (w\<lparr>active := remove1 c (active w)\<rparr>)))"

definition watch_Close :: "nat \<Rightarrow> 'v watchable \<Rightarrow> (watch_panic, 'v watchable) outcome" where
  "watch_Close c w =
     (if handles w c = Some True then Ret w else closeFunc c (w\<lparr>handles := (handles w)(c \<mapsto> True)\<rparr>))"

definition watch_Get :: "nat \<Rightarrow> 'v watchable \<Rightarrow> 'v option" where "watch_Get c w = watchable_Get w"

text \<open>A receive on the channel of a watch takes the token, if there is one.\<close>

definition watch_receive :: "nat \<Rightarrow> 'v watchable \<Rightarrow> 'v watchable" where
  "watch_receive c w = w\<lparr>chans := (chans w)(c := (chans w c)\<lparr>full := False\<rparr>)\<rparr>"

section \<open>Source\<close>

datatype poll_error = ErrSourceClosed | PollError string

record 'v source =
  s_w :: "'v watchable"
  s_closed :: bool
  s_log :: "string list"

definition source_isClosed :: "'v source \<Rightarrow> bool" where "source_isClosed s = s_closed s"

definition source_Close :: "'v source \<Rightarrow> (watch_panic, 'v source) outcome" where
  "source_Close s =
     (if s_closed s then Ret s
      else bind_outcome (watchable_Close (s_w s)) (\<lambda>w. Ret (s\<lparr>s_closed := True, s_w := w\<rparr>)))"

text \<open>
  One round of the loop of \<^verbatim>\<open>run\<close>, from the result of a poll: the source, and whether the loop goes on to its
  condition.
\<close>

definition run_round ::
    "(poll_error, 'v option) result \<Rightarrow> 'v source \<Rightarrow> (watch_panic, bool \<times> 'v source) outcome" where
  "run_round polled s =
     (case polled of
        Inl ErrSourceClosed \<Rightarrow>
          bind_outcome (source_Close (s\<lparr>s_log := s_log s @ [''watch source upstream is closed'']\<rparr>)) (\<lambda>s. Ret (False, s))
      | Inl (PollError e) \<Rightarrow> Ret (True, s\<lparr>s_log := s_log s @ [''watch source poll error: '' @ e]\<rparr>)
      | Inr d \<Rightarrow>
          bind_outcome (Update d (s_w s)) (\<lambda>(r, w).
            Ret (True, case r of
                   Inl _ \<Rightarrow> s\<lparr>s_w := w, s_log := s_log s @ [''watch source update error: closed'']\<rparr>
                 | Inr _ \<Rightarrow> s\<lparr>s_w := w\<rparr>)))"

text \<open>
  The loop.  Its input lists the polls, each with whether another goroutine closes the source during the poll;
  \<open>Ret (True, s)\<close> is a loop that still runs when the polls are used up.
\<close>

fun source_run :: "((poll_error, 'v option) result \<times> bool) list \<Rightarrow> 'v source \<Rightarrow> (watch_panic, bool \<times> 'v source) outcome" where
  "source_run polls s =
     (if source_isClosed s then Ret (False, s)
      else (case polls of
        [] \<Rightarrow> Ret (True, s)
      | (polled, closing) # polls \<Rightarrow>
          bind_outcome (if closing then source_Close s else Ret s) (\<lambda>s.
          bind_outcome (run_round polled s) (\<lambda>(again, s). if again then source_run polls s else Ret (False, s)))))"

declare source_run.simps [simp del]

definition source_Get :: "'v source \<Rightarrow> 'v option" where "source_Get s = watchable_Get (s_w s)"

text \<open>\<^verbatim>\<open>source.Watch\<close>, whose second step is that of the watchable.\<close>

definition source_Watch_begin :: "'v source \<Rightarrow> (watch_error, 'v source) result" where
  "source_Watch_begin s = map_sum (\<lambda>e. e) (\<lambda>w. s\<lparr>s_w := w\<rparr>) (Watch_begin (s_w s))"

definition NewSource :: "'v source" where
  "NewSource = \<lparr>s_w = NewWatchable, s_closed = False, s_log = []\<rparr>"

section \<open>Options\<close>

definition defaultInitWatchTimeout :: int where "defaultInitWatchTimeout = 10 * 10 ^ 9"

text \<open>The functions are nil until they are set.\<close>

record ('io, 'n, 'g, 'p) watch_options =
  wo_instrumentOpts :: 'io
  wo_initWatchTimeout :: int
  wo_newUpdatableFn :: "'n option"
  wo_getUpdateFn :: "'g option"
  wo_processFn :: "'p option"

definition watch_NewOptions :: "'io \<Rightarrow> ('io, 'n, 'g, 'p) watch_options" where
  "watch_NewOptions io = \<lparr>wo_instrumentOpts = io, wo_initWatchTimeout = defaultInitWatchTimeout, wo_newUpdatableFn = None,
     wo_getUpdateFn = None, wo_processFn = None\<rparr>"

definition watch_SetInstrumentOptions :: "('io, 'n, 'g, 'p) watch_options \<Rightarrow> 'io \<Rightarrow> ('io, 'n, 'g, 'p) watch_options" where
  [opt_field]: "watch_SetInstrumentOptions os v = os\<lparr>wo_instrumentOpts := v\<rparr>"

definition watch_InstrumentOptions :: "('io, 'n, 'g, 'p) watch_options \<Rightarrow> 'io" where
  [opt_field]: "watch_InstrumentOptions os = wo_instrumentOpts os"

interpretation wf_instrumentOpts: option_field watch_InstrumentOptions watch_SetInstrumentOptions
  by unfold_locales (simp_all add: opt_field)

definition SetInitWatchTimeout :: "('io, 'n, 'g, 'p) watch_options \<Rightarrow> int \<Rightarrow> ('io, 'n, 'g, 'p) watch_options" where
  [opt_field]: "SetInitWatchTimeout os v = os\<lparr>wo_initWatchTimeout := v\<rparr>"

definition InitWatchTimeout :: "('io, 'n, 'g, 'p) watch_options \<Rightarrow> int" where
  [opt_field]: "InitWatchTimeout os = wo_initWatchTimeout os"

interpretation wf_initWatchTimeout: option_field InitWatchTimeout SetInitWatchTimeout
  by unfold_locales (simp_all add: opt_field)

definition SetNewUpdatableFn :: "('io, 'n, 'g, 'p) watch_options \<Rightarrow> 'n option \<Rightarrow> ('io, 'n, 'g, 'p) watch_options" where
  [opt_field]: "SetNewUpdatableFn os v = os\<lparr>wo_newUpdatableFn := v\<rparr>"

definition NewUpdatableFn :: "('io, 'n, 'g, 'p) watch_options \<Rightarrow> 'n option" where
  [opt_field]: "NewUpdatableFn os = wo_newUpdatableFn os"

interpretation wf_newUpdatableFn: option_field NewUpdatableFn SetNewUpdatableFn
  by unfold_locales (simp_all add: opt_field)

definition SetGetUpdateFn :: "('io, 'n, 'g, 'p) watch_options \<Rightarrow> 'g option \<Rightarrow> ('io, 'n, 'g, 'p) watch_options" where
  [opt_field]: "SetGetUpdateFn os v = os\<lparr>wo_getUpdateFn := v\<rparr>"

definition GetUpdateFn :: "('io, 'n, 'g, 'p) watch_options \<Rightarrow> 'g option" where
  [opt_field]: "GetUpdateFn os = wo_getUpdateFn os"

interpretation wf_getUpdateFn: option_field GetUpdateFn SetGetUpdateFn
  by unfold_locales (simp_all add: opt_field)

definition SetProcessFn :: "('io, 'n, 'g, 'p) watch_options \<Rightarrow> 'p option \<Rightarrow> ('io, 'n, 'g, 'p) watch_options" where
  [opt_field]: "SetProcessFn os v = os\<lparr>wo_processFn := v\<rparr>"

definition ProcessFn :: "('io, 'n, 'g, 'p) watch_options \<Rightarrow> 'p option" where
  [opt_field]: "ProcessFn os = wo_processFn os"

interpretation wf_processFn: option_field ProcessFn SetProcessFn
  by unfold_locales (simp_all add: opt_field)

section \<open>Value\<close>

datatype valueStatus = valueNotWatching | valueWatching

datatype value_error = CreateWatchError string | InitValueError string

text \<open>
  An updatable is a number; \<open>u_closed\<close> are those that were closed, \<open>watchers\<close> the goroutines in \<^verbatim>\<open>watchUpdates\<close> with the
  updatable each was started with, \<open>processed\<close> the updates handed to the process function.
\<close>

record 'u watch_value =
  v_status :: valueStatus
  updatable :: "nat option"
  u_closed :: "nat set"
  watchers :: "nat list"
  processed :: "'u list"
  v_log :: "string list"

definition NewValue :: "'u watch_value" where
  "NewValue = \<lparr>v_status = valueNotWatching, updatable = None, u_closed = {}, watchers = [], processed = [], v_log = []\<rparr>"

text \<open>\<open>process\<close> is the process function; \<^const>\<open>None\<close> is success.\<close>

definition processWithLock ::
    "('u \<Rightarrow> string option) \<Rightarrow> 'u option \<Rightarrow> 'u watch_value \<Rightarrow> string option \<times> 'u watch_value" where
  "processWithLock process u v =
     (case u of None \<Rightarrow> (Some ''nil kv value'', v)
      | Some x \<Rightarrow> (process x, v\<lparr>processed := processed v @ [x]\<rparr>))"

text \<open>
  \<^verbatim>\<open>value.Watch\<close>: \<open>created\<close> is the result of \<^verbatim>\<open>newUpdatableFn\<close>, \<open>notified\<close> whether a notification came before the timeout, and
  \<open>got\<close> the result of \<^verbatim>\<open>getUpdateFn\<close>.
\<close>

definition value_Watch ::
    "('u \<Rightarrow> string option) \<Rightarrow> (string, nat) result \<Rightarrow> bool \<Rightarrow> (string, 'u option) result \<Rightarrow> 'u watch_value \<Rightarrow>
     value_error option \<times> 'u watch_value" where
  "value_Watch process created notified got v =
     (if v_status v = valueWatching then (None, v)
      else (case created of
        Inl e \<Rightarrow> (Some (CreateWatchError e), v)
      | Inr u \<Rightarrow>
          (let v = v\<lparr>v_status := valueWatching, updatable := Some u, watchers := watchers v @ [u]\<rparr> in
           if \<not> notified then (Some (InitValueError ''init watch timeout''), v)
           else (case got of
             Inl e \<Rightarrow> (Some (InitValueError e), v)
           | Inr x \<Rightarrow>
               (case processWithLock process x v of
                  (Some e, v) \<Rightarrow> (Some (InitValueError e), v)
                | (None, v) \<Rightarrow> (None, v))))))"

definition value_Unwatch :: "'u watch_value \<Rightarrow> 'u watch_value" where
  "value_Unwatch v =
     (if v_status v = valueNotWatching then v
      else v\<lparr>u_closed := u_closed v \<union> set_option (updatable v), v_status := valueNotWatching, updatable := None\<rparr>)"

text \<open>
  One receive of a goroutine in \<^verbatim>\<open>watchUpdates\<close> that was started with the updatable \<open>u\<close>: \<open>open_chan\<close> is false when the channel is closed
  and empty, which ends the \<^verbatim>\<open>range\<close>.
\<close>

definition watchUpdates_round ::
    "('u \<Rightarrow> string option) \<Rightarrow> nat \<Rightarrow> bool \<Rightarrow> (string, 'u option) result \<Rightarrow> 'u watch_value \<Rightarrow> 'u watch_value" where
  "watchUpdates_round process u open_chan got v =
     (if \<not> open_chan \<or> v_status v \<noteq> valueWatching \<or> updatable v \<noteq> Some u then v\<lparr>watchers := remove1 u (watchers v)\<rparr>
      else (case got of
        Inl e \<Rightarrow> v\<lparr>v_log := v_log v @ [''error getting update: '' @ e]\<rparr>
      | Inr x \<Rightarrow>
          (case processWithLock process x v of
             (Some e, v) \<Rightarrow> v\<lparr>v_log := v_log v @ [''error updating value: '' @ e]\<rparr>
           | (None, v) \<Rightarrow> v)))"

text \<open>\<^verbatim>\<open>CreateWatchError.Error\<close> and \<^verbatim>\<open>InitValueError.Error\<close>.\<close>

fun value_error_Error :: "value_error \<Rightarrow> string" where
  "value_error_Error (CreateWatchError e) = ''create watch error:'' @ e"
| "value_error_Error (InitValueError e) = ''initializing value error:'' @ e"

section \<open>Interleavings of a watchable\<close>

inductive watch_step :: "'v watchable \<Rightarrow> 'v watchable \<Rightarrow> bool" where
  wbegin: "Watch_begin w = Inr w' \<Longrightarrow> watch_step w w'"
| wend: "i < length (inflight w) \<Longrightarrow> Watch_end i w = Ret (v, c, w') \<Longrightarrow> watch_step w w'"
| update: "Update v w = Ret (r, w') \<Longrightarrow> watch_step w w'"
| wclose: "watchable_Close w = Ret w' \<Longrightarrow> watch_step w w'"
| hclose: "handles w c \<noteq> None \<Longrightarrow> watch_Close c w = Ret w' \<Longrightarrow> watch_step w w'"
| receive: "handles w c \<noteq> None \<Longrightarrow> watch_step w (watch_receive c w)"

inductive watch_reach :: "'v watchable \<Rightarrow> bool" where
  init: "watch_reach NewWatchable"
| step: "watch_reach w \<Longrightarrow> watch_step w w' \<Longrightarrow> watch_reach w'"

definition watch_inv :: "'v watchable \<Rightarrow> bool" where
  "watch_inv w \<longleftrightarrow> distinct (active w) \<and> (\<forall>c\<in>set (active w). c < next_chan w \<and> \<not> ch_closed (chans w c)) \<and>
     (w_closed w \<longrightarrow> active w = []) \<and>
     distinct (map fst (inflight w)) \<and>
     (\<forall>c b. (c, b) \<in> set (inflight w) \<longrightarrow> c < next_chan w \<and> handles w c = None \<and>
        (w_closed w \<longrightarrow> ch_closed (chans w c)) \<and> (\<not> w_closed w \<longrightarrow> c \<in> set (active w))) \<and>
     (\<forall>c. handles w c \<noteq> None \<longrightarrow> c < next_chan w) \<and>
     (\<not> w_closed w \<longrightarrow> (\<forall>c. handles w c = Some False \<longrightarrow> c \<in> set (active w)))"

lemma send_all_open:
  "\<forall>c\<in>set cs. \<not> ch_closed (chans w c) \<Longrightarrow>
   send_all cs w = Ret (w\<lparr>chans := (\<lambda>c. if c \<in> set cs then (chans w c)\<lparr>full := True\<rparr> else chans w c)\<rparr>)"
proof (induction cs arbitrary: w)
  case (Cons a cs)
  let ?w = "w\<lparr>chans := (chans w)(a := (chans w a)\<lparr>full := True\<rparr>)\<rparr>"
  have "send_all cs ?w = Ret (?w\<lparr>chans := (\<lambda>c. if c \<in> set cs then (chans ?w c)\<lparr>full := True\<rparr> else chans ?w c)\<rparr>)"
    using Cons.prems by (intro Cons.IH) auto
  moreover have "(\<lambda>c. if c \<in> set cs then (chans ?w c)\<lparr>full := True\<rparr> else chans ?w c) =
      (\<lambda>c. if c \<in> set (a # cs) then (chans w c)\<lparr>full := True\<rparr> else chans w c)" by (auto simp: fun_eq_iff)
  ultimately show ?case using Cons.prems by (simp add: try_send_def)
qed simp

lemma close_all_open:
  "distinct cs \<Longrightarrow> \<forall>c\<in>set cs. \<not> ch_closed (chans w c) \<Longrightarrow>
   close_all cs w = Ret (w\<lparr>chans := (\<lambda>c. if c \<in> set cs then (chans w c)\<lparr>ch_closed := True\<rparr> else chans w c)\<rparr>)"
proof (induction cs arbitrary: w)
  case (Cons a cs)
  let ?w = "w\<lparr>chans := (chans w)(a := (chans w a)\<lparr>ch_closed := True\<rparr>)\<rparr>"
  have "close_all cs ?w = Ret (?w\<lparr>chans := (\<lambda>c. if c \<in> set cs then (chans ?w c)\<lparr>ch_closed := True\<rparr> else chans ?w c)\<rparr>)"
    using Cons.prems by (intro Cons.IH) auto
  moreover have "(\<lambda>c. if c \<in> set cs then (chans ?w c)\<lparr>ch_closed := True\<rparr> else chans ?w c) =
      (\<lambda>c. if c \<in> set (a # cs) then (chans w c)\<lparr>ch_closed := True\<rparr> else chans w c)"
    using Cons.prems(1) by (auto simp: fun_eq_iff)
  ultimately show ?case using Cons.prems by (simp add: close_chan_def)
qed simp

text \<open>The effect of each operation on a state that satisfies the invariant.\<close>

lemma Update_ok:
  assumes "watch_inv w"
  shows "\<exists>r w'. Update v w = Ret (r, w') \<and> watch_inv w' \<and> w_closed w' = w_closed w \<and>
    (\<not> w_closed w \<longrightarrow> r = Inr () \<and> watchable_Get w' = v \<and> active w' = active w \<and>
       (\<forall>c\<in>set (active w). full (chans w' c)))"
proof (cases "w_closed w")
  case True
  with assms show ?thesis by (simp add: Update_def)
next
  case False
  let ?w = "w\<lparr>w_value := v\<rparr>"
  have "\<forall>c\<in>set (active w). \<not> ch_closed (chans ?w c)" using assms by (simp add: watch_inv_def)
  from send_all_open [OF this] False assms show ?thesis
    by (auto simp: Update_def watch_inv_def watchable_Get_def)
qed

lemma Close_ok:
  assumes "watch_inv w"
  shows "\<exists>w'. watchable_Close w = Ret w' \<and> watch_inv w' \<and> w_closed w'"
proof (cases "w_closed w")
  case True
  with assms show ?thesis by (simp add: watchable_Close_def)
next
  case False
  let ?w = "w\<lparr>w_closed := True\<rparr>"
  have "distinct (active w)" "\<forall>c\<in>set (active w). \<not> ch_closed (chans ?w c)" using assms by (simp_all add: watch_inv_def)
  from close_all_open [OF this] False assms show ?thesis
    by (auto simp: watchable_Close_def watch_inv_def)
qed

lemma hclose_ok:
  assumes "watch_inv w" and "handles w c \<noteq> None"
  shows "\<exists>w'. watch_Close c w = Ret w' \<and> watch_inv w' \<and> (\<not> w_closed w \<longrightarrow> c \<notin> set (active w') \<or> handles w c = Some True)"
proof (cases "handles w c = Some True \<or> w_closed w")
  case True
  with assms show ?thesis by (auto simp: watch_Close_def closeFunc_def watch_inv_def)
next
  case False
  then have c: "handles w c = Some False" "c \<in> set (active w)" "\<not> ch_closed (chans w c)"
    using assms by (auto simp: watch_inv_def)
  let ?w = "w\<lparr>handles := (handles w)(c \<mapsto> True), chans := (chans w)(c := (chans w c)\<lparr>ch_closed := True\<rparr>),
    active := remove1 c (active w)\<rparr>"
  have "watch_Close c w = Ret ?w" using False c by (simp add: watch_Close_def closeFunc_def close_chan_def)
  moreover have "watch_inv ?w" using assms(1) False c by (auto simp: watch_inv_def)
  moreover have "c \<notin> set (active ?w)" using assms(1) by (simp add: watch_inv_def)
  ultimately show ?thesis by blast
qed

lemma begin_ok:
  assumes "watch_inv w" and "Watch_begin w = Inr w'"
  shows "watch_inv w'"
proof -
  let ?c = "next_chan w"
  have fresh: "?c \<notin> set (active w)" "?c \<notin> fst ` set (inflight w)" "handles w ?c = None"
    using assms(1) by (force simp: watch_inv_def)+
  have w': "\<not> w_closed w" "w' = w\<lparr>chans := (chans w)(?c := \<lparr>full = False, ch_closed = False\<rparr>), next_chan := ?c + 1,
      active := active w @ [?c], inflight := inflight w @ [(?c, w_value w \<noteq> None)]\<rparr>"
    using assms(2) by (auto simp: Watch_begin_def Let_def split: if_splits)
  show ?thesis using assms(1) fresh w'(1) unfolding watch_inv_def w'(2) by (auto intro: less_SucI)
qed

lemma distinct_map_remove_nth:
  "i < length xs \<Longrightarrow> distinct (map f xs) \<Longrightarrow>
   distinct (map f (take i xs @ drop (Suc i) xs)) \<and> f (xs ! i) \<notin> f ` set (take i xs @ drop (Suc i) xs)"
proof -
  assume i: "i < length xs" and d: "distinct (map f xs)"
  have "map f xs = map f (take i xs) @ f (xs ! i) # map f (drop (Suc i) xs)"
    using id_take_nth_drop [OF i] by (metis list.simps(9) map_append)
  with d show ?thesis by auto
qed

lemma watch_inv_chans:
  assumes "watch_inv w" and "\<And>e. ch_closed (f e) = ch_closed (chans w e)"
  shows "watch_inv (w\<lparr>chans := f\<rparr>)"
proof -
  have "watch_inv (w\<lparr>chans := f\<rparr>) = watch_inv w" by (simp add: watch_inv_def assms(2))
  with assms(1) show ?thesis by simp
qed

lemma Watch_end_cases:
  assumes "watch_inv w" and "i < length (inflight w)" and "inflight w ! i = (c, notify)"
  shows "if w_closed w \<and> notify then Watch_end i w = Panic SendOnClosed
    else \<exists>w'. Watch_end i w = Ret (watchable_Get w, c, w') \<and> watch_inv w' \<and> handles w' c = Some False"
proof -
  let ?in = "take i (inflight w) @ drop (Suc i) (inflight w)"
  have m: "(c, notify) \<in> set (inflight w)" using assms(2,3) nth_mem by metis
  have c: "c < next_chan w" "if w_closed w then ch_closed (chans w c) else c \<in> set (active w)"
    using assms(1) m by (auto simp: watch_inv_def)
  have d: "distinct (map fst ?in)" "c \<notin> fst ` set ?in"
    using distinct_map_remove_nth [OF assms(2), of fst] assms(1,3) by (simp_all add: watch_inv_def)
  have sub: "set ?in \<subseteq> set (inflight w)" by (auto dest: in_set_takeD in_set_dropD)
  let ?w = "w\<lparr>inflight := ?in, handles := (handles w)(c \<mapsto> False)\<rparr>"
  have f: "e < next_chan w \<and> ((handles w)(c \<mapsto> False)) e = None \<and>
      (w_closed w \<longrightarrow> ch_closed (chans w e)) \<and> (\<not> w_closed w \<longrightarrow> e \<in> set (active w))"
    if "(e, b) \<in> set ?in" for e b
  proof -
    have "(e, b) \<in> set (inflight w)" "e \<noteq> c" using that sub d(2) by force+
    then show ?thesis using assms(1) by (auto simp: watch_inv_def)
  qed
  have h: "e < next_chan w" if "((handles w)(c \<mapsto> False)) e \<noteq> None" for e
    using that c(1) assms(1) by (cases "e = c") (simp_all add: watch_inv_def)
  have l: "e \<in> set (active w)" if "((handles w)(c \<mapsto> False)) e = Some False" "\<not> w_closed w" for e
    using that c(2) assms(1) by (cases "e = c") (simp_all add: watch_inv_def)
  have a: "distinct (active w)" "\<forall>c\<in>set (active w). c < next_chan w \<and> \<not> ch_closed (chans w c)"
    "w_closed w \<longrightarrow> active w = []" using assms(1) by (simp_all add: watch_inv_def)
  have inv: "watch_inv ?w"
    unfolding watch_inv_def
  proof (intro conjI allI impI)
    fix e b assume "(e, b) \<in> set (inflight ?w)"
    then have "(e, b) \<in> set ?in" by simp
    from f [OF this] show "e < next_chan ?w" "handles ?w e = None"
      "w_closed ?w \<Longrightarrow> ch_closed (chans ?w e)" "\<not> w_closed ?w \<Longrightarrow> e \<in> set (active ?w)" by simp_all
  next
    fix e assume "handles ?w e \<noteq> None"
    then have "((handles w)(c \<mapsto> False)) e \<noteq> None" by simp
    from h [OF this] show "e < next_chan ?w" by simp
  next
    fix e assume "\<not> w_closed ?w" "handles ?w e = Some False"
    then have "((handles w)(c \<mapsto> False)) e = Some False" "\<not> w_closed w" by simp_all
    from l [OF this] show "e \<in> set (active ?w)" by simp
  qed (use a d(1) in simp_all)
  have inv2: "watch_inv (?w\<lparr>chans := (chans w)(c := (chans w c)\<lparr>full := True\<rparr>)\<rparr>)"
    using inv by (rule watch_inv_chans) simp_all
  have swap: "w\<lparr>inflight := ?in, chans := f, handles := g\<rparr> = w\<lparr>inflight := ?in, handles := g, chans := f\<rparr>" for f g by simp
  show ?thesis
  proof (cases "w_closed w \<and> notify")
    case True
    with c assms(3) show ?thesis by (simp add: Watch_end_def try_send_def)
  next
    case False
    show ?thesis
    proof (cases notify)
      case True
      with False c assms(1) have "\<not> ch_closed (chans w c)" by (simp add: watch_inv_def)
      with True False assms(3) inv2 show ?thesis
        by (simp add: Watch_end_def try_send_def watchable_Get_def swap)
    next
      case no: False
      with assms(3) inv show ?thesis by (simp add: Watch_end_def watchable_Get_def)
    qed
  qed
qed

lemma watch_reach_inv: "watch_reach w \<Longrightarrow> watch_inv w"
proof (induction rule: watch_reach.induct)
  case init
  show ?case by (simp add: watch_inv_def NewWatchable_def)
next
  case (step w w')
  from step(2) show ?case
  proof cases
    case wbegin
    with begin_ok step.IH show ?thesis by blast
  next
    case (wend i v c)
    obtain d b where "inflight w ! i = (d, b)" by force
    from Watch_end_cases [OF step.IH wend(1) this] wend(2) show ?thesis by (auto split: if_splits)
  next
    case (update v r)
    with Update_ok [OF step.IH, of v] show ?thesis by auto
  next
    case wclose
    with Close_ok [OF step.IH] show ?thesis by auto
  next
    case (hclose c)
    with hclose_ok [OF step.IH hclose(1)] show ?thesis by auto
  next
    case (receive c)
    have "ch_closed (((chans w)(c := (chans w c)\<lparr>full := False\<rparr>)) e) = ch_closed (chans w e)" for e by simp
    with step.IH receive(1) show ?thesis unfolding watch_inv_def watch_receive_def by simp
  qed
qed

section \<open>Source and value\<close>

lemma source_Close_ok:
  assumes "watch_inv (s_w s)"
  shows "\<exists>s'. source_Close s = Ret s' \<and> watch_inv (s_w s') \<and> s_closed s'"
  using assms Close_ok [OF assms] by (auto simp: source_Close_def)

lemma run_round_ok:
  assumes "watch_inv (s_w s)"
  shows "\<exists>again s'. run_round polled s = Ret (again, s') \<and> watch_inv (s_w s') \<and> (\<not> again \<longrightarrow> s_closed s')"
proof (cases polled)
  case (Inl e)
  let ?s = "s\<lparr>s_log := s_log s @ [''watch source upstream is closed'']\<rparr>"
  have "watch_inv (s_w ?s)" using assms by simp
  from source_Close_ok [OF this] show ?thesis using assms Inl by (cases e) (auto simp: run_round_def)
next
  case (Inr d)
  obtain r w where "Update d (s_w s) = Ret (r, w)" "watch_inv w" using Update_ok [OF assms, of d] by blast
  with Inr show ?thesis by (cases r) (auto simp: run_round_def)
qed

text \<open>The polling loop never panics, and when it has ended the source is closed.\<close>

lemma source_run_ok:
  "watch_inv (s_w s) \<Longrightarrow> \<exists>again s'. source_run polls s = Ret (again, s') \<and> watch_inv (s_w s') \<and> (\<not> again \<longrightarrow> s_closed s')"
proof (induction polls arbitrary: s)
  case Nil
  then show ?case by (auto simp: source_run.simps source_isClosed_def)
next
  case (Cons p polls)
  obtain polled closing where p: "p = (polled, closing)" by force
  obtain s1 where 1: "(if closing then source_Close s else Ret s) = Ret s1" "watch_inv (s_w s1)"
    using source_Close_ok [OF Cons.prems] Cons.prems by (cases closing) auto
  obtain again s2 where 2: "run_round polled s1 = Ret (again, s2)" "watch_inv (s_w s2)" "\<not> again \<longrightarrow> s_closed s2"
    using run_round_ok [OF 1(2)] by blast
  show ?case
  proof (cases "source_isClosed s")
    case True
    with Cons.prems show ?thesis by (auto simp: source_run.simps source_isClosed_def)
  next
    case False
    with p 1(1) 2(1) have "source_run (p # polls) s = (if again then source_run polls s2 else Ret (False, s2))"
      by (subst source_run.simps) simp
    with 2 Cons.IH [OF 2(2)] show ?thesis by auto
  qed
qed

definition value_inv :: "'u watch_value \<Rightarrow> bool" where
  "value_inv v \<longleftrightarrow> (v_status v = valueWatching \<longleftrightarrow> updatable v \<noteq> None) \<and> set_option (updatable v) \<subseteq> set (watchers v) \<and>
     set_option (updatable v) \<inter> u_closed v = {}"

lemma processWithLock_keeps [simp]:
  assumes "processWithLock process u v = (e, v')"
  shows "v_status v' = v_status v" "updatable v' = updatable v" "watchers v' = watchers v" "u_closed v' = u_closed v"
  using assms by (auto simp: processWithLock_def split: option.splits)

text \<open>
  A watched value has a live goroutine for its open updatable, after every \<^verbatim>\<open>Watch\<close> with a fresh updatable, failed
  initializations included, after \<^verbatim>\<open>Unwatch\<close> and after every notification of an updatable that is still open.
\<close>

lemma value_Watch_inv:
  assumes "value_inv v" and "\<And>u. created = Inr u \<Longrightarrow> u \<notin> u_closed v"
  shows "value_inv (snd (value_Watch process created notified got v)) \<and>
    (\<forall>e. fst (value_Watch process created notified got v) \<noteq> Some (CreateWatchError e)) =
      (v_status (snd (value_Watch process created notified got v)) = valueWatching)"
  using assms by (auto simp: value_Watch_def value_inv_def Let_def split: sum.splits option.splits prod.splits)

lemma value_Unwatch_inv: "value_inv v \<Longrightarrow> value_inv (value_Unwatch v) \<and> updatable (value_Unwatch v) = None"
  by (auto simp: value_Unwatch_def value_inv_def)

lemma watchUpdates_inv:
  "value_inv v \<Longrightarrow> open_chan \<or> updatable v \<noteq> Some u \<Longrightarrow> value_inv (watchUpdates_round process u open_chan got v)"
  by (auto simp: watchUpdates_round_def value_inv_def split: sum.splits option.splits prod.splits)

section \<open>Properties\<close>

text \<open>
  C31: in every interleaving of calls on a watchable, updating and closing it and closing its watches do not panic, an
  update of an open watchable leaves a notification in the channel of every watch, and the only call
  that panics is a \<^verbatim>\<open>Watch\<close> that found a value, when the watchable is closed before it sends its first
  notification.  That interleaving exists: the send happens after the lock has been released.
\<close>

theorem watch_panics_only_in_race:
  "(\<forall>w v. watch_reach w \<longrightarrow>
      (\<exists>w'. watchable_Close w = Ret w') \<and> (\<forall>c. handles w c \<noteq> None \<longrightarrow> (\<exists>w'. watch_Close c w = Ret w')) \<and>
      (\<exists>r w'. Update v w = Ret (r, w') \<and>
         (\<not> w_closed w \<longrightarrow> r = Inr () \<and> watchable_Get w' = v \<and> (\<forall>c\<in>set (active w). full (chans w' c)))) \<and>
      (\<forall>i<length (inflight w). Watch_end i w = Panic SendOnClosed \<longleftrightarrow> w_closed w \<and> snd (inflight w ! i)) \<and>
      (\<forall>i<length (inflight w). \<forall>p. Watch_end i w = Panic p \<longrightarrow> p = SendOnClosed)) \<and>
   (\<exists>w. watch_reach (w :: nat watchable) \<and> 0 < length (inflight w) \<and> Watch_end 0 w = Panic SendOnClosed)"
proof (rule conjI)
  show "\<forall>(w :: 'a watchable) v. watch_reach w \<longrightarrow>
      (\<exists>w'. watchable_Close w = Ret w') \<and> (\<forall>c. handles w c \<noteq> None \<longrightarrow> (\<exists>w'. watch_Close c w = Ret w')) \<and>
      (\<exists>r w'. Update v w = Ret (r, w') \<and>
         (\<not> w_closed w \<longrightarrow> r = Inr () \<and> watchable_Get w' = v \<and> (\<forall>c\<in>set (active w). full (chans w' c)))) \<and>
      (\<forall>i<length (inflight w). Watch_end i w = Panic SendOnClosed \<longleftrightarrow> w_closed w \<and> snd (inflight w ! i)) \<and>
      (\<forall>i<length (inflight w). \<forall>p. Watch_end i w = Panic p \<longrightarrow> p = SendOnClosed)"
  proof (intro allI impI)
    fix w :: "'a watchable" and v
    assume "watch_reach w"
    then have inv: "watch_inv w" by (rule watch_reach_inv)
    have e: "(Watch_end i w = Panic SendOnClosed \<longleftrightarrow> w_closed w \<and> snd (inflight w ! i)) \<and>
        (\<forall>p. Watch_end i w = Panic p \<longrightarrow> p = SendOnClosed)" if "i < length (inflight w)" for i
      using Watch_end_cases [OF inv that surjective_pairing] by (auto split: if_splits)
    with Close_ok [OF inv] hclose_ok [OF inv] Update_ok [OF inv, of v] show "(\<exists>w'. watchable_Close w = Ret w') \<and>
        (\<forall>c. handles w c \<noteq> None \<longrightarrow> (\<exists>w'. watch_Close c w = Ret w')) \<and>
        (\<exists>r w'. Update v w = Ret (r, w') \<and>
           (\<not> w_closed w \<longrightarrow> r = Inr () \<and> watchable_Get w' = v \<and> (\<forall>c\<in>set (active w). full (chans w' c)))) \<and>
        (\<forall>i<length (inflight w). Watch_end i w = Panic SendOnClosed \<longleftrightarrow> w_closed w \<and> snd (inflight w ! i)) \<and>
        (\<forall>i<length (inflight w). \<forall>p. Watch_end i w = Panic p \<longrightarrow> p = SendOnClosed)" by blast
  qed
next
  let ?w0 = "NewWatchable :: nat watchable"
  obtain w1 where 1: "Update (Some 1) ?w0 = Ret (Inr (), w1)" "w1 = ?w0\<lparr>w_value := Some 1\<rparr>"
    by (simp add: Update_def NewWatchable_def)
  obtain w2 where 2: "Watch_begin w1 = Inr w2" "inflight w2 = [(0, True)]"
    by (simp add: Watch_begin_def 1(2) NewWatchable_def)
  have r2: "watch_reach w2"
    using 1(1) 2(1) watch_step.update watch_step.wbegin watch_reach.intros by metis
  obtain w3 where 3: "watchable_Close w2 = Ret w3" "w_closed w3" using Close_ok [OF watch_reach_inv [OF r2]] by blast
  have r3: "watch_reach w3" using r2 3(1) watch_step.wclose watch_reach.step by blast
  have "inflight w3 = inflight w2" using 3(1) 2 by (auto simp: watchable_Close_def close_chan_def Watch_begin_def
        Let_def 1(2) NewWatchable_def split: if_splits)
  then have i: "0 < length (inflight w3)" "inflight w3 ! 0 = (0, True)" using 2(2) by simp_all
  with Watch_end_cases [OF watch_reach_inv [OF r3] i] 3(2) r3
  show "\<exists>w. watch_reach (w :: nat watchable) \<and> 0 < length (inflight w) \<and> Watch_end 0 w = Panic SendOnClosed" by auto
qed

text \<open>The race on a watchable that holds a value, and an update of a watchable that is being watched.\<close>

theorem watch_panics_only_in_race_witness:
  "(\<exists>w. watch_reach (w :: nat watchable) \<and> 0 < length (inflight w) \<and> Watch_end 0 w = Panic SendOnClosed) \<and>
   (\<exists>r w'. Update (Some True) NewWatchable = Ret (r, w') \<and> r = Inr () \<and> watchable_Get w' = Some True)"
proof (rule conjI)
  show "\<exists>w. watch_reach (w :: nat watchable) \<and> 0 < length (inflight w) \<and> Watch_end 0 w = Panic SendOnClosed"
    using watch_panics_only_in_race by blast
  have "\<exists>r w'. Update (Some True) NewWatchable = Ret (r, w') \<and>
      (\<not> w_closed (NewWatchable :: bool watchable) \<longrightarrow> r = Inr () \<and> watchable_Get w' = Some True \<and>
        (\<forall>c\<in>set (active (NewWatchable :: bool watchable)). full (chans w' c)))"
    using watch_panics_only_in_race watch_reach.init by blast
  moreover have "\<not> w_closed (NewWatchable :: bool watchable)" by (simp add: NewWatchable_def)
  ultimately show "\<exists>r w'. Update (Some True) NewWatchable = Ret (r, w') \<and> r = Inr () \<and> watchable_Get w' = Some True"
    by blast
qed

end
