(* ===== verification/Sync.thy ===== *)
theory Sync
  imports Prelude Float64
begin

text \<open>
  The package \<^verbatim>\<open>sync\<close>: the worker pool whose tokens bound the running goroutines (\<^verbatim>\<open>worker_pool.go\<close>) and the pooled worker pool
  that reuses goroutines over sharded channels (\<^verbatim>\<open>pooled_worker_pool.go\<close>, \<^verbatim>\<open>options.go\<close>).

  Goroutines interleave freely: each of their atomic actions is a step on the state of the pool.  An operation
  that would block in the given state is \<^const>\<open>None\<close>.
\<close>

section \<open>Worker pool\<close>

text \<open>\<open>tokens\<close> is the number of tokens in the channel, \<open>running\<close> the works that run in goroutines, \<open>finished\<close> those that have returned.\<close>

record 'w workerPool =
  workCh_cap :: nat
  tokens :: nat
  running :: "'w list"
  finished :: "'w list"

datatype sync_panic = MakeChanSize | MakeSliceLen | DivideByZero | IndexOutOfRange

definition NewWorkerPool :: "int \<Rightarrow> (sync_panic, 'w workerPool) outcome" where
  "NewWorkerPool size0 =
     (if size0 < 0 then Panic MakeChanSize
      else Ret \<lparr>workCh_cap = nat size0, tokens = 0, running = [], finished = []\<rparr>)"

definition send_token :: "'w workerPool \<Rightarrow> 'w workerPool option" where
  "send_token p = (if tokens p < workCh_cap p then Some (p\<lparr>tokens := tokens p + 1\<rparr>) else None)"

fun init_tokens :: "nat \<Rightarrow> 'w workerPool \<Rightarrow> 'w workerPool option" where
  "init_tokens 0 p = Some p"
| "init_tokens (Suc n) p = Option.bind (send_token p) (init_tokens n)"

definition workerPool_Init :: "'w workerPool \<Rightarrow> 'w workerPool option" where
  "workerPool_Init p = init_tokens (workCh_cap p) p"

text \<open>Receiving a token and starting the goroutine that runs the work.\<close>

definition start_work :: "'w \<Rightarrow> 'w workerPool \<Rightarrow> 'w workerPool" where
  "start_work work p = p\<lparr>tokens := tokens p - 1, running := running p @ [work]\<rparr>"

definition workerPool_Go :: "'w \<Rightarrow> 'w workerPool \<Rightarrow> 'w workerPool option" where
  "workerPool_Go work p = (if 0 < tokens p then Some (start_work work p) else None)"

definition workerPool_GoIfAvailable :: "'w \<Rightarrow> 'w workerPool \<Rightarrow> bool \<times> 'w workerPool" where
  "workerPool_GoIfAvailable work p = (if 0 < tokens p then (True, start_work work p) else (False, p))"

text \<open>\<open>fired\<close> tells whether the select takes the timer; without it the call waits for a token.\<close>

definition workerPool_GoWithTimeout :: "bool \<Rightarrow> 'w \<Rightarrow> 'w workerPool \<Rightarrow> (bool \<times> 'w workerPool) option" where
  "workerPool_GoWithTimeout fired work p =
     (if fired then Some (False, p) else if 0 < tokens p then Some (True, start_work work p) else None)"

text \<open>The \<open>i\<close>-th running goroutine: its work has returned and it gives the token back.\<close>

definition finish_work :: "nat \<Rightarrow> 'w workerPool \<Rightarrow> 'w workerPool option" where
  "finish_work i p =
     (if i < length (running p)
      then map_option (\<lambda>p'. p'\<lparr>running := remove_nth i (running p), finished := finished p @ [running p ! i]\<rparr>) (send_token p)
      else None)"

inductive wp_reach :: "int \<Rightarrow> 'w workerPool \<Rightarrow> bool" for size0 where
  init: "NewWorkerPool size0 = Ret p \<Longrightarrow> workerPool_Init p = Some p' \<Longrightarrow> wp_reach size0 p'"
| go: "wp_reach size0 p \<Longrightarrow> workerPool_Go w p = Some p' \<Longrightarrow> wp_reach size0 p'"
| available: "wp_reach size0 p \<Longrightarrow> workerPool_GoIfAvailable w p = (b, p') \<Longrightarrow> wp_reach size0 p'"
| timeout: "wp_reach size0 p \<Longrightarrow> workerPool_GoWithTimeout f w p = Some (b, p') \<Longrightarrow> wp_reach size0 p'"
| finish: "wp_reach size0 p \<Longrightarrow> finish_work i p = Some p' \<Longrightarrow> wp_reach size0 p'"

section \<open>Options of the pooled worker pool\<close>

record ('n, 'i) pooledWorkerPoolOptions =
  po_growOnDemand :: bool
  po_numShards :: int
  po_killWorkerProbability :: float64
  po_nowFn :: 'n
  po_iOpts :: 'i

definition defaultKillWorkerProbability :: float64 where "defaultKillWorkerProbability = round64 (1 / 1000)"
definition defaultGrowOnDemand :: bool where "defaultGrowOnDemand = False"

text \<open>The number of processors, \<^verbatim>\<open>time.Now\<close> and the default instrument options are parameters.\<close>

definition NewPooledWorkerPoolOptions :: "int \<Rightarrow> 'n \<Rightarrow> 'i \<Rightarrow> ('n, 'i) pooledWorkerPoolOptions" where
  "NewPooledWorkerPoolOptions numCPU now iopts =
     \<lparr>po_growOnDemand = defaultGrowOnDemand, po_numShards = numCPU, po_killWorkerProbability = defaultKillWorkerProbability,
      po_nowFn = now, po_iOpts = iopts\<rparr>"

definition SetGrowOnDemand :: "('n, 'i) pooledWorkerPoolOptions \<Rightarrow> bool \<Rightarrow> ('n, 'i) pooledWorkerPoolOptions" where
  "SetGrowOnDemand opts v = opts\<lparr>po_growOnDemand := v\<rparr>"
definition GrowOnDemand :: "('n, 'i) pooledWorkerPoolOptions \<Rightarrow> bool" where "GrowOnDemand opts = po_growOnDemand opts"
definition SetNumShards :: "('n, 'i) pooledWorkerPoolOptions \<Rightarrow> int \<Rightarrow> ('n, 'i) pooledWorkerPoolOptions" where
  "SetNumShards opts v = opts\<lparr>po_numShards := v\<rparr>"
definition NumShards :: "('n, 'i) pooledWorkerPoolOptions \<Rightarrow> int" where "NumShards opts = po_numShards opts"
definition SetKillWorkerProbability :: "('n, 'i) pooledWorkerPoolOptions \<Rightarrow> float64 \<Rightarrow> ('n, 'i) pooledWorkerPoolOptions" where
  "SetKillWorkerProbability opts v = opts\<lparr>po_killWorkerProbability := v\<rparr>"
definition KillWorkerProbability :: "('n, 'i) pooledWorkerPoolOptions \<Rightarrow> float64" where
  "KillWorkerProbability opts = po_killWorkerProbability opts"
definition sync_SetNowFn :: "('n, 'i) pooledWorkerPoolOptions \<Rightarrow> 'n \<Rightarrow> ('n, 'i) pooledWorkerPoolOptions" where
  "sync_SetNowFn opts v = opts\<lparr>po_nowFn := v\<rparr>"
definition sync_NowFn :: "('n, 'i) pooledWorkerPoolOptions \<Rightarrow> 'n" where "sync_NowFn opts = po_nowFn opts"
definition sync_SetInstrumentOptions :: "('n, 'i) pooledWorkerPoolOptions \<Rightarrow> 'i \<Rightarrow> ('n, 'i) pooledWorkerPoolOptions" where
  "sync_SetInstrumentOptions opts v = opts\<lparr>po_iOpts := v\<rparr>"
definition sync_InstrumentOptions :: "('n, 'i) pooledWorkerPoolOptions \<Rightarrow> 'i" where "sync_InstrumentOptions opts = po_iOpts opts"

interpretation sf_grow: option_field GrowOnDemand SetGrowOnDemand
  by unfold_locales (simp_all add: GrowOnDemand_def SetGrowOnDemand_def)
interpretation sf_shards: option_field NumShards SetNumShards
  by unfold_locales (simp_all add: NumShards_def SetNumShards_def)
interpretation sf_kill: option_field KillWorkerProbability SetKillWorkerProbability
  by unfold_locales (simp_all add: KillWorkerProbability_def SetKillWorkerProbability_def)
interpretation sf_now: option_field sync_NowFn sync_SetNowFn
  by unfold_locales (simp_all add: sync_NowFn_def sync_SetNowFn_def)
interpretation sf_instrument: option_field sync_InstrumentOptions sync_SetInstrumentOptions
  by unfold_locales (simp_all add: sync_InstrumentOptions_def sync_SetInstrumentOptions_def)

section \<open>Pooled worker pool\<close>

text \<open>
  A goroutine of \<^verbatim>\<open>spawnWorker\<close>: before it has counted itself (with its initial work), in its initial work, waiting
  for its channel, and in a work it took from the channel.
\<close>

datatype 'w worker_status = Starting "'w option" | Initial 'w | Waiting | Working 'w

record 'w worker =
  w_ch :: nat
  spawnReplacement :: bool
  w_status :: "'w worker_status"

text \<open>\<open>workChs\<close> are the contents of the channels, all of capacity \<open>chCap\<close>; \<open>gauge\<close> the values the gauge was updated with.\<close>

record 'w pooledWorkerPool =
  numRoutinesAtomic :: int
  gauge :: "float64 list"
  growOnDemand :: bool
  workChs :: "'w list list"
  chCap :: nat
  numShards :: int
  killWorkerProbability :: float64
  workers :: "'w worker list"
  executed :: "'w list"

datatype pooled_error = SizeTooSmall int

definition NewPooledWorkerPool ::
    "int \<Rightarrow> ('n, 'i) pooledWorkerPoolOptions \<Rightarrow> (sync_panic, (pooled_error, 'w pooledWorkerPool) result) outcome" where
  "NewPooledWorkerPool size0 opts =
     (if size0 \<le> 0 then Ret (Inl (SizeTooSmall size0))
      else
        (let shards = (if size0 < NumShards opts then size0 else NumShards opts) in
         if shards < 0 then Panic MakeSliceLen
         else Ret (Inr \<lparr>numRoutinesAtomic = 0, gauge = [], growOnDemand = GrowOnDemand opts,
           workChs = replicate (nat shards) [], chCap = nat (size0 sdiv shards), numShards = shards,
           killWorkerProbability = KillWorkerProbability opts, workers = [], executed = []\<rparr>)))"

definition incNumRoutines :: "'w pooledWorkerPool \<Rightarrow> 'w pooledWorkerPool" where
  "incNumRoutines p = p\<lparr>numRoutinesAtomic := wrap64 (numRoutinesAtomic p + 1)\<rparr>"

definition decNumRoutines :: "'w pooledWorkerPool \<Rightarrow> 'w pooledWorkerPool" where
  "decNumRoutines p = p\<lparr>numRoutinesAtomic := wrap64 (numRoutinesAtomic p + - 1)\<rparr>"

definition getNumRoutines :: "'w pooledWorkerPool \<Rightarrow> int" where "getNumRoutines p = numRoutinesAtomic p"

definition emitNumRoutines :: "'w pooledWorkerPool \<Rightarrow> 'w pooledWorkerPool" where
  "emitNumRoutines p = p\<lparr>gauge := gauge p @ [float_of_int (getNumRoutines p)]\<rparr>"

definition spawnWorker :: "'w option \<Rightarrow> nat \<Rightarrow> bool \<Rightarrow> 'w pooledWorkerPool \<Rightarrow> 'w pooledWorkerPool" where
  "spawnWorker initialWork ch repl p =
     p\<lparr>workers := workers p @ [\<lparr>w_ch = ch, spawnReplacement = repl, w_status = Starting initialWork\<rparr>]\<rparr>"

fun spawn_shard :: "nat \<Rightarrow> nat \<Rightarrow> 'w pooledWorkerPool \<Rightarrow> 'w pooledWorkerPool" where
  "spawn_shard 0 ch p = p"
| "spawn_shard (Suc n) ch p = spawn_shard n ch (spawnWorker None ch True p)"

fun spawn_shards :: "nat list \<Rightarrow> 'w pooledWorkerPool \<Rightarrow> 'w pooledWorkerPool" where
  "spawn_shards [] p = p"
| "spawn_shards (ch # chs) p = spawn_shards chs (spawn_shard (chCap p) ch p)"

definition pooled_Init :: "'w pooledWorkerPool \<Rightarrow> 'w pooledWorkerPool" where
  "pooled_Init p = spawn_shards [0..<length (workChs p)] p"

text \<open>\<^verbatim>\<open>numGoroutinesGaugeSampleRate\<close>.\<close>

definition numGoroutinesGaugeSampleRate :: int where "numGoroutinesGaugeSampleRate = 1000"

text \<open>\<open>currTime\<close> is what the clock of the pool returns; the work is not nil.\<close>

definition pooled_Go :: "int \<Rightarrow> 'w \<Rightarrow> 'w pooledWorkerPool \<Rightarrow> (sync_panic, 'w pooledWorkerPool option) outcome" where
  "pooled_Go currTime work p =
     (if numShards p = 0 then Panic DivideByZero
      else
        (let workChIdx = currTime smod numShards p in
         if workChIdx < 0 \<or> int (length (workChs p)) \<le> workChIdx then Panic IndexOutOfRange
         else
           (let ch = nat workChIdx;
                p = (if currTime smod numGoroutinesGaugeSampleRate = 0 then emitNumRoutines p else p)
            in if length (workChs p ! ch) < chCap p
               then Ret (Some (p\<lparr>workChs := (workChs p)[ch := workChs p ! ch @ [work]]\<rparr>))
               else if \<not> growOnDemand p then Ret None
               else Ret (Some (spawnWorker (Some work) ch False p)))))"

text \<open>The threshold for a random number: \<^verbatim>\<open>uint64(p.killWorkerProbability * float64(math.MaxUint64))\<close>, where the constant
  becomes \<open>2 ^ 64\<close> when it is converted to \<^verbatim>\<open>float64\<close>.\<close>

definition killThreshold :: "nat \<Rightarrow> float64 \<Rightarrow> nat" where
  "killThreshold indef prob = float_to_unsigned 64 indef (float_mul prob (Fin (2 ^ 64)))"

text \<open>
  The next action of the \<open>i\<close>-th goroutine; \<open>rnd\<close> is the number the generator of the worker returns, \<open>indef\<close> the result of
  converting a threshold that is out of range.
\<close>

definition worker_step :: "nat \<Rightarrow> nat \<Rightarrow> nat \<Rightarrow> 'w pooledWorkerPool \<Rightarrow> 'w pooledWorkerPool option" where
  "worker_step indef rnd i p =
     (if length (workers p) \<le> i then None
      else
        (let w = workers p ! i;
             become = (\<lambda>st p. p\<lparr>workers := (workers p)[i := w\<lparr>w_status := st\<rparr>]\<rparr>)
         in case w_status w of
              Starting None \<Rightarrow> Some (become Waiting (incNumRoutines p))
            | Starting (Some f) \<Rightarrow> Some (become (Initial f) (incNumRoutines p))
            | Initial f \<Rightarrow> Some (become Waiting (p\<lparr>executed := executed p @ [f]\<rparr>))
            | Waiting \<Rightarrow>
                (case workChs p ! w_ch w of
                   [] \<Rightarrow> None
                 | f # fs \<Rightarrow> Some (become (Working f) (p\<lparr>workChs := (workChs p)[w_ch w := fs]\<rparr>)))
            | Working f \<Rightarrow>
                (let p = p\<lparr>executed := executed p @ [f]\<rparr> in
                 if rnd < killThreshold indef (killWorkerProbability p)
                 then
                   (let p = p\<lparr>workers := remove_nth i (workers p)\<rparr>;
                        p = (if spawnReplacement w then spawnWorker None (w_ch w) True p else p)
                    in Some (decNumRoutines p))
                 else Some (become Waiting p))))"

inductive pooled_reach :: "int \<Rightarrow> ('n, 'i) pooledWorkerPoolOptions \<Rightarrow> 'w list \<Rightarrow> 'w pooledWorkerPool \<Rightarrow> bool"
  for size0 opts where
  init: "NewPooledWorkerPool size0 opts = Ret (Inr p) \<Longrightarrow> pooled_reach size0 opts [] (pooled_Init p)"
| go: "pooled_reach size0 opts sub p \<Longrightarrow> pooled_Go t w p = Ret (Some p') \<Longrightarrow> pooled_reach size0 opts (sub @ [w]) p'"
| work: "pooled_reach size0 opts sub p \<Longrightarrow> worker_step indef rnd i p = Some p' \<Longrightarrow> pooled_reach size0 opts sub p'"

section \<open>Token invariant\<close>

lemma init_tokens_fill:
  "tokens p + n \<le> workCh_cap p \<Longrightarrow> init_tokens n p = Some (p\<lparr>tokens := tokens p + n\<rparr>)"
  by (induction n arbitrary: p) (auto simp: send_token_def)

lemma wp_created:
  "0 \<le> size0 \<Longrightarrow> NewWorkerPool size0 = Ret p \<Longrightarrow> workerPool_Init p = Some (p\<lparr>tokens := nat size0\<rparr>)"
  by (auto simp: NewWorkerPool_def workerPool_Init_def init_tokens_fill)

lemma length_remove_nth: "i < length xs \<Longrightarrow> Suc (length (remove_nth i xs)) = length xs"
  by (simp add: remove_nth_def)

lemma wp_tokens: "wp_reach size0 p \<Longrightarrow> 0 \<le> size0 \<and> workCh_cap p = nat size0 \<and> tokens p + length (running p) = nat size0"
proof (induction rule: wp_reach.induct)
  case (init p p')
  then have "0 \<le> size0" by (auto simp: NewWorkerPool_def split: if_splits)
  with init wp_created [OF this init(1)] show ?case by (auto simp: NewWorkerPool_def)
next
  case (finish p i p')
  then show ?case
    using length_remove_nth [of i "running p"] by (auto simp: finish_work_def send_token_def split: if_splits)
qed (auto simp: workerPool_Go_def workerPool_GoIfAvailable_def workerPool_GoWithTimeout_def start_work_def split: if_splits)

lemma finish_work_ok:
  "wp_reach size0 p \<Longrightarrow> i < length (running p) \<Longrightarrow> \<exists>p'. finish_work i p = Some p'"
  using wp_tokens [of size0 p] by (auto simp: finish_work_def send_token_def)

section \<open>Invariant of the pooled worker pool\<close>

fun held :: "'w worker_status \<Rightarrow> 'w multiset" where
  "held (Starting None) = {#}"
| "held (Starting (Some f)) = {#f#}"
| "held (Initial f) = {#f#}"
| "held Waiting = {#}"
| "held (Working f) = {#f#}"

fun started :: "'w worker_status \<Rightarrow> bool" where
  "started (Starting f) = False"
| "started st = True"

text \<open>The works that were submitted and have not run to their end: in a channel or held by a goroutine.\<close>

definition queued :: "'w pooledWorkerPool \<Rightarrow> 'w multiset" where
  "queued p = (\<Sum>q\<in>#mset (workChs p). mset q)"

definition in_hand :: "'w pooledWorkerPool \<Rightarrow> 'w multiset" where
  "in_hand p = (\<Sum>w\<in>#mset (workers p). held (w_status w))"

definition permanent :: "nat \<Rightarrow> 'w pooledWorkerPool \<Rightarrow> nat" where
  "permanent ch p = size {#w \<in># mset (workers p). w_ch w = ch \<and> spawnReplacement w#}"

definition routines :: "'w pooledWorkerPool \<Rightarrow> nat" where
  "routines p = size {#w \<in># mset (workers p). started (w_status w)#}"

definition pooled_inv :: "'w list \<Rightarrow> 'w pooledWorkerPool \<Rightarrow> bool" where
  "pooled_inv sub p \<longleftrightarrow>
     mset sub = mset (executed p) + queued p + in_hand p \<and>
     numRoutinesAtomic p = wrap64 (int (routines p)) \<and>
     (\<forall>ch<length (workChs p). permanent ch p = chCap p) \<and>
     (\<forall>w\<in>#mset (workers p). w_ch w < length (workChs p)) \<and>
     (\<forall>q\<in>#mset (workChs p). length q \<le> chCap p)"

lemmas pooled_measures = queued_def in_hand_def permanent_def routines_def

lemma emit_inv [simp]:
  "pooled_inv sub (emitNumRoutines p) = pooled_inv sub p" "workChs (emitNumRoutines p) = workChs p"
  "chCap (emitNumRoutines p) = chCap p" "growOnDemand (emitNumRoutines p) = growOnDemand p"
  "numShards (emitNumRoutines p) = numShards p"
  by (simp_all add: emitNumRoutines_def pooled_inv_def pooled_measures)

lemma enqueue_inv:
  assumes "pooled_inv sub p" and "ch < length (workChs p)" and "length (workChs p ! ch) < chCap p"
  shows "pooled_inv (sub @ [w]) (p\<lparr>workChs := (workChs p)[ch := workChs p ! ch @ [w]]\<rparr>)"
proof -
  obtain C where "mset (workChs p) = add_mset (workChs p ! ch) C" "\<And>q. mset ((workChs p)[ch := q]) = add_mset q C"
    using mset_nth_split [OF assms(2)] by blast
  with assms show ?thesis by (auto simp: pooled_inv_def pooled_measures)
qed

lemma spawn_temporary_inv:
  "pooled_inv sub p \<Longrightarrow> ch < length (workChs p) \<Longrightarrow> pooled_inv (sub @ [w]) (spawnWorker (Some w) ch False p)"
  by (auto simp: pooled_inv_def pooled_measures spawnWorker_def)

lemma pooled_Go_cases:
  assumes "pooled_Go t w p = Ret (Some p')"
  obtains ch p0 where "ch < length (workChs p)" "p0 = p \<or> p0 = emitNumRoutines p"
    "length (workChs p ! ch) < chCap p \<and> p' = p0\<lparr>workChs := (workChs p0)[ch := workChs p0 ! ch @ [w]]\<rparr> \<or>
     \<not> length (workChs p ! ch) < chCap p \<and> growOnDemand p \<and> p' = spawnWorker (Some w) ch False p0"
proof
  let ?ch = "nat (t smod numShards p)"
  let ?p = "if t smod numGoroutinesGaugeSampleRate = 0 then emitNumRoutines p else p"
  show "?ch < length (workChs p)" "?p = p \<or> ?p = emitNumRoutines p"
    "length (workChs p ! ?ch) < chCap p \<and> p' = ?p\<lparr>workChs := (workChs ?p)[?ch := workChs ?p ! ?ch @ [w]]\<rparr> \<or>
     \<not> length (workChs p ! ?ch) < chCap p \<and> growOnDemand p \<and> p' = spawnWorker (Some w) ?ch False ?p"
    using assms by (auto simp: pooled_Go_def Let_def split: if_splits)
qed

lemma pooled_Go_inv: "pooled_inv sub p \<Longrightarrow> pooled_Go t w p = Ret (Some p') \<Longrightarrow> pooled_inv (sub @ [w]) p'"
  by (erule pooled_Go_cases) (auto intro!: enqueue_inv spawn_temporary_inv)

text \<open>A measure that every action of a goroutine decreases.\<close>

fun weight :: "'w worker_status \<Rightarrow> nat" where
  "weight (Starting None) = 1"
| "weight (Starting (Some f)) = 3"
| "weight (Initial f) = 2"
| "weight Waiting = 0"
| "weight (Working f) = 2"

definition work_left :: "'w pooledWorkerPool \<Rightarrow> nat" where
  "work_left p = (\<Sum>q\<in>#mset (workChs p). 3 * length q) + (\<Sum>w\<in>#mset (workers p). weight (w_status w))"

lemmas step_defs = pooled_inv_def pooled_measures work_left_def incNumRoutines_def decNumRoutines_def spawnWorker_def

lemma worker_step_ok:
  assumes inv: "pooled_inv sub p" and step: "worker_step indef rnd i p = Some p'"
  shows "pooled_inv sub p' \<and> work_left p' < work_left p \<and> length (workChs p') = length (workChs p) \<and>
    chCap p' = chCap p \<and> numShards p' = numShards p \<and> growOnDemand p' = growOnDemand p"
proof -
  have i: "i < length (workers p)" using step by (auto simp: worker_step_def split: if_splits)
  define w where "w = workers p ! i"
  obtain M where M: "mset (workers p) = add_mset w M" "\<And>y. mset ((workers p)[i := y]) = add_mset y M"
    "mset (remove_nth i (workers p)) = M"
    using mset_nth_split [OF i] unfolding w_def by blast
  have ni: "\<not> length (workers p) \<le> i" using i by simp
  note st = step [unfolded worker_step_def if_not_P [OF ni], folded w_def] and M [simp]
  show ?thesis
  proof (cases "w_status w")
    case (Starting f)
    show ?thesis
    proof (cases f)
      case None
      with st Starting have "p' = (incNumRoutines p)\<lparr>workers := (workers p)[i := w\<lparr>w_status := Waiting\<rparr>]\<rparr>"
        by (simp add: incNumRoutines_def)
      with Starting None inv show ?thesis by (auto simp: step_defs add.commute split: if_splits)
    next
      case (Some g)
      with st Starting have "p' = (incNumRoutines p)\<lparr>workers := (workers p)[i := w\<lparr>w_status := Initial g\<rparr>]\<rparr>"
        by (simp add: incNumRoutines_def)
      with Starting Some inv show ?thesis by (auto simp: step_defs add.commute split: if_splits)
    qed
  next
    case (Initial f)
    with st have "p' = p\<lparr>executed := executed p @ [f], workers := (workers p)[i := w\<lparr>w_status := Waiting\<rparr>]\<rparr>" by simp
    with Initial inv show ?thesis by (auto simp: step_defs add.commute split: if_splits)
  next
    case Waiting
    have ch: "w_ch w < length (workChs p)" using inv by (simp add: pooled_inv_def)
    from Waiting st obtain f fs where q: "workChs p ! w_ch w = f # fs"
      and p': "p' = p\<lparr>workChs := (workChs p)[w_ch w := fs], workers := (workers p)[i := w\<lparr>w_status := Working f\<rparr>]\<rparr>"
      by (auto split: list.splits)
    obtain C where "mset (workChs p) = add_mset (f # fs) C" "\<And>q. mset ((workChs p)[w_ch w := q]) = add_mset q C"
      using mset_nth_split [OF ch] q by metis
    with p' inv Waiting show ?thesis by (auto simp: step_defs add.commute split: if_splits)
  next
    case (Working f)
    consider (killed) "rnd < killThreshold indef (killWorkerProbability p)" "\<not> spawnReplacement w"
      | (replaced) "rnd < killThreshold indef (killWorkerProbability p)" "spawnReplacement w"
      | (kept) "\<not> rnd < killThreshold indef (killWorkerProbability p)" by blast
    then show ?thesis
    proof cases
      case killed
      with st Working have "p' = decNumRoutines (p\<lparr>executed := executed p @ [f], workers := remove_nth i (workers p)\<rparr>)"
        by simp
      with Working killed inv show ?thesis by (auto simp: step_defs add.commute split: if_splits)
    next
      case replaced
      with st Working have "p' = decNumRoutines (spawnWorker None (w_ch w) True
          (p\<lparr>executed := executed p @ [f], workers := remove_nth i (workers p)\<rparr>))" by simp
      with Working replaced inv show ?thesis by (auto simp: step_defs add.commute split: if_splits)
    next
      case kept
      with st Working have "p' = p\<lparr>executed := executed p @ [f], workers := (workers p)[i := w\<lparr>w_status := Waiting\<rparr>]\<rparr>"
        by simp
      with Working inv show ?thesis by (auto simp: step_defs add.commute split: if_splits)
    qed
  qed
qed

text \<open>Creation: every shard gets as many permanent workers as its channel has room for.\<close>

lemma mset_spawn_shard:
  "mset (workers (spawn_shard n ch p)) =
     replicate_mset n \<lparr>w_ch = ch, spawnReplacement = True, w_status = Starting None\<rparr> + mset (workers p)"
  by (induction n arbitrary: p) (simp_all add: spawnWorker_def)

lemma spawn_shard_rest: "\<exists>ws. spawn_shard n ch p = p\<lparr>workers := ws\<rparr>"
proof (induction n arbitrary: p)
  case 0
  have "p = p\<lparr>workers := workers p\<rparr>" by simp
  then show ?case by (metis spawn_shard.simps(1))
next
  case (Suc n)
  from Suc [of "spawnWorker None ch True p"] show ?case by (auto simp: spawnWorker_def)
qed

lemma spawn_shards_inv:
  assumes "distinct chs" and "\<And>ch. ch \<in> set chs \<Longrightarrow> ch < length (workChs p) \<and> permanent ch p = 0"
    and "\<And>ch. ch < length (workChs p) \<Longrightarrow> ch \<notin> set chs \<Longrightarrow> permanent ch p = chCap p"
    and "mset sub = mset (executed p) + queued p + in_hand p" "numRoutinesAtomic p = wrap64 (int (routines p))"
    and "\<forall>w\<in>#mset (workers p). w_ch w < length (workChs p)" "\<forall>q\<in>#mset (workChs p). length q \<le> chCap p"
  shows "pooled_inv sub (spawn_shards chs p)"
  using assms
proof (induction chs arbitrary: p)
  case Nil
  then show ?case by (simp add: pooled_inv_def)
next
  case (Cons ch chs)
  define p1 where "p1 = spawn_shard (chCap p) ch p"
  obtain ws where p1: "p1 = p\<lparr>workers := ws\<rparr>" using spawn_shard_rest p1_def by metis
  then have ws: "mset ws = replicate_mset (chCap p) \<lparr>w_ch = ch, spawnReplacement = True, w_status = Starting None\<rparr> +
      mset (workers p)"
    using mset_spawn_shard [of "chCap p" ch p] p1_def by simp
  have f: "{#w \<in># replicate_mset n x. P w#} = (if P x then replicate_mset n x else {#})" for n P and x :: "'b worker"
    by (induction n) auto
  have perm: "permanent c p1 = (if c = ch then chCap p else 0) + permanent c p" for c
    by (simp add: permanent_def p1 ws f)
  have "pooled_inv sub (spawn_shards chs p1)"
  proof (rule Cons.IH)
    show "c < length (workChs p1) \<and> permanent c p1 = 0" if "c \<in> set chs" for c
      using that Cons.prems(1,2) perm by (auto simp: p1)
    show "permanent c p1 = chCap p1" if "c < length (workChs p1)" "c \<notin> set chs" for c
      using that Cons.prems(2,3) perm [of c] by (cases "c = ch") (auto simp: p1)
    show "mset sub = mset (executed p1) + queued p1 + in_hand p1" "numRoutinesAtomic p1 = wrap64 (int (routines p1))"
      "\<forall>w\<in>#mset (workers p1). w_ch w < length (workChs p1)" "\<forall>q\<in>#mset (workChs p1). length q \<le> chCap p1"
      using Cons.prems by (auto simp: p1 ws queued_def in_hand_def routines_def f)
  qed (use Cons.prems in simp)
  then show ?case by (simp add: p1_def)
qed

lemma spawn_shards_rest: "\<exists>ws. spawn_shards chs p = p\<lparr>workers := ws\<rparr>"
proof (induction chs arbitrary: p)
  case Nil
  have "p = p\<lparr>workers := workers p\<rparr>" by simp
  then show ?case by (metis spawn_shards.simps(1))
next
  case (Cons ch chs)
  obtain ws where "spawn_shard (chCap p) ch p = p\<lparr>workers := ws\<rparr>" using spawn_shard_rest by metis
  with Cons [of "p\<lparr>workers := ws\<rparr>"] show ?case by auto
qed

lemma pooled_created:
  assumes "NewPooledWorkerPool size0 opts = Ret (Inr p)"
  shows "pooled_inv [] (pooled_Init p)"
proof -
  have "workers p = []" "set (workChs p) \<subseteq> {[]}" "executed p = []" "numRoutinesAtomic p = 0"
    using assms by (auto simp: NewPooledWorkerPool_def Let_def split: if_splits)
  moreover from this(2) have "(\<Sum>q\<in>#mset (workChs p). mset q) = {#}" by auto
  ultimately show ?thesis unfolding pooled_Init_def
    by (intro spawn_shards_inv) (auto simp: pooled_measures wrap_s_id fits_s_def)
qed

lemma pooled_reach_inv: "pooled_reach size0 opts sub p \<Longrightarrow> pooled_inv sub p"
  by (induction rule: pooled_reach.induct) (auto intro: pooled_created pooled_Go_inv dest: worker_step_ok)

text \<open>The shape of a pool that was created with a positive number of shards.\<close>

definition pooled_shape :: "int \<Rightarrow> ('n, 'i) pooledWorkerPoolOptions \<Rightarrow> 'w pooledWorkerPool \<Rightarrow> bool" where
  "pooled_shape size0 opts p \<longleftrightarrow> 0 < size0 \<and> numShards p = min size0 (NumShards opts) \<and>
     int (length (workChs p)) = numShards p \<and> int (chCap p) = size0 div numShards p \<and> growOnDemand p = GrowOnDemand opts"

lemma pooled_Go_rest:
  "pooled_Go t w p = Ret (Some p') \<Longrightarrow>
   numShards p' = numShards p \<and> length (workChs p') = length (workChs p) \<and> chCap p' = chCap p \<and> growOnDemand p' = growOnDemand p"
  by (erule pooled_Go_cases) (auto simp: spawnWorker_def)

lemma pooled_reach_shape:
  assumes "0 < NumShards opts"
  shows "pooled_reach size0 opts sub p \<Longrightarrow> pooled_shape size0 opts p"
proof (induction rule: pooled_reach.induct)
  case (init p)
  obtain ws where "pooled_Init p = p\<lparr>workers := ws\<rparr>" unfolding pooled_Init_def using spawn_shards_rest by metis
  with init assms show ?case
    by (auto simp: pooled_shape_def NewPooledWorkerPool_def Let_def sdiv_nonneg pos_imp_zdiv_nonneg_iff split: if_splits)
next
  case (go sub p t w p')
  then show ?case using pooled_Go_rest [OF go(2)] by (simp add: pooled_shape_def)
next
  case (work sub p indef rnd i p')
  then show ?case using worker_step_ok [OF pooled_reach_inv [OF work(1)] work(2)] by (simp add: pooled_shape_def)
qed

section \<open>Progress\<close>

lemma worker_enabled:
  assumes "i < length (workers p)" and "w_status (workers p ! i) \<noteq> Waiting \<or> workChs p ! w_ch (workers p ! i) \<noteq> []"
  shows "worker_step indef rnd i p \<noteq> None"
  using assms by (auto simp: worker_step_def Let_def split: worker_status.splits option.splits list.splits)

lemma pooled_progress:
  assumes inv: "pooled_inv sub p" and cap: "0 < chCap p" and left: "mset (executed p) \<noteq> mset sub"
  shows "\<exists>i. worker_step indef rnd i p \<noteq> None"
proof (cases "in_hand p = {#}")
  case False
  then obtain w where "w \<in># mset (workers p)" "held (w_status w) \<noteq> {#}" unfolding in_hand_def by auto
  then obtain i where "i < length (workers p)" "workers p ! i = w" by (auto simp: in_set_conv_nth)
  moreover from \<open>held (w_status w) \<noteq> {#}\<close> have "w_status w \<noteq> Waiting" by auto
  ultimately show ?thesis using worker_enabled by blast
next
  case True
  with inv left have "queued p \<noteq> {#}" by (auto simp: pooled_inv_def)
  then obtain q where "q \<in> set (workChs p)" "q \<noteq> []" unfolding queued_def by auto
  then obtain ch where ch: "ch < length (workChs p)" "workChs p ! ch \<noteq> []" by (auto simp: in_set_conv_nth)
  with inv cap have "permanent ch p \<noteq> 0" by (auto simp: pooled_inv_def)
  then obtain w where "w \<in> set (workers p)" "w_ch w = ch" unfolding permanent_def by (auto simp: filter_mset_eq_conv)
  then obtain i where "i < length (workers p)" "w_ch (workers p ! i) = ch" by (auto simp: in_set_conv_nth)
  with ch(2) worker_enabled show ?thesis by blast
qed

lemma pooled_Go_total:
  assumes "pooled_shape size0 opts p" and "0 < NumShards opts" and "0 \<le> t"
  shows "\<exists>r. pooled_Go t w p = Ret r \<and> (GrowOnDemand opts \<longrightarrow> r \<noteq> None)"
proof -
  have "0 < numShards p" using assms by (auto simp: pooled_shape_def)
  then have "0 \<le> t smod numShards p" "t smod numShards p < numShards p" using assms(3) by (simp_all add: smod_nonneg)
  with \<open>0 < numShards p\<close> assms(1) show ?thesis by (auto simp: pooled_shape_def pooled_Go_def Let_def)
qed

text \<open>
  A kill probability of one makes the product with the largest 64-bit number \<open>2 ^ 64\<close>, which does not
  fit: the threshold is whatever the implementation of the conversion returns.
\<close>

lemma killThreshold_one: "killThreshold indef (Fin 1) = indef"
proof -
  have "round64 (2 ^ 64) = Fin (2 ^ 64)" using round_pos_exact [of "2 ^ 64" 1 64] by (simp add: round64_def)
  then show ?thesis by (simp add: killThreshold_def float_to_unsigned_def trunc_rat_def)
qed

lemma killThreshold_zero: "killThreshold indef (Fin 0) = 0"
  by (simp add: killThreshold_def float_to_unsigned_def trunc_rat_def round64_def)

section \<open>Properties\<close>

text \<open>
  C32: a pooled worker pool never loses or repeats a work: in every interleaving of its clients and goroutines the
  submitted works are those that were executed, those in the channels and those a goroutine holds.
  Every action of a goroutine decreases the work that is left, and when no goroutine can act every
  submitted work has been executed.  Each shard keeps its permanent workers, whichever are killed,
  the counter is the number of started goroutines, and \<^verbatim>\<open>Go\<close> does not panic and, when the pool may
  grow, does not block.
\<close>

theorem pooled_drains:
  assumes "pooled_reach size0 opts sub p" and "0 < NumShards opts"
  shows "mset sub = mset (executed p) + (queued p + in_hand p) \<and>
    (\<forall>indef rnd i p'. worker_step indef rnd i p = Some p' \<longrightarrow> work_left p' < work_left p) \<and>
    ((\<forall>i. worker_step indef rnd i p = None) \<longrightarrow> mset (executed p) = mset sub) \<and>
    (\<forall>ch<length (workChs p). int (permanent ch p) = size0 div min size0 (NumShards opts)) \<and>
    getNumRoutines p = wrap64 (int (routines p)) \<and>
    (\<forall>t w. 0 \<le> t \<longrightarrow> (\<exists>r. pooled_Go t w p = Ret r \<and> (GrowOnDemand opts \<longrightarrow> r \<noteq> None)))"
proof -
  have inv: "pooled_inv sub p" and shape: "pooled_shape size0 opts p"
    using assms pooled_reach_inv pooled_reach_shape by blast+
  have "0 < size0 div min size0 (NumShards opts)"
    using shape assms(2) by (simp add: pooled_shape_def pos_imp_zdiv_pos_iff)
  then have cap: "0 < chCap p" using shape by (metis pooled_shape_def of_nat_0_less_iff)
  show ?thesis
  proof (intro conjI)
    show "(\<forall>i. worker_step indef rnd i p = None) \<longrightarrow> mset (executed p) = mset sub"
      using pooled_progress [OF inv cap, of indef rnd] by metis
    show "\<forall>indef rnd i p'. worker_step indef rnd i p = Some p' \<longrightarrow> work_left p' < work_left p"
      using worker_step_ok [OF inv] by blast
    show "\<forall>ch<length (workChs p). int (permanent ch p) = size0 div min size0 (NumShards opts)"
      using inv shape by (simp add: pooled_inv_def pooled_shape_def)
    show "\<forall>t w. 0 \<le> t \<longrightarrow> (\<exists>r. pooled_Go t w p = Ret r \<and> (GrowOnDemand opts \<longrightarrow> r \<noteq> None))"
      using pooled_Go_total [OF shape assms(2)] by blast
  qed (use inv in \<open>simp_all add: pooled_inv_def getNumRoutines_def ac_simps\<close>)
qed

definition ex_opts :: "(unit, unit) pooledWorkerPoolOptions" where
  "ex_opts = SetGrowOnDemand (NewPooledWorkerPoolOptions 2 () ()) True"

theorem pooled_drains_witness:
  "\<exists>p. pooled_reach 5 ex_opts [7 :: nat] p \<and> int (permanent 1 p) = 2 \<and> {#7#} = mset (executed p) + (queued p + in_hand p)"
proof -
  obtain p0 :: "nat pooledWorkerPool" where 0: "NewPooledWorkerPool 5 ex_opts = Ret (Inr p0)" "length (workChs p0) = 2"
    "numShards p0 = 2" "chCap p0 = 2" "workChs p0 = [[], []]"
    by (simp add: NewPooledWorkerPool_def ex_opts_def SetGrowOnDemand_def NewPooledWorkerPoolOptions_def NumShards_def
        sdiv_nonneg numeral_2_eq_2)
  let ?p = "pooled_Init p0"
  obtain ws where ws: "?p = p0\<lparr>workers := ws\<rparr>" unfolding pooled_Init_def using spawn_shards_rest by metis
  have "\<exists>p. pooled_Go 3 7 ?p = Ret (Some p) \<and> length (workChs p) = 2"
    using 0 ws by (simp add: pooled_Go_def smod_nonneg numGoroutinesGaugeSampleRate_def)
  then obtain p where p: "pooled_Go 3 7 ?p = Ret (Some p)" "length (workChs p) = 2" by blast
  have r: "pooled_reach 5 ex_opts ([] @ [7]) p" using pooled_reach.go [OF pooled_reach.init [OF 0(1)] p(1)] .
  have n: "NumShards ex_opts = 2" by (simp add: ex_opts_def NumShards_def SetGrowOnDemand_def NewPooledWorkerPoolOptions_def)
  from pooled_drains [OF r] n p(2) have "int (permanent 1 p) = 2" "{#7#} = mset (executed p) + (queued p + in_hand p)" by simp_all
  with r show ?thesis by auto
qed

text \<open>
  C33: a worker pool of \<open>size0\<close> runs at most \<open>size0\<close> works at once.  Creation and \<^verbatim>\<open>Init\<close> return for every size that is not
  negative, and afterwards, in every interleaving, the free tokens and the running works add up to the
  size: \<^verbatim>\<open>GoIfAvailable\<close> starts the work exactly when fewer than \<open>size0\<close> works run, \<^verbatim>\<open>Go\<close> waits exactly when \<open>size0\<close> works run, and
  a goroutine whose work has returned never waits to give its token back.
\<close>

theorem workerPool_bounds_running:
  assumes "0 \<le> size0"
  shows "(\<exists>p p'. NewWorkerPool size0 = Ret p \<and> workerPool_Init (p :: 'w workerPool) = Some p') \<and>
    (\<forall>p w i. wp_reach size0 (p :: 'w workerPool) \<longrightarrow>
       int (tokens p) + int (length (running p)) = size0 \<and>
       (fst (workerPool_GoIfAvailable w p) \<longleftrightarrow> int (length (running p)) < size0) \<and>
       (workerPool_Go w p = None \<longleftrightarrow> int (length (running p)) = size0) \<and>
       (i < length (running p) \<longrightarrow> finish_work i p \<noteq> None))"
proof (intro conjI allI impI)
  show "\<exists>p p'. NewWorkerPool size0 = Ret p \<and> workerPool_Init (p :: 'w workerPool) = Some p'"
    using assms wp_created by (auto simp: NewWorkerPool_def)
next
  fix p :: "'w workerPool" and w i
  assume r: "wp_reach size0 p"
  then have t: "tokens p + length (running p) = nat size0" using wp_tokens by blast
  then show t': "int (tokens p) + int (length (running p)) = size0" using assms by linarith
  show "fst (workerPool_GoIfAvailable w p) \<longleftrightarrow> int (length (running p)) < size0"
    using t' by (simp add: workerPool_GoIfAvailable_def)
  show "workerPool_Go w p = None \<longleftrightarrow> int (length (running p)) = size0"
    using t' by (auto simp: workerPool_Go_def)
  show "finish_work i p \<noteq> None" if "i < length (running p)" using finish_work_ok [OF r that] by blast
qed

theorem workerPool_bounds_running_witness:
  "\<exists>p. wp_reach 1 p \<and> running p = [''a''] \<and> \<not> fst (workerPool_GoIfAvailable ''b'' p)"
proof -
  let ?p = "\<lparr>workCh_cap = 1, tokens = 0, running = [], finished = []\<rparr> :: string workerPool"
  have "NewWorkerPool 1 = Ret ?p" "workerPool_Init ?p = Some (?p\<lparr>tokens := 1\<rparr>)"
    by (simp_all add: NewWorkerPool_def workerPool_Init_def send_token_def)
  then have r: "wp_reach 1 (?p\<lparr>tokens := 1\<rparr>)" by (rule wp_reach.init)
  let ?q = "?p\<lparr>running := [''a'']\<rparr>"
  have "workerPool_Go ''a'' (?p\<lparr>tokens := 1\<rparr>) = Some ?q" by (simp add: workerPool_Go_def start_work_def)
  with r have "wp_reach 1 ?q" by (rule wp_reach.go)
  with workerPool_bounds_running [of 1] show ?thesis by (intro exI [of _ ?q]) auto
qed

end
