(* ===== verification/Net.thy ===== *)
theory Net
  imports Retry
begin

text \<open>
  The package \<^verbatim>\<open>net\<close> (\<^verbatim>\<open>server.go\<close>): the accept loop of a listener, built on the retrier.

  The listener is a parameter: \<open>accept\<close> returns a connection, or an error with whether it is a temporary network
  error, and its next state.  The loop runs in the world of the retrier, a triple of the variable
  \<^verbatim>\<open>conn\<close> the closure assigns, the listener and the state of the clock and the random numbers.
\<close>

section \<open>The accept loop\<close>

type_synonym ('c, 'l) accept_fn = "'l \<Rightarrow> (err \<times> bool + 'c) \<times> 'l"

type_synonym ('c, 'l, 'x) world = "'c option \<times> 'l \<times> 'x"

definition lift_rng :: "'x rng_fn \<Rightarrow> ('c, 'l, 'x) world rng_fn" where
  "lift_rng rng n = (\<lambda>(c, l, x). let (v, x) = rng n x in (v, c, l, x))"

definition lift_clock :: "('x \<Rightarrow> int \<times> 'x) \<Rightarrow> ('c, 'l, 'x) world \<Rightarrow> int \<times> ('c, 'l, 'x) world" where
  "lift_clock clock = (\<lambda>(c, l, x). let (v, x) = clock x in (v, c, l, x))"

definition lift_options :: "('m, 'x) retry_options \<Rightarrow> ('m, ('c, 'l, 'x) world) retry_options" where
  "lift_options opts =
     \<lparr>o_scope = o_scope opts, o_initialBackoff = o_initialBackoff opts, o_backoffFactor = o_backoffFactor opts,
      o_maxBackoff = o_maxBackoff opts, o_maxRetries = o_maxRetries opts, o_forever = o_forever opts,
      o_jitter = o_jitter opts, o_rngFn = lift_rng (o_rngFn opts)\<rparr>"

text \<open>The closure passed to the retrier.\<close>

definition try_accept :: "('c, 'l) accept_fn \<Rightarrow> ('c, 'l, 'x) world \<Rightarrow> err option \<times> ('c, 'l, 'x) world" where
  "try_accept accept = (\<lambda>(_, l, x).
     case accept l of
       (Inr c, l) \<Rightarrow> (None, Some c, l, x)
     | (Inl (e, temporary), l) \<Rightarrow>
         (if temporary then Some e else Some (NewNonRetryableError (Some e)), None, l, x))"

text \<open>
  What the loop has sent: the connections, and at its end the error, when both channels and the
  listener are closed.
\<close>

record ('c, 'l, 'x) accept_state =
  sent :: "'c option list"
  failed :: "err option"
  al_run :: "('c, 'l, 'x) world run"

text \<open>
  The loop until it ends or has sent \<open>n\<close> connections; \<^const>\<open>None\<close> when an attempt does not return.
\<close>

fun accept_loop ::
    "(float64 \<Rightarrow> float64 \<Rightarrow> float64) \<Rightarrow> int \<Rightarrow> ('c, 'l, 'x) world retrier \<Rightarrow> ('c, 'l) accept_fn \<Rightarrow> ('x \<Rightarrow> int \<times> 'x) \<Rightarrow> nat \<Rightarrow>
     ('c, 'l, 'x) accept_state \<Rightarrow> ('c, 'l, 'x) accept_state option" where
  "accept_loop pow indef r accept clock 0 s = Some s"
| "accept_loop pow indef r accept clock (Suc n) s =
     (case Attempt pow indef r (try_accept accept) (lift_clock clock) (al_run s) of
        None \<Rightarrow> None
      | Some (Some err, st) \<Rightarrow> Some (s\<lparr>failed := Some err, al_run := st\<rparr>)
      | Some (None, st) \<Rightarrow>
          accept_loop pow indef r accept clock n (s\<lparr>sent := sent s @ [fst (env st)], al_run := st\<rparr>))"

text \<open>The loop from the start, for \<open>n\<close> connections at most, and the variant whose retrier never gives up.\<close>

definition StartAcceptLoop ::
    "(float64 \<Rightarrow> float64 \<Rightarrow> float64) \<Rightarrow> int \<Rightarrow> ('c, 'l) accept_fn \<Rightarrow> ('x \<Rightarrow> int \<times> 'x) \<Rightarrow> nat \<Rightarrow> 'l \<Rightarrow> 'x \<Rightarrow> ('m, 'x) retry_options \<Rightarrow>
     ('c, 'l, 'x) accept_state option" where
  "StartAcceptLoop pow indef accept clock n l x rOpts =
     accept_loop pow indef (NewRetrier (lift_options rOpts)) accept clock n
       \<lparr>sent = [], failed = None, al_run = new_run (None, l, x)\<rparr>"

definition StartForeverAcceptLoop ::
    "(float64 \<Rightarrow> float64 \<Rightarrow> float64) \<Rightarrow> int \<Rightarrow> ('c, 'l) accept_fn \<Rightarrow> ('x \<Rightarrow> int \<times> 'x) \<Rightarrow> nat \<Rightarrow> 'l \<Rightarrow> 'x \<Rightarrow> ('m, 'x) retry_options \<Rightarrow>
     ('c, 'l, 'x) accept_state option" where
  "StartForeverAcceptLoop pow indef accept clock n l x rOpts =
     StartAcceptLoop pow indef accept clock n l x (retry_SetForever rOpts True)"

section \<open>What a listener delivers\<close>

text \<open>
  \<open>next_conn accept l r l'\<close>: from \<open>l\<close> the listener reports finitely many temporary errors and then the connection or the
  error \<open>r\<close>.  \<open>delivers accept l cs e l'\<close>: it delivers the connections \<open>cs\<close> and then fails for good with \<open>e\<close>.
\<close>

inductive next_conn :: "('c, 'l) accept_fn \<Rightarrow> 'l \<Rightarrow> err + 'c \<Rightarrow> 'l \<Rightarrow> bool" for accept where
  conn: "accept l = (Inr c, l') \<Longrightarrow> next_conn accept l (Inr c) l'"
| fatal: "accept l = (Inl (e, False), l') \<Longrightarrow> next_conn accept l (Inl e) l'"
| temporary: "accept l = (Inl (e, True), l') \<Longrightarrow> \<not> IsNonRetryableError (Some e) \<Longrightarrow> next_conn accept l' r l'' \<Longrightarrow>
    next_conn accept l r l''"

inductive delivers :: "('c, 'l) accept_fn \<Rightarrow> 'l \<Rightarrow> 'c list \<Rightarrow> err \<Rightarrow> 'l \<Rightarrow> bool" for accept where
  fail: "next_conn accept l (Inl e) l' \<Longrightarrow> delivers accept l [] e l'"
| conn: "next_conn accept l (Inr c) l' \<Longrightarrow> delivers accept l' cs e l'' \<Longrightarrow> delivers accept l (c # cs) e l''"

section \<open>One attempt\<close>

abbreviation accept_env :: "('c, 'l) accept_fn \<Rightarrow> ('x \<Rightarrow> int \<times> 'x) \<Rightarrow> ('c, 'l, 'x) world retry_env" where
  "accept_env accept clock \<equiv> \<lparr>fn = try_accept accept, continueFn = None, now = lift_clock clock\<rparr>"

text \<open>The listener and the result of a call of the closure; the clock does not touch the listener.\<close>

definition listener_of :: "('c, 'l, 'x) world run \<Rightarrow> 'l" where "listener_of st = fst (snd (env st))"

lemma nonRetryable_wrapped [simp]: "IsNonRetryableError (Some (NewNonRetryableError (Some e)))"
  by (simp add: IsNonRetryableError_def NewNonRetryableError_def GetInnerNonRetryableError.simps)

definition accept_result :: "err \<times> bool + 'c \<Rightarrow> err option + err option" where
  "accept_result r = (case r of Inr c \<Rightarrow> Inl None
     | Inl (e, temporary) \<Rightarrow>
         if temporary then (if IsNonRetryableError (Some e) then Inl (Some e) else Inr (Some e))
         else Inl (Some (NewNonRetryableError (Some e))))"

lemma call_accept:
  assumes "accept (listener_of st) = (r, l')"
  shows "\<exists>st'. call_fn (accept_env accept clock) st = (accept_result r, st') \<and> listener_of st' = l' \<and>
    (\<forall>c. r = Inr c \<longrightarrow> fst (env st') = Some c)"
proof -
  obtain c l x where env: "env st = (c, l, x)" by (cases "env st")
  then have l: "accept l = (r, l')" using assms by (simp add: listener_of_def)
  obtain t1 x1 where 1: "clock x = (t1, x1)" by force
  obtain t2 x2 where 2: "clock x1 = (t2, x2)" by force
  show ?thesis
    using l by (auto simp: call_fn_def env lift_clock_def try_accept_def accept_result_def 1 2 Let_def listener_of_def
        split: sum.split)
qed

lemma BackoffNanos_listener:
  "fst (snd (snd (BackoffNanos pow indef i j f a b (lift_rng rng) s))) = fst (snd s)"
  by (cases s) (auto simp: BackoffNanos_def lift_rng_def Let_def split: prod.split)

lemma body_accept:
  assumes "rngFn r = lift_rng rng" and "accept (listener_of st) = (x, l')"
  shows "\<exists>st'. loop_body pow indef r (accept_env accept clock) a i st = (accept_result x, st') \<and> listener_of st' = l' \<and>
    (\<forall>c. x = Inr c \<longrightarrow> fst (env st') = Some c)"
proof -
  let ?st = "sleep_before pow indef r i st"
  let ?st1 = "?st\<lparr>metrics := (metrics ?st)\<lparr>retries := retries (metrics ?st) + 1\<rparr>\<rparr>"
  obtain d s where bo: "BackoffNanos pow indef i (jitter r) (backoffFactor r) (initialBackoff r) (maxBackoff r)
      (lift_rng rng) (env st) = (d, s)" by (rule prod.exhaust)
  then have "fst (snd s) = fst (snd (env st))" by (metis BackoffNanos_listener snd_conv)
  with bo have "listener_of ?st1 = listener_of st" by (simp add: sleep_before_def listener_of_def assms(1))
  then have "accept (listener_of ?st1) = (x, l')" using assms(2) by simp
  with call_accept [of accept ?st1 x l' clock] show ?thesis by (simp add: loop_body_def may_continue_def Let_def)
qed

text \<open>What an attempt reports for a connection and for an error that is not temporary.\<close>

definition reported :: "err + 'c \<Rightarrow> err option" where
  "reported res = (case res of Inr c \<Rightarrow> None | Inl e \<Rightarrow> Some (NewNonRetryableError (Some e)))"

lemma retry_loop_accept:
  assumes "forever r" and "rngFn r = lift_rng rng"
  shows "next_conn accept l res l' \<Longrightarrow> listener_of st = l \<Longrightarrow>
    \<exists>st'. retry_loop pow indef r (accept_env accept clock) err a i st = Some (reported res, st') \<and>
      listener_of st' = l' \<and> (\<forall>c. res = Inr c \<longrightarrow> fst (env st') = Some c)"
proof (induction arbitrary: st err a i rule: next_conn.induct)
  case (conn l c l')
  then have "accept (listener_of st) = (Inr c, l')" by simp
  from body_accept [where accept = accept, OF assms(2) this, of pow indef clock a i] assms(1) show ?case
    by (subst retry_loop_unfold) (auto simp: accept_result_def reported_def)
next
  case (fatal l e l')
  then have "accept (listener_of st) = (Inl (e, False), l')" by simp
  from body_accept [where accept = accept, OF assms(2) this, of pow indef clock a i] assms(1) show ?case
    by (subst retry_loop_unfold) (auto simp: accept_result_def reported_def)
next
  case (temporary l e l' r' l'')
  then have "accept (listener_of st) = (Inl (e, True), l')" by simp
  from body_accept [where accept = accept, OF assms(2) this, of pow indef clock a i]
  obtain st1 where b: "loop_body pow indef r (accept_env accept clock) a i st = (accept_result (Inl (e, True) :: _ + 'a), st1)"
    "listener_of st1 = l'" by blast
  from temporary.IH [OF b(2), of "Some e" "wrap64 (a + 1)" "wrap64 (i + 1)"] b(1) temporary.hyps(2) assms(1)
  show ?case by (subst retry_loop_unfold) (auto simp: accept_result_def)
qed

lemma Attempt_accept:
  assumes "forever r" and "rngFn r = lift_rng rng" and "next_conn accept (listener_of st) res l'"
  shows "\<exists>st'. Attempt pow indef r (try_accept accept) (lift_clock clock) st = Some (reported res, st') \<and>
    listener_of st' = l' \<and> (\<forall>c. res = Inr c \<longrightarrow> fst (env st') = Some c)"
  using assms(3)
proof (cases rule: next_conn.cases)
  case (conn c)
  with call_accept [of accept st "Inr c" l' clock] show ?thesis
    by (auto simp: Attempt_def attempt_def may_continue_def accept_result_def reported_def)
next
  case (fatal e)
  with call_accept [of accept st "Inl (e, False)" l' clock] show ?thesis
    by (auto simp: Attempt_def attempt_def may_continue_def accept_result_def reported_def)
next
  case (temporary e l1)
  obtain st1 where "call_fn (accept_env accept clock) st = (Inr (Some e), st1)" "listener_of st1 = l1"
    using call_accept [of accept st "Inl (e, True)" l1 clock] temporary(1,2) by (auto simp: accept_result_def)
  with retry_loop_accept [OF assms(1,2) temporary(3), of st1 pow indef clock "Some e" 1 1] show ?thesis
    by (simp add: Attempt_def attempt_def may_continue_def)
qed

lemma accept_loop_delivers:
  assumes "forever r" and "rngFn r = lift_rng rng"
  shows "delivers accept l cs e l' \<Longrightarrow> listener_of (al_run s) = l \<Longrightarrow> length cs < n \<Longrightarrow>
    \<exists>s'. accept_loop pow indef r accept clock n s = Some s' \<and> sent s' = sent s @ map Some cs \<and>
      failed s' = Some (NewNonRetryableError (Some e)) \<and> listener_of (al_run s') = l'"
proof (induction arbitrary: n s rule: delivers.induct)
  case (fail l e l')
  then obtain m where n: "n = Suc m" by (cases n) auto
  have "next_conn accept (listener_of (al_run s)) (Inl e) l'" using fail by simp
  from Attempt_accept [OF assms this, of pow indef clock] show ?case by (auto simp: n reported_def)
next
  case (conn l c l' cs e l'')
  then obtain m where n: "n = Suc m" "length cs < m" by (cases n) auto
  have "next_conn accept (listener_of (al_run s)) (Inr c) l'" using conn by simp
  from Attempt_accept [OF assms this, of pow indef clock] obtain st where
    st: "Attempt pow indef r (try_accept accept) (lift_clock clock) (al_run s) = Some (None, st)"
    "listener_of st = l'" "fst (env st) = Some c" by (auto simp: reported_def)
  let ?s = "s\<lparr>sent := sent s @ [Some c], al_run := st\<rparr>"
  have "listener_of (al_run ?s) = l'" using st(2) by simp
  from conn.IH [OF this n(2)] st show ?case by (auto simp: n(1))
qed

lemma forever_accept_loop:
  assumes "delivers accept l cs e l'" and "length cs < n"
  shows "\<exists>s. StartForeverAcceptLoop pow indef accept clock n l x rOpts = Some s \<and> sent s = map Some cs \<and>
    failed s = Some (NewNonRetryableError (Some e)) \<and> listener_of (al_run s) = l'"
proof -
  let ?r = "NewRetrier (lift_options (retry_SetForever rOpts True))"
  have "forever ?r" "rngFn ?r = lift_rng (o_rngFn rOpts)"
    by (simp_all add: NewRetrier_def lift_options_def opt_field)
  moreover let ?s = "\<lparr>sent = [], failed = None, al_run = new_run (None, l, x)\<rparr>"
  have "listener_of (al_run ?s) = l" by (simp add: listener_of_def new_run_def)
  ultimately show ?thesis
    using accept_loop_delivers [of ?r "o_rngFn rOpts" accept l cs e l' ?s n pow indef clock] assms
    unfolding StartForeverAcceptLoop_def StartAcceptLoop_def by simp
qed

section \<open>Properties\<close>

text \<open>
  C34: the accept loop that retries forever sends the connections a listener delivers, in their order and without
  losing one to temporary errors, and ends with the first error that is not temporary, marked as not
  retryable, for every number of temporary errors in between and every retry option.
\<close>

theorem StartForeverAcceptLoop_delivers:
  assumes "delivers accept l cs e l'" and "length cs < n"
  shows "\<exists>s. StartForeverAcceptLoop pow indef accept clock n l x rOpts = Some s \<and> sent s = map Some cs \<and>
    failed s = Some (NewNonRetryableError (Some e)) \<and> listener_of (al_run s) = l'"
  using assms by (rule forever_accept_loop)

text \<open>A listener that follows a script and fails when the script is used up.\<close>

fun scripted :: "(nat, (err \<times> bool + nat) list) accept_fn" where
  "scripted [] = (Inl (Base ''closed'', False), [])"
| "scripted (r # rs) = (r, rs)"

lemma scripted_delivers: "delivers scripted [Inr 1, Inl (Base ''busy'', True), Inr 2] [1, 2] (Base ''closed'') []"
proof -
  have b: "\<not> IsNonRetryableError (Some (Base ''busy''))"
    using IsNonRetryableError_None unfolding IsNonRetryableError_def by (subst GetInnerNonRetryableError.simps) simp
  have "next_conn scripted [] (Inl (Base ''closed'')) []" by (rule next_conn.fatal) simp
  then have 2: "delivers scripted [] [] (Base ''closed'') []" by (rule delivers.fail)
  have "next_conn scripted [Inr 2] (Inr 2) []" by (rule next_conn.conn) simp
  from next_conn.temporary [OF _ b this] have "next_conn scripted [Inl (Base ''busy'', True), Inr 2] (Inr 2) []" by simp
  with 2 have 1: "delivers scripted [Inl (Base ''busy'', True), Inr 2] [2] (Base ''closed'') []"
    by (rule delivers.conn [rotated])
  have "next_conn scripted [Inr 1, Inl (Base ''busy'', True), Inr 2] (Inr 1) [Inl (Base ''busy'', True), Inr 2]"
    by (rule next_conn.conn) simp
  with 1 show ?thesis
    by (rule delivers.conn [rotated])
qed

theorem StartForeverAcceptLoop_delivers_witness:
  "\<exists>s. StartForeverAcceptLoop (\<lambda>x y. x) 0 scripted (\<lambda>x. (0, x)) 9
     [Inr 1, Inl (Base ''busy'', True), Inr 2] () (retry_NewOptions () (\<lambda>n x. (0, x))) = Some s \<and>
     sent s = [Some 1, Some 2] \<and> failed s = Some (NewNonRetryableError (Some (Base ''closed'')))"
proof -
  obtain s where "StartForeverAcceptLoop (\<lambda>x y. x) 0 scripted (\<lambda>x. (0, x)) 9
     [Inr 1, Inl (Base ''busy'', True), Inr 2] () (retry_NewOptions () (\<lambda>n x. (0, x))) = Some s"
    "sent s = map Some [1, 2]" "failed s = Some (NewNonRetryableError (Some (Base ''closed'')))"
    using StartForeverAcceptLoop_delivers [OF scripted_delivers, of 9 "\<lambda>x y. x" 0 "\<lambda>x. (0, x)" "()" "retry_NewOptions () (\<lambda>n x. (0, x))"]
    by auto
  then show ?thesis by simp
qed

end
