(* ===== verification/Server.thy ===== *)
theory Server
  imports Net
begin

text \<open>
  The package \<^verbatim>\<open>server\<close>: the options (\<^verbatim>\<open>options.go\<close>) and the server that hands accepted connections to a handler (\<^verbatim>\<open>server.go\<close>).

  The goroutines of the server interleave: the one of \<^verbatim>\<open>serve\<close>, one per connection, the one of \<^verbatim>\<open>reportMetrics\<close> and the
  callers of \<^verbatim>\<open>Close\<close>.  Each critical section, and each action outside of one, is a step.
\<close>

section \<open>Options\<close>

record ('i, 'r) server_options =
  so_instrumentOpts :: 'i
  so_retryOpts :: 'r
  so_tcpConnectionKeepAlive :: bool
  so_tcpConnectionKeepAlivePeriod :: int

definition defaultTCPConnectionKeepAlive :: bool where "defaultTCPConnectionKeepAlive = True"
definition defaultTCPConnectionKeepAlivePeriod :: int where "defaultTCPConnectionKeepAlivePeriod = 0"

definition server_NewOptions :: "'i \<Rightarrow> 'r \<Rightarrow> ('i, 'r) server_options" where
  "server_NewOptions iopts ropts =
     \<lparr>so_instrumentOpts = iopts, so_retryOpts = ropts, so_tcpConnectionKeepAlive = defaultTCPConnectionKeepAlive,
      so_tcpConnectionKeepAlivePeriod = defaultTCPConnectionKeepAlivePeriod\<rparr>"

definition server_SetInstrumentOptions :: "('i, 'r) server_options \<Rightarrow> 'i \<Rightarrow> ('i, 'r) server_options" where
  "server_SetInstrumentOptions opts v = opts\<lparr>so_instrumentOpts := v\<rparr>"
definition server_InstrumentOptions :: "('i, 'r) server_options \<Rightarrow> 'i" where
  "server_InstrumentOptions opts = so_instrumentOpts opts"
definition server_SetRetryOptions :: "('i, 'r) server_options \<Rightarrow> 'r \<Rightarrow> ('i, 'r) server_options" where
  "server_SetRetryOptions opts v = opts\<lparr>so_retryOpts := v\<rparr>"
definition server_RetryOptions :: "('i, 'r) server_options \<Rightarrow> 'r" where
  "server_RetryOptions opts = so_retryOpts opts"
definition SetTCPConnectionKeepAlive :: "('i, 'r) server_options \<Rightarrow> bool \<Rightarrow> ('i, 'r) server_options" where
  "SetTCPConnectionKeepAlive opts v = opts\<lparr>so_tcpConnectionKeepAlive := v\<rparr>"
definition TCPConnectionKeepAlive :: "('i, 'r) server_options \<Rightarrow> bool" where
  "TCPConnectionKeepAlive opts = so_tcpConnectionKeepAlive opts"
definition SetTCPConnectionKeepAlivePeriod :: "('i, 'r) server_options \<Rightarrow> int \<Rightarrow> ('i, 'r) server_options" where
  "SetTCPConnectionKeepAlivePeriod opts v = opts\<lparr>so_tcpConnectionKeepAlivePeriod := v\<rparr>"
definition TCPConnectionKeepAlivePeriod :: "('i, 'r) server_options \<Rightarrow> int" where
  "TCPConnectionKeepAlivePeriod opts = so_tcpConnectionKeepAlivePeriod opts"

interpretation svf_instrument: option_field server_InstrumentOptions server_SetInstrumentOptions
  by unfold_locales (simp_all add: server_InstrumentOptions_def server_SetInstrumentOptions_def)
interpretation svf_retry: option_field server_RetryOptions server_SetRetryOptions
  by unfold_locales (simp_all add: server_RetryOptions_def server_SetRetryOptions_def)
interpretation svf_keepalive: option_field TCPConnectionKeepAlive SetTCPConnectionKeepAlive
  by unfold_locales (simp_all add: TCPConnectionKeepAlive_def SetTCPConnectionKeepAlive_def)
interpretation svf_period: option_field TCPConnectionKeepAlivePeriod SetTCPConnectionKeepAlivePeriod
  by unfold_locales (simp_all add: TCPConnectionKeepAlivePeriod_def SetTCPConnectionKeepAlivePeriod_def)

section \<open>The server\<close>

text \<open>
  The goroutine of a connection: in the handler, after it (the connection is closed), and after
  \<^verbatim>\<open>removeConnection\<close>.  \<^verbatim>\<open>Close\<close>: before it, closing the connections of its copy, closing the listener, waiting for the
  goroutines, and after \<^verbatim>\<open>handler.Close\<close>.
\<close>

datatype handler_phase = Handling | Removing | Finishing

datatype 'c close_phase = NotClosing | ClosingConns "'c list" | ClosingListener | WaitingConns | ClosedAll

text \<open>
  Ghost state: \<open>accepted\<close> is the connection of \<^verbatim>\<open>serve\<close> between \<^verbatim>\<open>addConnection\<close> and \<^verbatim>\<open>wgConns.Add\<close>, \<open>handlers\<close> the goroutines of the
  connections, \<open>conn_closed\<close> the closed connections, \<open>keepalives\<close> the calls on TCP connections.
\<close>

record 'c server =
  sv_address :: string
  sv_listener :: bool
  tcpConnectionKeepAlive :: bool
  tcpConnectionKeepAlivePeriod :: int
  sv_closed :: bool
  closedChan :: bool
  numConns :: int
  conns :: "'c list"
  wgConns :: nat
  openConnections :: "float64 list"
  reporting :: bool
  accepted :: "'c option"
  handlers :: "('c \<times> handler_phase) list"
  conn_closed :: "'c set"
  keepalives :: "('c \<times> bool \<times> int option) list"
  listener_closed :: bool
  handler_closed :: bool
  closing :: "'c close_phase"
  sv_log :: "string list"

datatype server_panic = NegativeWaitGroup

definition NewServer :: "string \<Rightarrow> ('i, 'r) server_options \<Rightarrow> 'c server" where
  "NewServer address opts =
     \<lparr>sv_address = address, sv_listener = False, tcpConnectionKeepAlive = TCPConnectionKeepAlive opts,
      tcpConnectionKeepAlivePeriod = TCPConnectionKeepAlivePeriod opts, sv_closed = False, closedChan = False,
      numConns = 0, conns = [], wgConns = 0, openConnections = [], reporting = True, accepted = None, handlers = [],
      conn_closed = {}, keepalives = [], listener_closed = False, handler_closed = False, closing = NotClosing, sv_log = []\<rparr>"

definition Serve :: "string \<Rightarrow> 'c server \<Rightarrow> 'c server" where
  "Serve addr s = s\<lparr>sv_address := addr, sv_listener := True\<rparr>"

text \<open>\<open>listen\<close> is \<^verbatim>\<open>net.Listen\<close>: an error, or the address of the listener.\<close>

definition ListenAndServe :: "(string \<Rightarrow> (err, string) result) \<Rightarrow> 'c server \<Rightarrow> err option \<times> 'c server" where
  "ListenAndServe listen s = (case listen (sv_address s) of Inl e \<Rightarrow> (Some e, s) | Inr addr \<Rightarrow> (None, Serve addr s))"

definition addConnection :: "'c \<Rightarrow> 'c server \<Rightarrow> bool \<times> 'c server" where
  "addConnection conn s =
     (if sv_closed s then (False, s)
      else (True, s\<lparr>conns := conns s @ [conn], numConns := wrap32 (numConns s + 1)\<rparr>))"

text \<open>The loop of \<^verbatim>\<open>removeConnection\<close> from index \<open>i\<close>, with the length \<open>n\<close> of the slice.\<close>

function remove_conn_loop :: "nat \<Rightarrow> nat \<Rightarrow> 'c \<Rightarrow> 'c server \<Rightarrow> 'c server" where
  "remove_conn_loop n i conn s =
     (if i < n then
        (if conns s ! i = conn
         then s\<lparr>conns := take (n - 1) ((conns s)[i := conns s ! (n - 1)]), numConns := wrap32 (numConns s - 1)\<rparr>
         else remove_conn_loop n (i + 1) conn s)
      else s)"
  by auto
termination
  by (relation "measure (\<lambda>(n, i, conn, s). n - i)") auto

declare remove_conn_loop.simps [simp del]

definition removeConnection :: "'c \<Rightarrow> 'c server \<Rightarrow> 'c server" where
  "removeConnection conn s = remove_conn_loop (length (conns s)) 0 conn s"

text \<open>
  One connection from the accept loop, up to the result of \<^verbatim>\<open>addConnectionFn\<close>; \<open>tcp\<close> tells whether it is a TCP
  connection.
\<close>

definition serve_accept :: "bool \<Rightarrow> 'c \<Rightarrow> 'c server \<Rightarrow> 'c server" where
  "serve_accept tcp conn s =
     (let s = (if tcp then s\<lparr>keepalives := keepalives s @ [(conn, tcpConnectionKeepAlive s,
                 if tcpConnectionKeepAlivePeriod s \<noteq> 0 then Some (tcpConnectionKeepAlivePeriod s) else None)]\<rparr> else s)
      in case addConnection conn s of
           (False, s) \<Rightarrow> s\<lparr>conn_closed := insert conn (conn_closed s)\<rparr>
         | (True, s) \<Rightarrow> s\<lparr>accepted := Some conn\<rparr>)"

definition serve_spawn :: "'c \<Rightarrow> 'c server \<Rightarrow> 'c server" where
  "serve_spawn conn s = s\<lparr>wgConns := wgConns s + 1, accepted := None, handlers := handlers s @ [(conn, Handling)]\<rparr>"

text \<open>The end of the accept loop.\<close>

definition serve_end :: "'c server \<Rightarrow> 'c server" where
  "serve_end s = s\<lparr>sv_log := sv_log s @ [''server unexpectedly closed'']\<rparr>"

text \<open>The next action of the \<open>i\<close>-th goroutine of a connection.\<close>

definition handler_step :: "nat \<Rightarrow> 'c server \<Rightarrow> (server_panic, 'c server) outcome" where
  "handler_step i s =
     (case handlers s ! i of
        (conn, Handling) \<Rightarrow> Ret (s\<lparr>conn_closed := insert conn (conn_closed s), handlers := (handlers s)[i := (conn, Removing)]\<rparr>)
      | (conn, Removing) \<Rightarrow> Ret ((removeConnection conn s)\<lparr>handlers := (handlers s)[i := (conn, Finishing)]\<rparr>)
      | (conn, Finishing) \<Rightarrow>
          (if wgConns s = 0 then Panic NegativeWaitGroup
           else Ret (s\<lparr>wgConns := wgConns s - 1, handlers := remove_nth i (handlers s)\<rparr>)))"

text \<open>The critical section of \<^verbatim>\<open>Close\<close>; a later call returns at once.\<close>

definition Close_begin :: "'c server \<Rightarrow> 'c server" where
  "Close_begin s =
     (if sv_closed s then s else s\<lparr>sv_closed := True, closedChan := True, closing := ClosingConns (conns s)\<rparr>)"

text \<open>The rest of \<^verbatim>\<open>Close\<close>, one action at a time; \<^const>\<open>None\<close> when it waits or is not running.\<close>

definition Close_step :: "'c server \<Rightarrow> 'c server option" where
  "Close_step s =
     (case closing s of
        ClosingConns (conn # cs) \<Rightarrow> Some (s\<lparr>conn_closed := insert conn (conn_closed s), closing := ClosingConns cs\<rparr>)
      | ClosingConns [] \<Rightarrow> Some (s\<lparr>closing := ClosingListener\<rparr>)
      | ClosingListener \<Rightarrow> Some (s\<lparr>listener_closed := sv_listener s, closing := WaitingConns\<rparr>)
      | WaitingConns \<Rightarrow> (if wgConns s = 0 then Some (s\<lparr>handler_closed := True, closing := ClosedAll\<rparr>) else None)
      | _ \<Rightarrow> None)"

text \<open>One round of \<^verbatim>\<open>reportMetrics\<close>: a tick of the ticker, or the closed channel.\<close>

definition reportMetrics_round :: "bool \<Rightarrow> 'c server \<Rightarrow> 'c server" where
  "reportMetrics_round tick s =
     (if \<not> reporting s then s
      else if tick then s\<lparr>openConnections := openConnections s @ [float_of_int (numConns s)]\<rparr>
      else if closedChan s then s\<lparr>reporting := False\<rparr> else s)"

section \<open>Interleavings\<close>

text \<open>The accept loop delivers new, open connections, one at a time.\<close>

definition new_conn :: "'c \<Rightarrow> 'c server \<Rightarrow> bool" where
  "new_conn c s \<longleftrightarrow> c \<notin> set (conns s) \<and> c \<notin> fst ` set (handlers s) \<and> c \<notin> conn_closed s"

inductive server_step :: "'c server \<Rightarrow> 'c server \<Rightarrow> bool" where
  serve: "\<not> sv_listener s \<Longrightarrow> server_step s (Serve addr s)"
| accept: "sv_listener s \<Longrightarrow> accepted s = None \<Longrightarrow> new_conn c s \<Longrightarrow> server_step s (serve_accept tcp c s)"
| spawn: "accepted s = Some c \<Longrightarrow> server_step s (serve_spawn c s)"
| stop: "server_step s (serve_end s)"
| handler: "i < length (handlers s) \<Longrightarrow> handler_step i s = Ret s' \<Longrightarrow> server_step s s'"
| close: "server_step s (Close_begin s)"
| closing: "Close_step s = Some s' \<Longrightarrow> server_step s s'"
| report: "server_step s (reportMetrics_round tick s)"

inductive server_reach :: "string \<Rightarrow> ('i, 'r) server_options \<Rightarrow> 'c server \<Rightarrow> bool" for address opts where
  new: "server_reach address opts (NewServer address opts)"
| step: "server_reach address opts s \<Longrightarrow> server_step s s' \<Longrightarrow> server_reach address opts s'"

section \<open>Removal by swapping with the last connection\<close>

lemma mset_swap_delete:
  assumes "i < length xs"
  shows "add_mset (xs ! i) (mset (take (length xs - 1) (xs[i := xs ! (length xs - 1)]))) = mset xs"
proof -
  have ne: "xs \<noteq> []" using assms by auto
  let ?n = "length xs - 1"
  have last: "xs ! ?n = last xs" using ne by (simp add: last_conv_nth)
  have t: "take ?n (xs[i := last xs]) = (if i = ?n then butlast xs else (butlast xs)[i := last xs])"
  proof -
    have "take ?n (xs[i := last xs]) = butlast (xs[i := last xs])" by (simp add: butlast_conv_take)
    then show ?thesis by (simp add: butlast_list_update)
  qed
  have m: "mset xs = add_mset (last xs) (mset (butlast xs))"
    using arg_cong [OF append_butlast_last_id [OF ne], of mset] by simp
  show ?thesis
  proof (cases "i = ?n")
    case True
    with t m last show ?thesis by simp
  next
    case False
    with assms have i: "i < length (butlast xs)" by simp
    then have "butlast xs ! i = xs ! i" by (rule nth_butlast)
    moreover obtain M where "mset (butlast xs) = add_mset (butlast xs ! i) M"
      "\<And>y. mset ((butlast xs)[i := y]) = add_mset y M"
      using mset_nth_split [OF i] by blast
    ultimately show ?thesis using t False m last by simp
  qed
qed

lemma remove_conn_loop_removes:
  "conn \<in> set (drop i (conns s)) \<Longrightarrow>
   \<exists>xs. remove_conn_loop (length (conns s)) i conn s = s\<lparr>conns := xs, numConns := wrap32 (numConns s - 1)\<rparr> \<and>
     add_mset conn (mset xs) = mset (conns s)"
proof (induction "length (conns s)" i conn s rule: remove_conn_loop.induct)
  case (1 i conn s)
  then have i: "i < length (conns s)" by (cases "i < length (conns s)") auto
  show ?case
  proof (cases "conns s ! i = conn")
    case True
    with i mset_swap_delete [OF i] show ?thesis
      by (subst remove_conn_loop.simps) (simp, blast)
  next
    case False
    have "drop i (conns s) = conns s ! i # drop (i + 1) (conns s)" using i by (simp add: Cons_nth_drop_Suc)
    with False 1(2) have "conn \<in> set (drop (i + 1) (conns s))" by auto
    from 1(1) [OF i False this] i False show ?thesis by (subst remove_conn_loop.simps) simp
  qed
qed

lemma removeConnection_removes:
  "conn \<in> set (conns s) \<Longrightarrow>
   \<exists>xs. removeConnection conn s = s\<lparr>conns := xs, numConns := wrap32 (numConns s - 1)\<rparr> \<and>
     add_mset conn (mset xs) = mset (conns s)"
  using remove_conn_loop_removes [of conn 0 s] by (simp add: removeConnection_def)

section \<open>Bookkeeping\<close>

fun option_mset :: "'a option \<Rightarrow> 'a multiset" where
  "option_mset None = {#}"
| "option_mset (Some x) = {#x#}"

text \<open>The connections a goroutine is responsible for.\<close>

definition live :: "'c server \<Rightarrow> 'c multiset" where
  "live s = option_mset (accepted s) + image_mset fst {#h \<in># mset (handlers s). snd h \<noteq> Finishing#}"

fun closing_covers :: "'c close_phase \<Rightarrow> 'c set \<Rightarrow> 'c set \<Rightarrow> bool" where
  "closing_covers NotClosing C D \<longleftrightarrow> True"
| "closing_covers (ClosingConns cs) C D \<longleftrightarrow> C \<subseteq> set cs \<union> D"
| "closing_covers _ C D \<longleftrightarrow> C \<subseteq> D"

definition server_inv :: "'c server \<Rightarrow> bool" where
  "server_inv s \<longleftrightarrow>
     mset (conns s) = live s \<and> numConns s = wrap32 (int (length (conns s))) \<and>
     wgConns s = length (handlers s) \<and>
     (sv_closed s \<longleftrightarrow> closing s \<noteq> NotClosing) \<and> (closedChan s \<longleftrightarrow> sv_closed s) \<and> (handler_closed s \<longleftrightarrow> closing s = ClosedAll) \<and>
     closing_covers (closing s) (set (conns s)) (conn_closed s) \<and>
     (closing s = ClosedAll \<longrightarrow> length (handlers s) + size (option_mset (accepted s)) \<le> 1)"

lemma closing_covers_mono:
  "closing_covers ph C D \<Longrightarrow> C' \<subseteq> C \<Longrightarrow> D \<subseteq> D' \<Longrightarrow> closing_covers ph C' D'"
  by (cases ph) auto

lemma handler_step_inv:
  assumes inv: "server_inv s" and i: "i < length (handlers s)"
  shows "\<exists>s'. handler_step i s = Ret s' \<and> server_inv s'"
proof -
  obtain c ph where h: "handlers s ! i = (c, ph)" by force
  obtain M where M: "mset (handlers s) = add_mset (c, ph) M" "\<And>y. mset ((handlers s)[i := y]) = add_mset y M"
    "mset (remove_nth i (handlers s)) = M" using mset_nth_split [OF i] h by metis
  have L: "length (handlers s) = Suc (size M)" "length (remove_nth i (handlers s)) = size M"
    using arg_cong [OF M(1), of size] arg_cong [OF M(3), of size] by simp_all
  note M [simp] L [simp]
  show ?thesis
  proof (cases ph)
    case Handling
    with h inv show ?thesis
      by (auto simp: handler_step_def server_inv_def live_def elim: closing_covers_mono)
  next
    case Removing
    have "c \<in># mset (conns s)" using inv Removing by (simp add: server_inv_def live_def)
    then obtain xs where xs: "removeConnection c s = s\<lparr>conns := xs, numConns := wrap32 (numConns s - 1)\<rparr>"
      "mset (conns s) = add_mset c (mset xs)" using removeConnection_removes [of c s] by auto
    moreover from arg_cong [OF xs(2), of size] have "length (conns s) = Suc (length xs)" by simp
    moreover from arg_cong [OF xs(2), of set_mset] have "set xs \<subseteq> set (conns s)" by auto
    ultimately show ?thesis using inv Removing h
      by (auto simp: handler_step_def server_inv_def live_def elim: closing_covers_mono)
  next
    case Finishing
    with h inv show ?thesis by (auto simp: handler_step_def server_inv_def live_def)
  qed
qed

lemma serve_accept_inv:
  assumes "server_inv s" and "accepted s = None"
  shows "server_inv (serve_accept tcp c s)"
proof (cases "sv_closed s")
  case True
  with assms show ?thesis
    by (auto simp: serve_accept_def addConnection_def server_inv_def live_def Let_def elim: closing_covers_mono)
next
  case False
  with assms have "closing s = NotClosing" by (simp add: server_inv_def)
  with False assms show ?thesis
    by (simp add: serve_accept_def addConnection_def server_inv_def live_def Let_def add.commute)
qed

lemma Close_step_inv:
  assumes "server_inv s" and "Close_step s = Some s'"
  shows "server_inv s'"
proof (cases "closing s")
  case (ClosingConns cs)
  with assms show ?thesis by (cases cs) (auto simp: Close_step_def server_inv_def live_def)
next
  case WaitingConns
  have "size (option_mset (accepted s)) \<le> 1" by (cases "accepted s") simp_all
  with WaitingConns assms show ?thesis
    by (auto simp: Close_step_def server_inv_def live_def split: if_splits)
qed (use assms in \<open>auto simp: Close_step_def server_inv_def live_def\<close>)

lemma server_step_inv: "server_step s s' \<Longrightarrow> server_inv s \<Longrightarrow> server_inv s'"
proof (induction rule: server_step.induct)
  case (accept s c tcp)
  then show ?case by (simp add: serve_accept_inv)
next
  case (spawn s c)
  then show ?case by (simp add: serve_spawn_def server_inv_def live_def)
next
  case (handler i s s')
  with handler_step_inv [OF handler(3,1)] show ?case by auto
next
  case (closing s s')
  with Close_step_inv show ?case by blast
qed (auto simp: Serve_def serve_end_def Close_begin_def reportMetrics_round_def server_inv_def live_def)

lemma server_reach_inv: "server_reach address opts s \<Longrightarrow> server_inv s"
proof (induction rule: server_reach.induct)
  case new
  show ?case by (simp add: NewServer_def server_inv_def live_def wrap_s_def)
qed (rule server_step_inv)

text \<open>
  \<^verbatim>\<open>Close\<close> between \<^verbatim>\<open>addConnection\<close> and \<^verbatim>\<open>wgConns.Add\<close>.
\<close>

definition ex_server :: "nat server" where
  "ex_server = serve_accept False 0 (Serve ''localhost:1'' (NewServer [] (server_NewOptions () ())))"

lemma ex_server_race:
  "\<exists>s. server_reach [] (server_NewOptions () ()) s \<and> handler_closed s \<and> handlers s = [(0 :: nat, Handling)] \<and> 0 \<in> conn_closed s"
proof -
  let ?R = "server_reach [] (server_NewOptions () ()) :: nat server \<Rightarrow> bool"
  note defs = ex_server_def serve_accept_def addConnection_def Serve_def NewServer_def
  have "?R (Serve ''localhost:1'' (NewServer [] (server_NewOptions () ())))"
    by (rule server_reach.step [OF server_reach.new server_step.serve]) (simp add: NewServer_def)
  then have "?R ex_server" unfolding ex_server_def
    by (rule server_reach.step [OF _ server_step.accept]) (simp_all add: NewServer_def Serve_def new_conn_def)
  then have 1: "?R (Close_begin ex_server)" by (rule server_reach.step [OF _ server_step.close])
  have run: "?R s \<Longrightarrow> Close_step s = Some s' \<Longrightarrow> ?R s'" for s s' by (rule server_reach.step [OF _ server_step.closing])
  obtain s2 where 2: "Close_step (Close_begin ex_server) = Some s2" "closing s2 = ClosingConns []" "conn_closed s2 = {0}"
    "wgConns s2 = 0" "accepted s2 = Some 0" "handlers s2 = []" by (simp add: defs Close_begin_def Close_step_def)
  obtain s3 where 3: "Close_step s2 = Some s3" "closing s3 = ClosingListener" "conn_closed s3 = {0}"
    "wgConns s3 = 0" "accepted s3 = Some 0" "handlers s3 = []" using 2 by (simp add: Close_step_def)
  obtain s4 where 4: "Close_step s3 = Some s4" "closing s4 = WaitingConns" "conn_closed s4 = {0}"
    "wgConns s4 = 0" "accepted s4 = Some 0" "handlers s4 = []" using 3 by (simp add: Close_step_def)
  obtain s5 where 5: "Close_step s4 = Some s5" "handler_closed s5" "conn_closed s5 = {0}" "accepted s5 = Some 0" "handlers s5 = []"
    using 4 by (simp add: Close_step_def)
  have "?R s5" using 1 2(1) 3(1) 4(1) 5(1) run by blast
  then have "?R (serve_spawn 0 s5)" using 5(4) by (rule server_reach.step [OF _ server_step.spawn])
  with 5 show ?thesis by (intro exI [of _ "serve_spawn 0 s5"]) (simp add: serve_spawn_def)
qed

section \<open>Properties\<close>

text \<open>
  C36: in every interleaving of a server its lists are well-formed: the connections it tracks are exactly those
  a goroutine still has to remove, the counter of the gauge is their number and the wait group counts the
  goroutines of the connections, so no step panics.  A server that is past closing its connections
  has closed every connection it tracks, and once its handler is closed it has no more connections
  than the one that was accepted but not yet counted.  That one exists: \<^verbatim>\<open>wgConns.Add\<close> follows the critical
  section of \<^verbatim>\<open>addConnection\<close>, and \<^verbatim>\<open>Close\<close> in between does not wait for it, so its handler runs after \<^verbatim>\<open>handler.Close\<close>.
\<close>

theorem server_tracks_connections:
  "(\<forall>s i. server_reach address opts (s :: 'c server) \<longrightarrow>
      mset (conns s) = live s \<and> numConns s = wrap32 (int (length (conns s))) \<and> wgConns s = length (handlers s) \<and>
      (i < length (handlers s) \<longrightarrow> (\<exists>s'. handler_step i s = Ret s')) \<and>
      (closing s \<in> {ClosingListener, WaitingConns, ClosedAll} \<longrightarrow> set (conns s) \<subseteq> conn_closed s) \<and>
      (handler_closed s \<longrightarrow> length (handlers s) + (if accepted s = None then 0 else 1) \<le> 1)) \<and>
   (\<exists>s. server_reach [] (server_NewOptions () ()) s \<and> handler_closed s \<and> handlers s = [(0 :: nat, Handling)] \<and> 0 \<in> conn_closed s)"
proof (intro conjI ex_server_race allI impI)
  fix s :: "'c server" and i
  assume "server_reach address opts s"
  then have inv: "server_inv s" by (rule server_reach_inv)
  then show "mset (conns s) = live s" "numConns s = wrap32 (int (length (conns s)))" "wgConns s = length (handlers s)"
    by (simp_all add: server_inv_def)
  show "\<exists>s'. handler_step i s = Ret s'" if "i < length (handlers s)" using handler_step_inv [OF inv that] by blast
  show "set (conns s) \<subseteq> conn_closed s" if "closing s \<in> {ClosingListener, WaitingConns, ClosedAll}"
    using inv that by (auto simp: server_inv_def)
  show "length (handlers s) + (if accepted s = None then 0 else 1) \<le> 1" if "handler_closed s"
    using inv that by (cases "accepted s") (simp_all add: server_inv_def)
qed

theorem server_tracks_connections_witness:
  "numConns ex_server = 1 \<and> wgConns ex_server = 0 \<and>
   (\<exists>s. server_reach [] (server_NewOptions () ()) s \<and> handler_closed s \<and> handlers s = [(0 :: nat, Handling)])"
proof -
  let ?o = "server_NewOptions () ()"
  have r: "server_reach [] ?o ex_server"
    unfolding ex_server_def
    by (rule server_reach.step [OF server_reach.step [OF server_reach.new server_step.serve] server_step.accept])
      (simp_all add: NewServer_def Serve_def new_conn_def)
  have "conns ex_server = [0]" "handlers ex_server = []"
    by (simp_all add: ex_server_def serve_accept_def addConnection_def Serve_def NewServer_def)
  moreover note server_tracks_connections [of "[]" ?o]
  ultimately show ?thesis using r by (fastforce simp: wrap_s_def)
qed

end
