(* ===== verification/KeyedMaps.thy ===== *)
theory KeyedMaps
  imports HashMap Bucketized
begin

text \<open>
  The generated maps \<^verbatim>\<open>generics/hashmap/byteskey/map_gen.go\<close> and \<^verbatim>\<open>generics/hashmap/idkey/map_gen.go\<close>: the text of \<^verbatim>\<open>map.go\<close> at the key
  types \<^verbatim>\<open>[]byte\<close> and \<^verbatim>\<open>ident.ID\<close>, and their use with a bytes pool that copies and finalizes the keys.

  What a map needs of the pool is the interface \<open>key_pool\<close>; the bytes pool provides it.
\<close>

section \<open>The map of byte slices\<close>

type_synonym ('v, 'w) bytes_map = "(bytes, 'v, 'w) Map"

definition byteskey_MapEntry_Key :: "(bytes, 'v) MapEntry \<Rightarrow> bytes" where "byteskey_MapEntry_Key e = MapEntry_Key e"
definition byteskey_MapEntry_Value :: "(bytes, 'v) MapEntry \<Rightarrow> 'v" where "byteskey_MapEntry_Value e = MapEntry_Value e"
definition byteskey_mapAlloc :: "(bytes, 'w) mapOptions \<Rightarrow> ('v, 'w) bytes_map" where "byteskey_mapAlloc mopts = mapAlloc mopts"
definition byteskey_newMapKey ::
    "('v, 'w) bytes_map \<Rightarrow> bytes \<Rightarrow> mapKeyOptions \<Rightarrow> 'w \<Rightarrow> (map_panic, bytes mapKey \<times> 'w) outcome" where
  "byteskey_newMapKey m k mopts w = newMapKey m k mopts w"
definition byteskey_removeMapKey ::
    "('v, 'w) bytes_map \<Rightarrow> MapHash \<Rightarrow> bytes mapKey \<Rightarrow> 'w \<Rightarrow> (map_panic, ('v, 'w) bytes_map \<times> 'w) outcome" where
  "byteskey_removeMapKey m h key w = removeMapKey m h key w"
definition byteskey_Get :: "('v, 'w) bytes_map \<Rightarrow> bytes \<Rightarrow> 'v option option" where "byteskey_Get m k = Map_Get m k"
definition byteskey_Set :: "('v, 'w) bytes_map \<Rightarrow> bytes \<Rightarrow> 'v \<Rightarrow> 'w \<Rightarrow> (('v, 'w) bytes_map \<times> 'w) HashMap.run" where
  "byteskey_Set m k v w = Map_Set m k v w"
definition byteskey_SetUnsafe ::
    "('v, 'w) bytes_map \<Rightarrow> bytes \<Rightarrow> 'v \<Rightarrow> SetUnsafeOptions \<Rightarrow> 'w \<Rightarrow> (('v, 'w) bytes_map \<times> 'w) HashMap.run" where
  "byteskey_SetUnsafe m k v mopts w = Map_SetUnsafe m k v mopts w"
definition byteskey_set ::
    "('v, 'w) bytes_map \<Rightarrow> bytes \<Rightarrow> 'v \<Rightarrow> mapKeyOptions \<Rightarrow> 'w \<Rightarrow> (('v, 'w) bytes_map \<times> 'w) HashMap.run" where
  "byteskey_set m k v mopts w = Map_set m k v mopts w"
definition byteskey_Iter :: "('v, 'w) bytes_map \<Rightarrow> MapHash \<Rightarrow> (bytes, 'v) MapEntry option" where "byteskey_Iter m = Map_Iter m"
definition byteskey_Len :: "('v, 'w) bytes_map \<Rightarrow> nat" where "byteskey_Len m = Map_Len m"
definition byteskey_Contains :: "('v, 'w) bytes_map \<Rightarrow> bytes \<Rightarrow> bool option" where "byteskey_Contains m k = Map_Contains m k"
definition byteskey_Delete :: "('v, 'w) bytes_map \<Rightarrow> bytes \<Rightarrow> 'w \<Rightarrow> (('v, 'w) bytes_map \<times> 'w) HashMap.run" where
  "byteskey_Delete m k w = Map_Delete m k w"
definition byteskey_Reset ::
    "MapHash list \<Rightarrow> ('v, 'w) bytes_map \<Rightarrow> 'w \<Rightarrow> (map_panic, ('v, 'w) bytes_map \<times> 'w) outcome" where
  "byteskey_Reset order m w = Map_Reset order m w"
definition byteskey_Reallocate :: "('v, 'w) bytes_map \<Rightarrow> ('v, 'w) bytes_map" where
  "byteskey_Reallocate m = Map_Reallocate m"

section \<open>The map of identifiers\<close>

type_synonym ('o, 'v, 'w) id_map = "('o ident_ID, 'v, 'w) Map"

definition idkey_MapEntry_Key :: "('o ident_ID, 'v) MapEntry \<Rightarrow> 'o ident_ID" where "idkey_MapEntry_Key e = MapEntry_Key e"
definition idkey_MapEntry_Value :: "('o ident_ID, 'v) MapEntry \<Rightarrow> 'v" where "idkey_MapEntry_Value e = MapEntry_Value e"
definition idkey_mapAlloc :: "('o ident_ID, 'w) mapOptions \<Rightarrow> ('o, 'v, 'w) id_map" where "idkey_mapAlloc mopts = mapAlloc mopts"
definition idkey_newMapKey ::
    "('o, 'v, 'w) id_map \<Rightarrow> 'o ident_ID \<Rightarrow> mapKeyOptions \<Rightarrow> 'w \<Rightarrow> (map_panic, 'o ident_ID mapKey \<times> 'w) outcome" where
  "idkey_newMapKey m k mopts w = newMapKey m k mopts w"
definition idkey_removeMapKey ::
    "('o, 'v, 'w) id_map \<Rightarrow> MapHash \<Rightarrow> 'o ident_ID mapKey \<Rightarrow> 'w \<Rightarrow> (map_panic, ('o, 'v, 'w) id_map \<times> 'w) outcome" where
  "idkey_removeMapKey m h key w = removeMapKey m h key w"
definition idkey_Get :: "('o, 'v, 'w) id_map \<Rightarrow> 'o ident_ID \<Rightarrow> 'v option option" where "idkey_Get m k = Map_Get m k"
definition idkey_Set :: "('o, 'v, 'w) id_map \<Rightarrow> 'o ident_ID \<Rightarrow> 'v \<Rightarrow> 'w \<Rightarrow> (('o, 'v, 'w) id_map \<times> 'w) HashMap.run" where
  "idkey_Set m k v w = Map_Set m k v w"
definition idkey_SetUnsafe ::
    "('o, 'v, 'w) id_map \<Rightarrow> 'o ident_ID \<Rightarrow> 'v \<Rightarrow> SetUnsafeOptions \<Rightarrow> 'w \<Rightarrow> (('o, 'v, 'w) id_map \<times> 'w) HashMap.run" where
  "idkey_SetUnsafe m k v mopts w = Map_SetUnsafe m k v mopts w"
definition idkey_set ::
    "('o, 'v, 'w) id_map \<Rightarrow> 'o ident_ID \<Rightarrow> 'v \<Rightarrow> mapKeyOptions \<Rightarrow> 'w \<Rightarrow> (('o, 'v, 'w) id_map \<times> 'w) HashMap.run" where
  "idkey_set m k v mopts w = Map_set m k v mopts w"
definition idkey_Iter :: "('o, 'v, 'w) id_map \<Rightarrow> MapHash \<Rightarrow> ('o ident_ID, 'v) MapEntry option" where "idkey_Iter m = Map_Iter m"
definition idkey_Len :: "('o, 'v, 'w) id_map \<Rightarrow> nat" where "idkey_Len m = Map_Len m"
definition idkey_Contains :: "('o, 'v, 'w) id_map \<Rightarrow> 'o ident_ID \<Rightarrow> bool option" where "idkey_Contains m k = Map_Contains m k"
definition idkey_Delete :: "('o, 'v, 'w) id_map \<Rightarrow> 'o ident_ID \<Rightarrow> 'w \<Rightarrow> (('o, 'v, 'w) id_map \<times> 'w) HashMap.run" where
  "idkey_Delete m k w = Map_Delete m k w"
definition idkey_Reset ::
    "MapHash list \<Rightarrow> ('o, 'v, 'w) id_map \<Rightarrow> 'w \<Rightarrow> (map_panic, ('o, 'v, 'w) id_map \<times> 'w) outcome" where
  "idkey_Reset order m w = Map_Reset order m w"
definition idkey_Reallocate :: "('o, 'v, 'w) id_map \<Rightarrow> ('o, 'v, 'w) id_map" where
  "idkey_Reallocate m = Map_Reallocate m"

section \<open>Storing a sequence of keys\<close>

fun set_all ::
    "(('k, 'v, 'w) Map \<Rightarrow> 'k \<Rightarrow> 'v \<Rightarrow> 'w \<Rightarrow> (('k, 'v, 'w) Map \<times> 'w) HashMap.run) \<Rightarrow> ('k \<times> 'v) list \<Rightarrow>
     ('k, 'v, 'w) Map \<Rightarrow> 'w \<Rightarrow> (('k, 'v, 'w) Map \<times> 'w) HashMap.run" where
  "set_all setf [] m w = Some (Ret (m, w))"
| "set_all setf ((k, v) # kvs) m w =
     (case setf m k v w of
        None \<Rightarrow> None
      | Some (Panic e) \<Rightarrow> Some (Panic e)
      | Some (Ret (m, w)) \<Rightarrow> set_all setf kvs m w)"

text \<open>Keys that are compared through a projection, copied without a panic on states that satisfy \<open>I\<close>.\<close>

definition copies_ok :: "('k, 'w) mapOptions \<Rightarrow> ('w \<Rightarrow> bool) \<Rightarrow> bool" where
  "copies_ok mopts I \<longleftrightarrow> (\<forall>k w. I w \<longrightarrow> (\<exists>k' w'. mo_copy mopts k w = Ret (k', w') \<and> I w'))"

lemma Map_Set_total:
  assumes "map_inv m" and "Map_Len m < 2 ^ 64" and "copies_ok (m_opts m) I" and "I w"
  shows "\<exists>m' w'. Map_Set m k v w = Some (Ret (m', w')) \<and> I w'"
proof -
  obtain k' w' where c: "mo_copy (m_opts m) k w = Ret (k', w')" "I w'" using assms(3,4) unfolding copies_ok_def by blast
  show ?thesis
    using assms(1,2)
  proof (cases rule: map_probe_cases [where k = k])
    case (found s e)
    with assms(4) show ?thesis by (simp add: Map_Set_def Map_set_def)
  next
    case (missing s)
    with c show ?thesis by (simp add: Map_Set_def Map_set_def newMapKey_def)
  qed
qed

lemma set_all_update:
  assumes "\<And>x y. mo_equals mopts x y \<longleftrightarrow> proj x = proj y" and "copies_ok mopts I"
  shows "map_inv m \<Longrightarrow> m_opts m = mopts \<Longrightarrow> I w \<Longrightarrow> Map_Len m + length kvs < 2 ^ 64 \<Longrightarrow>
    \<exists>m' w'. set_all Map_Set kvs m w = Some (Ret (m', w')) \<and> I w' \<and> map_inv m' \<and> m_opts m' = mopts \<and> Map_Len m' \<le> Map_Len m + length kvs \<and>
      (\<forall>k. Map_Get m' k = (case map_of (rev (map (\<lambda>(k, v). (proj k, v)) kvs)) (proj k) of
         Some v \<Rightarrow> Some (Some v) | None \<Rightarrow> Map_Get m k))"
proof (induction kvs arbitrary: m w)
  case Nil
  then show ?case by simp
next
  case (Cons kv kvs)
  obtain k v where kv: "kv = (k, v)" by force
  have len: "Map_Len m < 2 ^ 64" "has_room m" using Cons.prems(4) by (simp_all add: has_room_def)
  obtain m1 w1 where 1: "Map_Set m k v w = Some (Ret (m1, w1))" "I w1"
    using Map_Set_total [of m I w k v] Cons.prems len(1) assms(2) by blast
  note up = set_update [OF Cons.prems(1) len(2) 1(1) [unfolded Map_Set_def]]
  have "Map_Len m1 + length kvs < 2 ^ 64" using up Cons.prems(4) by simp
  moreover have "map_inv m1" "m_opts m1 = mopts" using up Cons.prems(2) by simp_all
  ultimately obtain m' w' where 2: "set_all Map_Set kvs m1 w1 = Some (Ret (m', w'))" "I w'" "map_inv m'" "m_opts m' = mopts"
    "Map_Len m' \<le> Map_Len m1 + length kvs" "\<forall>k. Map_Get m' k = (case map_of (rev (map (\<lambda>(k, v). (proj k, v)) kvs)) (proj k) of
       Some v \<Rightarrow> Some (Some v) | None \<Rightarrow> Map_Get m1 k)"
    using Cons.IH [of m1 w1] 1(2) by blast
  have "Map_Get m1 k' = (if proj k = proj k' then Some (Some v) else Map_Get m k')" for k'
    using up assms(1) Cons.prems(2) by simp
  then have "\<forall>k'. Map_Get m' k' = (case map_of (rev (map (\<lambda>(k, v). (proj k, v)) (kv # kvs))) (proj k') of
       Some v \<Rightarrow> Some (Some v) | None \<Rightarrow> Map_Get m k')"
    using 2(6) by (auto simp: kv map_add_def split: option.splits)
  moreover have "Map_Len m' \<le> Map_Len m + length (kv # kvs)" using 2(5) up by simp
  ultimately show ?case using 1(1) 2 by (auto simp: kv)
qed

section \<open>Pools of keys\<close>

locale key_pool =
  fixes kp :: "'w KeyCopyPool" and I :: "'w \<Rightarrow> bool"
  assumes get: "I w \<Longrightarrow> kp_Get kp n w = (cap, w') \<Longrightarrow> n \<le> cap \<and> I w'"
    and put: "I w \<Longrightarrow> I (kp_Put kp b w)"
begin

lemma byteskey_copies: "copies_ok (m_opts (byteskey_NewMap xxhash n (Some kp))) I"
proof -
  have "\<exists>k' w'. byteskey_copy (Some kp) k w = Ret (k', w') \<and> I w'" if "I w" for k w
    using get [OF that, of "length k"] by (cases "kp_Get kp (length k) w") (simp add: byteskey_copy_def)
  then show ?thesis by (simp add: copies_ok_def byteskey_NewMap_def mapAlloc_def Map_Reallocate_def)
qed

lemma idkey_copies: "copies_ok (m_opts (idkey_NewMap ob xxhash n (Some kp))) I"
proof -
  have "\<exists>k' w'. idkey_copy ob (Some kp) k w = Ret (k', w') \<and> I w'" if "I w" for k w
    using get [OF that, of "length (ident_ID_Bytes ob k)"]
    by (cases "kp_Get kp (length (ident_ID_Bytes ob k)) w") (simp add: idkey_copy_def byteskey_copy_def)
  then show ?thesis by (simp add: copies_ok_def idkey_NewMap_def mapAlloc_def Map_Reallocate_def)
qed

text \<open>Removing an entry whose key came from the pool gives the key back and keeps the pool usable.\<close>

lemma byteskey_remove:
  assumes "I w" and "m_opts m = m_opts (byteskey_NewMap xxhash n (Some kp) :: (bytes, 'v, 'w) Map)"
  shows "\<exists>m' w'. removeMapKey m h key w = Ret (m', w') \<and> I w' \<and> m_opts m' = m_opts m"
  using assms put [of w "mk_key key"]
  by (simp add: removeMapKey_def Let_def byteskey_NewMap_def mapAlloc_def Map_Reallocate_def)

lemma idkey_remove:
  assumes "I w" and "m_opts m = m_opts (idkey_NewMap ob xxhash n (Some kp) :: ('o ident_ID, 'v, 'w) Map)"
  shows "\<exists>m' w'. removeMapKey m h key w = Ret (m', w') \<and> I w' \<and> m_opts m' = m_opts m"
  using assms put [of w]
  by (simp add: removeMapKey_def Let_def idkey_NewMap_def mapAlloc_def Map_Reallocate_def idkey_finalize_def split: ident_ID.split)

lemma byteskey_sets:
  fixes kvs :: "(bytes \<times> 'v) list"
  assumes "I w" and "length kvs < 2 ^ 64"
  shows "\<exists>m' w'. set_all Map_Set kvs (byteskey_NewMap xxhash n (Some kp)) w = Some (Ret (m', w')) \<and> I w' \<and> map_inv m' \<and>
    m_opts m' = m_opts (byteskey_NewMap xxhash n (Some kp) :: (bytes, 'v, 'w) Map) \<and> Map_Len m' < 2 ^ 64 \<and> (\<forall>k. Map_Get m' k = Some (map_of (rev kvs) k))"
proof -
  let ?m = "byteskey_NewMap xxhash n (Some kp) :: (bytes, 'v, 'w) Map"
  have e: "mo_equals (m_opts ?m) x y \<longleftrightarrow> (\<lambda>k. k) x = (\<lambda>k. k) y" for x y
    by (simp add: byteskey_NewMap_def mapAlloc_def Map_Reallocate_def)
  have m: "Map_Len ?m = 0" "\<And>k. Map_Get ?m k = Some None"
    by (simp_all add: Map_Len_def Map_Get_def byteskey_NewMap_def mapAlloc_def Map_Reallocate_def probe.simps)
  obtain m' w' where "set_all Map_Set kvs ?m w = Some (Ret (m', w'))" "I w'" "map_inv m'"
    "m_opts m' = m_opts ?m" "Map_Len m' < 2 ^ 64" and get: "\<forall>k. Map_Get m' k = (case map_of (rev kvs) k of Some v \<Rightarrow> Some (Some v) | None \<Rightarrow> Map_Get ?m k)"
    using set_all_update [OF e byteskey_copies NewMap_inv(1) refl assms(1), of kvs] assms(2) m(1) by fastforce
  moreover have "Map_Get m' k = Some (map_of (rev kvs) k)" for k
    using get m(2) by (cases "map_of (rev kvs) k") simp_all
  ultimately show ?thesis by blast
qed

lemma idkey_sets:
  fixes kvs :: "('o ident_ID \<times> 'v) list"
  assumes "I w" and "length kvs < 2 ^ 64"
  shows "\<exists>m' w'. set_all Map_Set kvs (idkey_NewMap ob xxhash n (Some kp)) w = Some (Ret (m', w')) \<and> I w' \<and> map_inv m' \<and>
    m_opts m' = m_opts (idkey_NewMap ob xxhash n (Some kp) :: ('o ident_ID, 'v, 'w) Map) \<and> Map_Len m' < 2 ^ 64 \<and> (\<forall>k. Map_Get m' k = Some (map_of (rev (map (\<lambda>(k, v). (ident_ID_Bytes ob k, v)) kvs)) (ident_ID_Bytes ob k)))"
proof -
  let ?m = "idkey_NewMap ob xxhash n (Some kp) :: ('o ident_ID, 'v, 'w) Map"
  let ?f = "map_of (rev (map (\<lambda>(k, v). (ident_ID_Bytes ob k, v)) kvs))"
  have e: "mo_equals (m_opts ?m) x y \<longleftrightarrow> ident_ID_Bytes ob x = ident_ID_Bytes ob y" for x y
    by (simp add: idkey_NewMap_def mapAlloc_def Map_Reallocate_def)
  have m: "Map_Len ?m = 0" "\<And>k. Map_Get ?m k = Some None"
    by (simp_all add: Map_Len_def Map_Get_def idkey_NewMap_def mapAlloc_def Map_Reallocate_def probe.simps)
  obtain m' w' where "set_all Map_Set kvs ?m w = Some (Ret (m', w'))" "I w'" "map_inv m'"
    "m_opts m' = m_opts ?m" "Map_Len m' < 2 ^ 64" and get: "\<forall>k. Map_Get m' k = (case ?f (ident_ID_Bytes ob k) of Some v \<Rightarrow> Some (Some v) | None \<Rightarrow> Map_Get ?m k)"
    using set_all_update [OF e idkey_copies NewMap_inv(2) refl assms(1), of kvs] assms(2) m(1) by fastforce
  moreover have "Map_Get m' k = Some (?f (ident_ID_Bytes ob k))" for k
    using get m(2) by (cases "?f (ident_ID_Bytes ob k)") simp_all
  ultimately show ?thesis by blast
qed

end

text \<open>
  The bytes pool as a pool of keys.  The capacity a returned key has beyond its length is not part of
  a key here: \<open>spare\<close> gives it.  A panic of the pool hands out nothing.
\<close>

definition bytes_key_pool :: "(bytes \<Rightarrow> nat) \<Rightarrow> 'io bytesPool KeyCopyPool" where
  "bytes_key_pool spare =
     \<lparr>kp_Get = (\<lambda>n p. case bytesPool_Get (int n) p of (Ret v, p) \<Rightarrow> (bcap v, p) | (Panic _, p) \<Rightarrow> (0, p)),
      kp_Put = (\<lambda>b p. snd (bytesPool_Put \<lparr>buf = b @ replicate (spare b) 0, blen = length b\<rparr> p))\<rparr>"

interpretation pooled: key_pool "bytes_key_pool spare" bytes.bz_inv for spare
proof
  fix p p' :: "'a bytesPool" and n cap
  assume inv: "bytes.bz_inv p" and get: "kp_Get (bytes_key_pool spare) n p = (cap, p')"
  obtain v p1 where "bytesPool_Get (int n) p = (Ret v, p1)" "int n \<le> int (bcap v)" "bytes.bz_inv p1"
    using bytesPool_Get_good [OF inv] by blast
  with get show "n \<le> cap \<and> bytes.bz_inv p'" by (simp add: bytes_key_pool_def)
next
  fix p :: "'a bytesPool" and b
  assume "bytes.bz_inv p"
  from bytesPool_Put_good [OF this, of "\<lparr>buf = b @ replicate (spare b) 0, blen = length b\<rparr>"]
  show "bytes.bz_inv (kp_Put (bytes_key_pool spare) b p)" by (auto simp: bytes_key_pool_def)
qed

section \<open>Deleting\<close>

lemma Delete_no_panic:
  assumes "map_inv m" and "Map_Len m < 2 ^ 64"
    and "\<And>h key. \<exists>m' w'. removeMapKey m h key w = Ret (m', w')"
  shows "\<exists>m' w'. Map_Delete m k w = Some (Ret (m', w'))"
  using assms(1,2)
proof (cases rule: map_probe_cases [where k = k])
  case (found s e)
  with assms(3) [of s "me_key e"] show ?thesis by (simp add: Map_Delete_def)
qed (simp add: Map_Delete_def)

lemma instance_ops [simp]: "byteskey_Set = Map_Set" "byteskey_Delete = Map_Delete" "byteskey_Get = Map_Get"
  "idkey_Set = Map_Set" "idkey_Delete = Map_Delete" "idkey_Get = Map_Get"
  by (simp_all add: fun_eq_iff byteskey_Set_def byteskey_Delete_def byteskey_Get_def idkey_Set_def idkey_Delete_def idkey_Get_def)

section \<open>Properties\<close>



end
