(* ===== verification/Log.thy ===== *)
theory Log
  imports Prelude
begin

text \<open>
  The package \<^verbatim>\<open>log\<close>: the loggers (\<^verbatim>\<open>logger.go\<close>) and the configuration (\<^verbatim>\<open>config.go\<close>).

  What is written and whether the process has exited is the state \<open>log_state\<close>.  \<^verbatim>\<open>fmt.Sprintf\<close>, the printing of fields
  and the time are parameters, since they are the formatter's and the clock's: \<open>sprintf\<close> maps a format and its
  arguments to the text.
\<close>

section \<open>Levels\<close>

text \<open>\<^verbatim>\<open>Level\<close> is an integer type with six named values; any integer is a level.\<close>

type_synonym Level = int

definition LevelAll :: Level where "LevelAll = 0"
definition LevelDebug :: Level where "LevelDebug = 1"
definition LevelInfo :: Level where "LevelInfo = 2"
definition LevelWarn :: Level where "LevelWarn = 3"
definition LevelError :: Level where "LevelError = 4"
definition LevelFatal :: Level where "LevelFatal = 5"

lemmas level_defs = LevelAll_def LevelDebug_def LevelInfo_def LevelWarn_def LevelError_def LevelFatal_def

definition levels :: "Level list" where
  "levels = [LevelAll, LevelDebug, LevelInfo, LevelWarn, LevelError, LevelFatal]"

definition Level_String :: "Level \<Rightarrow> string" where
  "Level_String l =
     (if l = LevelAll then ''all'' else if l = LevelDebug then ''debug'' else if l = LevelInfo then ''info''
      else if l = LevelWarn then ''warn'' else if l = LevelError then ''error'' else if l = LevelFatal then ''fatal''
      else '''')"

text \<open>\<^verbatim>\<open>strings.ToLower\<close> on the ASCII letters, the only letters of the names of levels.\<close>

definition lower_char :: "char \<Rightarrow> char" where
  "lower_char c = (if 65 \<le> (of_char c :: nat) \<and> of_char c \<le> (90 :: nat) then char_of (of_char c + 32 :: nat) else c)"

definition ToLower :: "string \<Rightarrow> string" where "ToLower s = map lower_char s"

datatype log_error = UnrecognizedLevel string | OpenError string

fun find_level :: "Level list \<Rightarrow> string \<Rightarrow> Level option" where
  "find_level [] level = None"
| "find_level (l # ls) level = (if ToLower (Level_String l) = level then Some l else find_level ls level)"

definition ParseLevel :: "string \<Rightarrow> (log_error, Level) result" where
  "ParseLevel level =
     (let level = ToLower level in
      case find_level levels level of Some l \<Rightarrow> Inr l | None \<Rightarrow> Inl (UnrecognizedLevel level))"

section \<open>Fields\<close>

record 'v field =
  f_key :: string
  f_value :: 'v

definition NewField :: "string \<Rightarrow> 'v \<Rightarrow> 'v field" where "NewField key v = \<lparr>f_key = key, f_value = v\<rparr>"
definition field_Key :: "'v field \<Rightarrow> string" where "field_Key f = f_key f"
definition field_Value :: "'v field \<Rightarrow> 'v" where "field_Value f = f_value f"

text \<open>\<^verbatim>\<open>NewErrField\<close>, with the message of the error.\<close>

definition NewErrField :: "string \<Rightarrow> string field" where "NewErrField msg = NewField ''error'' msg"

definition Fields_Len :: "'v field list \<Rightarrow> nat" where "Fields_Len f = length f"
definition Fields_ValueAt :: "'v field list \<Rightarrow> nat \<Rightarrow> 'v field option" where
  "Fields_ValueAt f i = (if i < length f then Some (f ! i) else None)"

section \<open>Loggers\<close>

record log_state =
  written :: "string list"
  exited :: bool

datatype 'v logger = NullLogger | WriterLogger "'v field list" | LevelLogger "'v logger" Level

definition NewLogger :: "'v field list \<Rightarrow> 'v logger" where "NewLogger flds = WriterLogger flds"
definition NewLevelLogger :: "'v logger \<Rightarrow> Level \<Rightarrow> 'v logger" where "NewLevelLogger l level = LevelLogger l level"

text \<open>The severities of the five pairs of methods: their level and the prefix of their lines.\<close>

datatype severity = Debug | Info | Warn | Err | Fatal

fun severity_level :: "severity \<Rightarrow> Level" where
  "severity_level Debug = LevelDebug"
| "severity_level Info = LevelInfo"
| "severity_level Warn = LevelWarn"
| "severity_level Err = LevelError"
| "severity_level Fatal = LevelFatal"

fun severity_prefix :: "severity \<Rightarrow> string" where
  "severity_prefix Debug = ''D''"
| "severity_prefix Info = ''I''"
| "severity_prefix Warn = ''W''"
| "severity_prefix Err = ''E''"
| "severity_prefix Fatal = ''F''"

record ('a, 'v) formatter =
  sprintf :: "string \<Rightarrow> 'a list \<Rightarrow> string"
  show_fields :: "'v field list \<Rightarrow> string"
  time_now :: string

definition printfn ::
    "('a, 'v) formatter \<Rightarrow> 'v field list \<Rightarrow> string \<Rightarrow> string \<Rightarrow> 'a list \<Rightarrow> log_state \<Rightarrow> log_state" where
  "printfn F flds prefix msg args s =
     (let ft = time_now F; fma = sprintf F msg args;
          line = (if Fields_Len flds = 0 then ft @ ''['' @ prefix @ ''] '' @ fma @ ''\<newline>''
                  else ft @ ''['' @ prefix @ ''] '' @ fma @ '' '' @ show_fields F flds @ ''\<newline>'')
      in s\<lparr>written := written s @ [line]\<rparr>)"

text \<open>The methods of the null logger: the fatal ones exit.\<close>

definition null_log :: "severity \<Rightarrow> log_state \<Rightarrow> log_state" where
  "null_log sev s = (if sev = Fatal then s\<lparr>exited := True\<rparr> else s)"

definition writer_log ::
    "('a, 'v) formatter \<Rightarrow> 'v field list \<Rightarrow> severity \<Rightarrow> string \<Rightarrow> 'a list \<Rightarrow> log_state \<Rightarrow> log_state" where
  "writer_log F flds sev msg args s =
     (let s = printfn F flds (severity_prefix sev) msg args s
      in if sev = Fatal then s\<lparr>exited := True\<rparr> else s)"

text \<open>
  \<^verbatim>\<open>Errorf\<close> and the other formatting methods of a logger; a level logger passes on what its level allows.  Nothing
  runs after an exit.
\<close>

fun logf :: "('a, 'v) formatter \<Rightarrow> 'v logger \<Rightarrow> severity \<Rightarrow> string \<Rightarrow> 'a list \<Rightarrow> log_state \<Rightarrow> log_state" where
  "logf F NullLogger sev msg args s = null_log sev s"
| "logf F (WriterLogger flds) sev msg args s = writer_log F flds sev msg args s"
| "logf F (LevelLogger l level) sev msg args s =
     (if level \<le> severity_level sev then logf F l sev msg args s else s)"

text \<open>The plain methods: the writer passes the message on as the format, without arguments.\<close>

definition log_msg :: "('a, 'v) formatter \<Rightarrow> 'v logger \<Rightarrow> severity \<Rightarrow> string \<Rightarrow> log_state \<Rightarrow> log_state" where
  "log_msg F l sev msg s = logf F l sev msg [] s"

fun Enabled :: "'v logger \<Rightarrow> Level \<Rightarrow> bool" where
  "Enabled NullLogger level = False"
| "Enabled (WriterLogger flds) level = True"
| "Enabled (LevelLogger l lv) level = (lv \<le> level)"

fun Fields :: "'v logger \<Rightarrow> 'v field list" where
  "Fields NullLogger = []"
| "Fields (WriterLogger flds) = flds"
| "Fields (LevelLogger l lv) = Fields l"

fun copy_fields :: "nat \<Rightarrow> 'v field list \<Rightarrow> 'v field list" where
  "copy_fields 0 existing = []"
| "copy_fields (Suc n) existing = copy_fields n existing @ [existing ! n]"

fun WithFields :: "'v logger \<Rightarrow> 'v field list \<Rightarrow> 'v logger" where
  "WithFields NullLogger new = NullLogger"
| "WithFields (WriterLogger flds) new = WriterLogger (copy_fields (Fields_Len flds) flds @ new)"
| "WithFields (LevelLogger l lv) new = LevelLogger (WithFields l new) lv"

section \<open>Configuration\<close>

record 'v log_Configuration =
  lc_File :: string
  lc_Level :: string
  lc_Fields :: "(string \<times> 'v) list"

text \<open>\<open>open_file\<close> is the error of opening the file, if any; the fields are listed in the order the range visits them.\<close>

definition BuildLogger :: "(string \<Rightarrow> string option) \<Rightarrow> 'v log_Configuration \<Rightarrow> (log_error, 'v logger) result" where
  "BuildLogger open_file cfg =
     (case (if lc_File cfg \<noteq> '''' then open_file (lc_File cfg) else None) of
        Some e \<Rightarrow> Inl (OpenError e)
      | None \<Rightarrow>
          (let with_fields = (\<lambda>l. if lc_Fields cfg \<noteq> []
                 then WithFields l (map (\<lambda>(k, v). NewField k v) (lc_Fields cfg)) else l)
           in if lc_Level cfg \<noteq> '''' then
                (case ParseLevel (lc_Level cfg) of
                   Inl e \<Rightarrow> Inl e
                 | Inr level \<Rightarrow> Inr (with_fields (NewLevelLogger (NewLogger []) level)))
              else Inr (with_fields (NewLogger []))))"

section \<open>Lemmas\<close>

lemma copy_fields_all: "n \<le> length fs \<Longrightarrow> copy_fields n fs = take n fs"
  by (induction n) (simp_all add: take_Suc_conv_app_nth)

fun discards :: "'v logger \<Rightarrow> bool" where
  "discards NullLogger = True"
| "discards (WriterLogger flds) = False"
| "discards (LevelLogger l lv) = discards l"

lemma Fields_WithFields: "Fields (WithFields l new) = (if discards l then [] else Fields l @ new)"
  by (induction l) (simp_all add: copy_fields_all Fields_Len_def)

lemma Enabled_WithFields [simp]: "Enabled (WithFields l new) = Enabled l"
  by (cases l) (simp_all add: fun_eq_iff)

text \<open>A name of a level parses as the level, in any case of its letters, and nothing else parses.\<close>

lemma ToLower_names: "l \<in> set levels \<Longrightarrow> ToLower (Level_String l) = Level_String l"
  by (auto simp: levels_def Level_String_def level_defs ToLower_def lower_char_def)

lemma find_level_iff:
  "inj_on (\<lambda>l. ToLower (Level_String l)) (set ls) \<Longrightarrow> distinct ls \<Longrightarrow>
   find_level ls t = Some l \<longleftrightarrow> l \<in> set ls \<and> ToLower (Level_String l) = t"
  by (induction ls) (auto simp: inj_on_def)

lemma Level_String_inj: "inj_on Level_String (set levels)" and levels_distinct: "distinct levels"
  by (auto simp: inj_on_def levels_def Level_String_def level_defs)

lemma ParseLevel_iff: "ParseLevel s = Inr l \<longleftrightarrow> l \<in> set levels \<and> ToLower s = Level_String l"
proof -
  have "inj_on (\<lambda>l. ToLower (Level_String l)) (set levels)"
    using Level_String_inj ToLower_names by (simp add: inj_on_def)
  from find_level_iff [OF this levels_distinct, of "ToLower s" l] ToLower_names [of l]
  have "find_level levels (ToLower s) = Some l \<longleftrightarrow> l \<in> set levels \<and> ToLower s = Level_String l" by auto
  moreover have "ParseLevel s = Inr l \<longleftrightarrow> find_level levels (ToLower s) = Some l"
    by (simp add: ParseLevel_def Let_def split: option.split)
  ultimately show ?thesis by simp
qed

lemma ParseLevel_roundtrip: "l \<in> set levels \<Longrightarrow> ParseLevel (Level_String l) = Inr l"
  by (simp add: ParseLevel_iff ToLower_names)

text \<open>A line is written exactly when every level logger on the way allows the severity and the last logger writes.\<close>

fun writes :: "'v logger \<Rightarrow> severity \<Rightarrow> bool" where
  "writes NullLogger sev = False"
| "writes (WriterLogger flds) sev = True"
| "writes (LevelLogger l lv) sev = (lv \<le> severity_level sev \<and> writes l sev)"

lemma logf_written:
  "written (logf F l sev msg args s) =
     written s @ (if writes l sev then [last (written (printfn F (Fields l) (severity_prefix sev) msg args s))] else [])"
  by (induction l) (auto simp: null_log_def writer_log_def printfn_def Let_def)

fun exits :: "'v logger \<Rightarrow> bool" where
  "exits (LevelLogger l lv) = (lv \<le> LevelFatal \<and> exits l)"
| "exits l = True"

text \<open>Only the fatal methods exit, and a level above the fatal one keeps them from it.\<close>

lemma logf_exited: "exited (logf F l sev msg args s) \<longleftrightarrow> exited s \<or> sev = Fatal \<and> exits l"
  by (induction l) (auto simp: null_log_def writer_log_def printfn_def Let_def)

text \<open>Fields do not change what a logger lets through.\<close>

lemma writes_WithFields [simp]: "writes (WithFields l new) sev = writes l sev"
  by (induction l) simp_all

lemma BuildLogger_writes:
  "BuildLogger open_file cfg = Inr l \<Longrightarrow>
   \<exists>lv. (lc_Level cfg = '''' \<longrightarrow> lv = LevelAll) \<and> (lc_Level cfg \<noteq> '''' \<longrightarrow> ParseLevel (lc_Level cfg) = Inr lv) \<and>
     (\<forall>sev. writes l sev \<longleftrightarrow> lv \<le> severity_level sev) \<and> Fields l = map (\<lambda>(k, v). NewField k v) (lc_Fields cfg)"
proof -
  assume b: "BuildLogger open_file cfg = Inr l"
  have all: "LevelAll \<le> severity_level sev" for sev by (cases sev) (simp_all add: level_defs)
  show ?thesis
  proof (cases "lc_Level cfg = ''''")
    case True
    with b all show ?thesis
      by (intro exI [of _ LevelAll])
        (auto simp: BuildLogger_def NewLogger_def Fields_WithFields Fields_Len_def Let_def split: option.splits if_splits)
  next
    case False
    with b obtain lv where "ParseLevel (lc_Level cfg) = Inr lv"
      by (auto simp: BuildLogger_def Let_def split: option.splits if_splits sum.splits)
    with False b show ?thesis
      by (intro exI [of _ lv])
        (auto simp: BuildLogger_def NewLogger_def NewLevelLogger_def Fields_WithFields Fields_Len_def Let_def split: option.splits if_splits)
  qed
qed

end
