(* ===== verification/Instrument.thy ===== *)
theory Instrument
  imports Float64 Log
begin

text \<open>
  Sampling and reporting: the package \<^verbatim>\<open>sampler\<close>, the parts of the package \<^verbatim>\<open>instrument\<close> with logic of their own (options, sampled
  timers and method metrics, the periodic reporter, the kinds of metrics and their parsing, the report of
  garbage collections, invariant violations) and the options of the package \<^verbatim>\<open>clock\<close>.
\<close>

section \<open>Sampler\<close>

record Sampler =
  sampleEvery :: int
  numTried :: int

datatype sampler_error = InvalidSampleRate float64

text \<open>\<open>indef\<close> is the result of a conversion to \<^verbatim>\<open>int32\<close> that does not fit.\<close>

definition NewSampler :: "int \<Rightarrow> float64 \<Rightarrow> (sampler_error, Sampler) result" where
  "NewSampler indef sampleRate =
     (if float_le sampleRate (Fin 0) \<or> float_le (Fin 1) sampleRate then Inl (InvalidSampleRate sampleRate)
      else Inr \<lparr>sampleEvery = float_to_signed 32 indef (float_div (Fin 1) sampleRate), numTried = 0\<rparr>)"

datatype sampler_panic = DivideByZero

definition Sample :: "Sampler \<Rightarrow> (sampler_panic, bool \<times> Sampler) outcome" where
  "Sample t =
     (let n = wrap32 (numTried t + 1); t = t\<lparr>numTried := n\<rparr> in
      if sampleEvery t = 0 then Panic DivideByZero
      else Ret (wrap32 (n - 1) smod sampleEvery t = 0, t))"

text \<open>The results of \<open>n\<close> calls.\<close>

fun sample_n :: "nat \<Rightarrow> Sampler \<Rightarrow> (sampler_panic, bool list \<times> Sampler) outcome" where
  "sample_n 0 t = Ret ([], t)"
| "sample_n (Suc n) t =
     bind_outcome (Sample t) (\<lambda>(b, t). bind_outcome (sample_n n t) (\<lambda>(bs, t). Ret (b # bs, t)))"

section \<open>Sampled timers and method metrics\<close>

record sampledTimer =
  st_cnt :: "64 word"
  st_rate :: "64 word"
  st_recorded :: "int list"

datatype instrument_error = InvalidSamplingRate float64

definition NewSampledTimer :: "nat \<Rightarrow> float64 \<Rightarrow> (instrument_error, sampledTimer) result" where
  "NewSampledTimer indef rate =
     (if float_le rate (Fin 0) \<or> float_less (Fin 1) rate then Inl (InvalidSamplingRate rate)
      else Inr \<lparr>st_cnt = 0, st_rate = of_nat (float_to_unsigned 64 indef (float_div (Fin 1) rate)), st_recorded = []\<rparr>)"

datatype instrument_panic = SamplingRate instrument_error | IntegerDivideByZero | InvariantViolated string

definition MustCreateSampledTimer :: "nat \<Rightarrow> float64 \<Rightarrow> (instrument_panic, sampledTimer) outcome" where
  "MustCreateSampledTimer indef rate =
     (case NewSampledTimer indef rate of Inl e \<Rightarrow> Panic (SamplingRate e) | Inr t \<Rightarrow> Ret t)"

definition shouldSample :: "sampledTimer \<Rightarrow> (instrument_panic, bool \<times> sampledTimer) outcome" where
  "shouldSample t =
     (let t = t\<lparr>st_cnt := st_cnt t + 1\<rparr> in
      if st_rate t = 0 then Panic IntegerDivideByZero else Ret (st_cnt t mod st_rate t = 0, t))"

text \<open>\<^verbatim>\<open>Start\<close> returns the null stopwatch, \<^const>\<open>None\<close>, when it does not sample; \<open>now\<close> is the time the base timer starts at.\<close>

definition sampledTimer_Start :: "int \<Rightarrow> sampledTimer \<Rightarrow> (instrument_panic, int option \<times> sampledTimer) outcome" where
  "sampledTimer_Start now t =
     bind_outcome (shouldSample t) (\<lambda>(b, t). Ret (if b then Some now else None, t))"

definition sampledTimer_Stop :: "int \<Rightarrow> int option \<Rightarrow> sampledTimer \<Rightarrow> sampledTimer" where
  "sampledTimer_Stop now start t =
     (case start of None \<Rightarrow> t | Some s \<Rightarrow> t\<lparr>st_recorded := st_recorded t @ [now - s]\<rparr>)"

definition sampledTimer_Record :: "int \<Rightarrow> sampledTimer \<Rightarrow> (instrument_panic, sampledTimer) outcome" where
  "sampledTimer_Record d t =
     bind_outcome (shouldSample t) (\<lambda>(b, t). Ret (if b then t\<lparr>st_recorded := st_recorded t @ [d]\<rparr> else t))"

record MethodMetrics =
  mm_Errors :: int
  mm_Success :: int
  mm_ErrorsLatency :: sampledTimer
  mm_SuccessLatency :: sampledTimer

definition NewMethodMetrics :: "nat \<Rightarrow> float64 \<Rightarrow> (instrument_panic, MethodMetrics) outcome" where
  "NewMethodMetrics indef rate =
     bind_outcome (MustCreateSampledTimer indef rate) (\<lambda>e.
     bind_outcome (MustCreateSampledTimer indef rate) (\<lambda>s.
     Ret \<lparr>mm_Errors = 0, mm_Success = 0, mm_ErrorsLatency = e, mm_SuccessLatency = s\<rparr>))"

definition MethodMetrics_ReportSuccess :: "int \<Rightarrow> MethodMetrics \<Rightarrow> (instrument_panic, MethodMetrics) outcome" where
  "MethodMetrics_ReportSuccess d m =
     (let m = m\<lparr>mm_Success := mm_Success m + 1\<rparr>
      in bind_outcome (sampledTimer_Record d (mm_SuccessLatency m)) (\<lambda>t. Ret (m\<lparr>mm_SuccessLatency := t\<rparr>)))"

definition MethodMetrics_ReportError :: "int \<Rightarrow> MethodMetrics \<Rightarrow> (instrument_panic, MethodMetrics) outcome" where
  "MethodMetrics_ReportError d m =
     (let m = m\<lparr>mm_Errors := mm_Errors m + 1\<rparr>
      in bind_outcome (sampledTimer_Record d (mm_ErrorsLatency m)) (\<lambda>t. Ret (m\<lparr>mm_ErrorsLatency := t\<rparr>)))"

definition ReportSuccessOrError :: "'e option \<Rightarrow> int \<Rightarrow> MethodMetrics \<Rightarrow> (instrument_panic, MethodMetrics) outcome" where
  "ReportSuccessOrError e d m =
     (if e \<noteq> None then MethodMetrics_ReportError d m else MethodMetrics_ReportSuccess d m)"

record BatchMethodMetrics =
  bm_RetryableErrors :: int
  bm_NonRetryableErrors :: int
  bm_Errors :: int
  bm_Success :: int
  bm_Latency :: sampledTimer

definition NewBatchMethodMetrics :: "nat \<Rightarrow> float64 \<Rightarrow> (instrument_panic, BatchMethodMetrics) outcome" where
  "NewBatchMethodMetrics indef rate =
     bind_outcome (MustCreateSampledTimer indef rate) (\<lambda>t.
     Ret \<lparr>bm_RetryableErrors = 0, bm_NonRetryableErrors = 0, bm_Errors = 0, bm_Success = 0, bm_Latency = t\<rparr>)"

definition Batch_ReportSuccess :: "int \<Rightarrow> BatchMethodMetrics \<Rightarrow> BatchMethodMetrics" where
  "Batch_ReportSuccess n m = m\<lparr>bm_Success := bm_Success m + n\<rparr>"

definition ReportRetryableErrors :: "int \<Rightarrow> BatchMethodMetrics \<Rightarrow> BatchMethodMetrics" where
  "ReportRetryableErrors n m = m\<lparr>bm_RetryableErrors := bm_RetryableErrors m + n, bm_Errors := bm_Errors m + n\<rparr>"

definition ReportNonRetryableErrors :: "int \<Rightarrow> BatchMethodMetrics \<Rightarrow> BatchMethodMetrics" where
  "ReportNonRetryableErrors n m = m\<lparr>bm_NonRetryableErrors := bm_NonRetryableErrors m + n, bm_Errors := bm_Errors m + n\<rparr>"

definition ReportLatency :: "int \<Rightarrow> BatchMethodMetrics \<Rightarrow> (instrument_panic, BatchMethodMetrics) outcome" where
  "ReportLatency d m = bind_outcome (sampledTimer_Record d (bm_Latency m)) (\<lambda>t. Ret (m\<lparr>bm_Latency := t\<rparr>))"

section \<open>The periodic reporter\<close>

datatype reporterState = reporterStateNotStarted | reporterStateStarted | reporterStateStopped

datatype reporter_error =
  errReporterAlreadyStartedOrStopped | errReporterNotRunning | errReporterReportIntervalInvalid

text \<open>The goroutine of the reporter: not started, in its loop, sending on \<^verbatim>\<open>doneCh\<close>, and ended.\<close>

datatype reporter_routine = NoRoutine | Looping | SendingDone | Ended

record baseReporter =
  rp_state :: reporterState
  rp_interval :: int
  closeCh_closed :: bool
  routine :: reporter_routine
  stopping :: bool
  reports :: nat

definition reporter_init :: "int \<Rightarrow> baseReporter" where
  "reporter_init interval =
     \<lparr>rp_state = reporterStateNotStarted, rp_interval = interval, closeCh_closed = False, routine = NoRoutine,
      stopping = False, reports = 0\<rparr>"

text \<open>\<^verbatim>\<open>Start\<close> and \<^verbatim>\<open>Stop\<close> hold the lock; \<^verbatim>\<open>Stop\<close> holds it while it waits, so neither runs then.\<close>

definition reporter_Start :: "baseReporter \<Rightarrow> reporter_error option \<times> baseReporter" where
  "reporter_Start r =
     (if rp_state r \<noteq> reporterStateNotStarted then (Some errReporterAlreadyStartedOrStopped, r)
      else if rp_interval r \<le> 0 then (Some errReporterReportIntervalInvalid, r)
      else (None, r\<lparr>rp_state := reporterStateStarted, routine := Looping\<rparr>))"

definition reporter_Stop_begin :: "baseReporter \<Rightarrow> reporter_error option \<times> baseReporter" where
  "reporter_Stop_begin r =
     (if rp_state r \<noteq> reporterStateStarted then (Some errReporterNotRunning, r)
      else (None, r\<lparr>rp_state := reporterStateStopped, closeCh_closed := True, stopping := True\<rparr>))"

text \<open>The receive from \<^verbatim>\<open>doneCh\<close>, which meets the send of the goroutine.\<close>

definition reporter_Stop_end :: "baseReporter \<Rightarrow> baseReporter option" where
  "reporter_Stop_end r =
     (if stopping r \<and> routine r = SendingDone then Some (r\<lparr>stopping := False, routine := Ended\<rparr>) else None)"

definition routine_step :: "bool \<Rightarrow> baseReporter \<Rightarrow> baseReporter option" where
  "routine_step tick r =
     (if routine r \<noteq> Looping then None
      else if tick then Some (r\<lparr>reports := reports r + 1\<rparr>)
      else if closeCh_closed r then Some (r\<lparr>routine := SendingDone\<rparr>) else None)"

inductive reporter_reach :: "int \<Rightarrow> baseReporter \<Rightarrow> bool" for interval where
  init: "reporter_reach interval (reporter_init interval)"
| start: "reporter_reach interval r \<Longrightarrow> \<not> stopping r \<Longrightarrow> reporter_reach interval (snd (reporter_Start r))"
| stop: "reporter_reach interval r \<Longrightarrow> \<not> stopping r \<Longrightarrow> reporter_reach interval (snd (reporter_Stop_begin r))"
| stopped: "reporter_reach interval r \<Longrightarrow> reporter_Stop_end r = Some r' \<Longrightarrow> reporter_reach interval r'"
| routine: "reporter_reach interval r \<Longrightarrow> routine_step tick r = Some r' \<Longrightarrow> reporter_reach interval r'"

section \<open>Kinds of metrics\<close>

datatype ExtendedMetricsType = NoExtendedMetrics | SimpleExtendedMetrics | ModerateExtendedMetrics | DetailedExtendedMetrics

datatype MetricSanitizationType = NoMetricSanitization | M3MetricSanitization | PrometheusMetricSanitization

definition validExtendedMetricsTypes :: "ExtendedMetricsType list" where
  "validExtendedMetricsTypes = [NoExtendedMetrics, SimpleExtendedMetrics, ModerateExtendedMetrics, DetailedExtendedMetrics]"

definition validMetricSanitizationTypes :: "MetricSanitizationType list" where
  "validMetricSanitizationTypes = [NoMetricSanitization, M3MetricSanitization, PrometheusMetricSanitization]"

fun ExtendedMetricsType_String :: "ExtendedMetricsType \<Rightarrow> string" where
  "ExtendedMetricsType_String NoExtendedMetrics = ''none''"
| "ExtendedMetricsType_String SimpleExtendedMetrics = ''simple''"
| "ExtendedMetricsType_String ModerateExtendedMetrics = ''moderate''"
| "ExtendedMetricsType_String DetailedExtendedMetrics = ''detailed''"

fun MetricSanitizationType_String :: "MetricSanitizationType \<Rightarrow> string" where
  "MetricSanitizationType_String NoMetricSanitization = ''none''"
| "MetricSanitizationType_String M3MetricSanitization = ''m3''"
| "MetricSanitizationType_String PrometheusMetricSanitization = ''prometheus''"

text \<open>\<^verbatim>\<open>strings.Join\<close>, and the loop over the valid values with the accumulated names.\<close>

fun Join :: "string list \<Rightarrow> string \<Rightarrow> string" where
  "Join [] sep = ''''"
| "Join [x] sep = x"
| "Join (x # xs) sep = x @ sep @ Join xs sep"

fun find_valid :: "('t \<Rightarrow> string) \<Rightarrow> string \<Rightarrow> 't list \<Rightarrow> string list \<Rightarrow> string list + 't" where
  "find_valid show_t str [] strs = Inl strs"
| "find_valid show_t str (v # vs) strs =
     (if str = show_t v then Inr v else find_valid show_t str vs (strs @ [CHR 0x27 # show_t v @ [CHR 0x27]]))"

text \<open>
  \<^verbatim>\<open>UnmarshalYAML\<close> of both types, on the result of reading a string.  The names are appended to a slice that was
  made with the length, not the capacity, of the list of valid values.
\<close>

datatype unmarshal_error = UnmarshalError string | InvalidType string string

definition unmarshal_enum ::
    "('t \<Rightarrow> string) \<Rightarrow> 't list \<Rightarrow> 't \<Rightarrow> (string, string) result \<Rightarrow> (unmarshal_error, 't) result" where
  "unmarshal_enum show_t valid dflt input =
     (case input of
        Inl e \<Rightarrow> Inl (UnmarshalError e)
      | Inr str \<Rightarrow>
          if str = '''' then Inr dflt
          else (case find_valid show_t str valid (replicate (length valid) '''') of
                  Inr v \<Rightarrow> Inr v
                | Inl strs \<Rightarrow> Inl (InvalidType str (Join strs '', ''))))"

definition ExtendedMetricsType_UnmarshalYAML :: "(string, string) result \<Rightarrow> (unmarshal_error, ExtendedMetricsType) result" where
  "ExtendedMetricsType_UnmarshalYAML input =
     unmarshal_enum ExtendedMetricsType_String validExtendedMetricsTypes SimpleExtendedMetrics input"

definition MetricSanitizationType_UnmarshalYAML ::
    "(string, string) result \<Rightarrow> (unmarshal_error, MetricSanitizationType) result" where
  "MetricSanitizationType_UnmarshalYAML input =
     unmarshal_enum MetricSanitizationType_String validMetricSanitizationTypes NoMetricSanitization input"

text \<open>\<^verbatim>\<open>NewOptions\<close>: the sanitizers of the metrics libraries are parameters.\<close>

fun MetricSanitizationType_NewOptions :: "'s \<Rightarrow> 's \<Rightarrow> MetricSanitizationType \<Rightarrow> 's option" where
  "MetricSanitizationType_NewOptions m3 prom NoMetricSanitization = None"
| "MetricSanitizationType_NewOptions m3 prom M3MetricSanitization = Some m3"
| "MetricSanitizationType_NewOptions m3 prom PrometheusMetricSanitization = Some prom"

section \<open>The report of garbage collections\<close>

text \<open>\<open>pauseNs\<close> is the circular buffer of the last 256 pauses the runtime keeps.\<close>

record gc_metrics =
  lastNumGC :: "32 word"
  NumGC :: int
  GcPauseMs :: "int list"

function record_pauses :: "(nat \<Rightarrow> nat) \<Rightarrow> 32 word \<Rightarrow> 32 word \<Rightarrow> gc_metrics \<Rightarrow> gc_metrics" where
  "record_pauses pauseNs num i r =
     (if i = num then r
      else record_pauses pauseNs num (i + 1) (r\<lparr>GcPauseMs := GcPauseMs r @ [wrap64 (int (pauseNs (unat (i mod 256))))]\<rparr>))"
  by auto
termination
proof (relation "measure (\<lambda>(p, num, i, r). unat (num - i))")
  fix pauseNs :: "nat \<Rightarrow> nat" and num i :: "32 word" and r
  assume "i \<noteq> num"
  then have "num - i \<noteq> 0" by simp
  then have "unat (num - i - 1) < unat (num - i)" by (simp add: unat_minus_one unat_gt_0)
  then show "((pauseNs, num, i + 1, r\<lparr>GcPauseMs := GcPauseMs r @ [wrap64 (int (pauseNs (unat (i mod 256))))]\<rparr>),
      pauseNs, num, i, r) \<in> measure (\<lambda>(p, num, i, r). unat (num - i))" by (simp add: diff_diff_eq)
qed simp

declare record_pauses.simps [simp del]

definition report_gc :: "32 word \<Rightarrow> (nat \<Rightarrow> nat) \<Rightarrow> gc_metrics \<Rightarrow> gc_metrics" where
  "report_gc num pauseNs r =
     (let lastNum = lastNumGC r; r = r\<lparr>lastNumGC := num\<rparr>; delta = num - lastNum in
      if delta > 0 then
        (let r = r\<lparr>NumGC := NumGC r + uint delta\<rparr>;
             lastNum = (if delta > 255 then num - 256 else lastNum)
         in record_pauses pauseNs num lastNum r)
      else r)"

section \<open>Invariant violations\<close>

text \<open>\<open>setting\<close> is the value of the environment variable; a violation counts, logs and may panic.\<close>

definition panicIfEnvSetWithMessage :: "string \<Rightarrow> string \<Rightarrow> (instrument_panic, unit) outcome" where
  "panicIfEnvSetWithMessage setting msg =
     (if ToLower setting = ''true''
      then Panic (InvariantViolated (if msg = '''' then ''invariant violation detected'' else msg)) else Ret ())"

definition panicIfEnvSet :: "string \<Rightarrow> (instrument_panic, unit) outcome" where
  "panicIfEnvSet setting = panicIfEnvSetWithMessage setting ''''"

record violation_log =
  violated :: nat
  logged :: "string list"

definition EmitInvariantViolation ::
    "string \<Rightarrow> violation_log \<Rightarrow> (instrument_panic, unit) outcome \<times> violation_log" where
  "EmitInvariantViolation setting v = (let v = v\<lparr>violated := violated v + 1\<rparr> in (panicIfEnvSet setting, v))"

definition EmitAndLogInvariantViolation ::
    "string \<Rightarrow> (violation_log \<Rightarrow> violation_log) \<Rightarrow> violation_log \<Rightarrow> (instrument_panic, unit) outcome \<times> violation_log" where
  "EmitAndLogInvariantViolation setting f v =
     (case EmitInvariantViolation setting v of
        (Panic e, v) \<Rightarrow> (Panic e, v)
      | (Ret _, v) \<Rightarrow> (let v = f v in (panicIfEnvSet setting, v)))"

definition InvariantErrorf :: "string \<Rightarrow> string \<Rightarrow> (instrument_panic, string) outcome" where
  "InvariantErrorf setting msg =
     (let err = ''invariant_violated: '' @ msg
      in bind_outcome (panicIfEnvSetWithMessage setting err) (\<lambda>_. Ret err))"

section \<open>Options\<close>

record ('l, 'z, 's, 't) instrument_options =
  io_logger :: 'l
  io_zap :: 'z
  io_scope :: 's
  io_tracer :: "'t option"
  io_samplingRate :: float64
  io_reportInterval :: int

definition instrument_NewOptions :: "'l \<Rightarrow> 'z \<Rightarrow> 's \<Rightarrow> ('l, 'z, 's, 't) instrument_options" where
  "instrument_NewOptions logger zap scope =
     \<lparr>io_logger = logger, io_zap = zap, io_scope = scope, io_tracer = None, io_samplingRate = Fin 1,
      io_reportInterval = 1000000000\<rparr>"

definition SetLogger :: "('l, 'z, 's, 't) instrument_options \<Rightarrow> 'l \<Rightarrow> ('l, 'z, 's, 't) instrument_options" where
  "SetLogger opts v = opts\<lparr>io_logger := v\<rparr>"
definition Logger :: "('l, 'z, 's, 't) instrument_options \<Rightarrow> 'l" where "Logger opts = io_logger opts"
definition SetZapLogger :: "('l, 'z, 's, 't) instrument_options \<Rightarrow> 'z \<Rightarrow> ('l, 'z, 's, 't) instrument_options" where
  "SetZapLogger opts v = opts\<lparr>io_zap := v\<rparr>"
definition ZapLogger :: "('l, 'z, 's, 't) instrument_options \<Rightarrow> 'z" where "ZapLogger opts = io_zap opts"
definition SetMetricsScope :: "('l, 'z, 's, 't) instrument_options \<Rightarrow> 's \<Rightarrow> ('l, 'z, 's, 't) instrument_options" where
  "SetMetricsScope opts v = opts\<lparr>io_scope := v\<rparr>"
definition MetricsScope :: "('l, 'z, 's, 't) instrument_options \<Rightarrow> 's" where "MetricsScope opts = io_scope opts"
definition SetTracer :: "('l, 'z, 's, 't) instrument_options \<Rightarrow> 't option \<Rightarrow> ('l, 'z, 's, 't) instrument_options" where
  "SetTracer opts v = opts\<lparr>io_tracer := v\<rparr>"
definition Tracer :: "('l, 'z, 's, 't) instrument_options \<Rightarrow> 't option" where "Tracer opts = io_tracer opts"
definition SetMetricsSamplingRate ::
    "('l, 'z, 's, 't) instrument_options \<Rightarrow> float64 \<Rightarrow> ('l, 'z, 's, 't) instrument_options" where
  "SetMetricsSamplingRate opts v = opts\<lparr>io_samplingRate := v\<rparr>"
definition MetricsSamplingRate :: "('l, 'z, 's, 't) instrument_options \<Rightarrow> float64" where
  "MetricsSamplingRate opts = io_samplingRate opts"
definition SetReportInterval :: "('l, 'z, 's, 't) instrument_options \<Rightarrow> int \<Rightarrow> ('l, 'z, 's, 't) instrument_options" where
  "SetReportInterval opts v = opts\<lparr>io_reportInterval := v\<rparr>"
definition ReportInterval :: "('l, 'z, 's, 't) instrument_options \<Rightarrow> int" where
  "ReportInterval opts = io_reportInterval opts"

interpretation if_logger: option_field Logger SetLogger by unfold_locales (simp_all add: Logger_def SetLogger_def)
interpretation if_zap: option_field ZapLogger SetZapLogger by unfold_locales (simp_all add: ZapLogger_def SetZapLogger_def)
interpretation if_scope: option_field MetricsScope SetMetricsScope
  by unfold_locales (simp_all add: MetricsScope_def SetMetricsScope_def)
interpretation if_tracer: option_field Tracer SetTracer by unfold_locales (simp_all add: Tracer_def SetTracer_def)
interpretation if_rate: option_field MetricsSamplingRate SetMetricsSamplingRate
  by unfold_locales (simp_all add: MetricsSamplingRate_def SetMetricsSamplingRate_def)
interpretation if_interval: option_field ReportInterval SetReportInterval
  by unfold_locales (simp_all add: ReportInterval_def SetReportInterval_def)

record 'n clock_options =
  ck_nowFn :: 'n
  ck_maxPositiveSkew :: int
  ck_maxNegativeSkew :: int

definition clock_NewOptions :: "'n \<Rightarrow> 'n clock_options" where
  "clock_NewOptions now = \<lparr>ck_nowFn = now, ck_maxPositiveSkew = 0, ck_maxNegativeSkew = 0\<rparr>"
definition clock_SetNowFn :: "'n clock_options \<Rightarrow> 'n \<Rightarrow> 'n clock_options" where "clock_SetNowFn opts v = opts\<lparr>ck_nowFn := v\<rparr>"
definition clock_NowFn :: "'n clock_options \<Rightarrow> 'n" where "clock_NowFn opts = ck_nowFn opts"
definition SetMaxPositiveSkew :: "'n clock_options \<Rightarrow> int \<Rightarrow> 'n clock_options" where
  "SetMaxPositiveSkew opts v = opts\<lparr>ck_maxPositiveSkew := v\<rparr>"
definition MaxPositiveSkew :: "'n clock_options \<Rightarrow> int" where "MaxPositiveSkew opts = ck_maxPositiveSkew opts"
definition SetMaxNegativeSkew :: "'n clock_options \<Rightarrow> int \<Rightarrow> 'n clock_options" where
  "SetMaxNegativeSkew opts v = opts\<lparr>ck_maxNegativeSkew := v\<rparr>"
definition MaxNegativeSkew :: "'n clock_options \<Rightarrow> int" where "MaxNegativeSkew opts = ck_maxNegativeSkew opts"

interpretation cf_now: option_field clock_NowFn clock_SetNowFn
  by unfold_locales (simp_all add: clock_NowFn_def clock_SetNowFn_def)
interpretation cf_positive: option_field MaxPositiveSkew SetMaxPositiveSkew
  by unfold_locales (simp_all add: MaxPositiveSkew_def SetMaxPositiveSkew_def)
interpretation cf_negative: option_field MaxNegativeSkew SetMaxNegativeSkew
  by unfold_locales (simp_all add: MaxNegativeSkew_def SetMaxNegativeSkew_def)

text \<open>The configuration of the clock: a skew of zero leaves the default.\<close>

record clock_Configuration =
  cc_MaxPositiveSkew :: int
  cc_MaxNegativeSkew :: int

definition clock_Configuration_NewOptions :: "'n \<Rightarrow> clock_Configuration \<Rightarrow> 'n clock_options" where
  "clock_Configuration_NewOptions now c =
     (let os = clock_NewOptions now;
          os = (if cc_MaxPositiveSkew c \<noteq> 0 then SetMaxPositiveSkew os (cc_MaxPositiveSkew c) else os)
      in if cc_MaxNegativeSkew c \<noteq> 0 then SetMaxNegativeSkew os (cc_MaxNegativeSkew c) else os)"

section \<open>Lemmas\<close>

lemma clock_Configuration_skews:
  "MaxPositiveSkew (clock_Configuration_NewOptions now c) = cc_MaxPositiveSkew c"
  "MaxNegativeSkew (clock_Configuration_NewOptions now c) = cc_MaxNegativeSkew c"
  by (simp_all add: clock_Configuration_NewOptions_def clock_NewOptions_def MaxPositiveSkew_def MaxNegativeSkew_def
      SetMaxPositiveSkew_def SetMaxNegativeSkew_def Let_def)

text \<open>The pauses that are recorded: those of the last collections, at most 256.\<close>

lemma record_pauses_list:
  "record_pauses pauseNs num i r =
     r\<lparr>GcPauseMs := GcPauseMs r @ map (\<lambda>k. wrap64 (int (pauseNs ((unat i + k) mod 256)))) [0..<unat (num - i)]\<rparr>"
proof (induction pauseNs num i r rule: record_pauses.induct)
  case (1 pauseNs num i r)
  show ?case
  proof (cases "i = num")
    case True
    then show ?thesis by (simp add: record_pauses.simps)
  next
    case False
    then have n: "unat (num - i) = Suc (unat (num - (i + 1)))"
      using unat_minus_one [of "num - i"] unat_gt_0 [of "num - i"] by (simp add: diff_diff_eq)
    have m: "(unat (i + 1) + k) mod 256 = (unat i + Suc k) mod 256" for k
    proof -
      have "unat (i + 1) mod 256 = (unat i + 1) mod 256"
        by (simp add: unat_word_ariths mod_mod_cancel)
      then show ?thesis by (metis add.assoc add_Suc_right mod_add_left_eq plus_1_eq_Suc)
    qed
    have "unat (i mod 256) = unat i mod 256" by (simp add: unat_mod)
    then show ?thesis
      using 1 False by (subst record_pauses.simps) (simp add: n m upt_conv_Cons map_Suc_upt [symmetric] del: upt_Suc)
  qed
qed

lemma report_gc_spec:
  "report_gc num pauseNs r =
     r\<lparr>lastNumGC := num, NumGC := NumGC r + uint (num - lastNumGC r),
       GcPauseMs := GcPauseMs r @ (let n = min 256 (unat (num - lastNumGC r)) in
         map (\<lambda>k. wrap64 (int (pauseNs ((unat (num - of_nat n) + k) mod 256)))) [0..<n])\<rparr>"
proof -
  let ?d = "num - lastNumGC r"
  consider (none) "?d = 0" | (few) "?d \<noteq> 0" "\<not> ?d > 255" | (many) "?d > 255" by blast
  then show ?thesis
  proof cases
    case none
    then show ?thesis by (simp add: report_gc_def)
  next
    case few
    then have "unat ?d \<le> 255" by (simp add: word_le_nat_alt not_less)
    moreover have "0 < ?d" using few(1) by (simp only: word_gt_0 not_False_eq_True)
    ultimately show ?thesis using few(2) by (simp add: report_gc_def Let_def record_pauses_list min_def)
  next
    case many
    then have "255 < unat ?d" by (simp add: word_less_nat_alt)
    moreover have "0 < ?d" using many by (simp add: order_le_less_trans [OF word_zero_le])
    ultimately show ?thesis using many by (simp add: report_gc_def Let_def record_pauses_list min_def)
  qed
qed

text \<open>Every name of a valid value is read back as the value, and nothing else but the empty string is accepted.\<close>

lemma find_valid_iff:
  "inj_on show_t (set vs) \<Longrightarrow> (\<exists>strs'. find_valid show_t str vs strs = Inl strs') \<and> str \<notin> show_t ` set vs \<or>
     (\<exists>v\<in>set vs. find_valid show_t str vs strs = Inr v \<and> show_t v = str)"
  by (induction vs arbitrary: strs) (auto simp: inj_on_def)

lemma ExtendedMetricsType_roundtrip: "ExtendedMetricsType_UnmarshalYAML (Inr (ExtendedMetricsType_String t)) = Inr t"
  by (cases t) (simp_all add: ExtendedMetricsType_UnmarshalYAML_def unmarshal_enum_def validExtendedMetricsTypes_def)

lemma MetricSanitizationType_roundtrip: "MetricSanitizationType_UnmarshalYAML (Inr (MetricSanitizationType_String t)) = Inr t"
  by (cases t) (simp_all add: MetricSanitizationType_UnmarshalYAML_def unmarshal_enum_def validMetricSanitizationTypes_def)

text \<open>The message for an unknown value lists as many empty names as there are valid values before the names.\<close>

lemma MetricSanitizationType_message:
  "MetricSanitizationType_UnmarshalYAML (Inr ''x'') = Inl (InvalidType ''x''
     ('', , , '' @ [CHR 0x27] @ ''none'' @ [CHR 0x27] @ '', '' @ [CHR 0x27] @ ''m3'' @ [CHR 0x27] @ '', '' @
      [CHR 0x27] @ ''prometheus'' @ [CHR 0x27]))"
  by (simp add: MetricSanitizationType_UnmarshalYAML_def unmarshal_enum_def validMetricSanitizationTypes_def numeral_3_eq_3)

text \<open>
  The reporter: the goroutine runs exactly between \<^verbatim>\<open>Start\<close> and the end of \<^verbatim>\<open>Stop\<close>, so a reporter whose \<^verbatim>\<open>Stop\<close> has
  returned does not report again, and a waiting \<^verbatim>\<open>Stop\<close> can always be brought to its end.
\<close>

definition reporter_inv :: "baseReporter \<Rightarrow> bool" where
  "reporter_inv r \<longleftrightarrow>
     (rp_state r = reporterStateNotStarted \<longrightarrow> routine r = NoRoutine \<and> \<not> closeCh_closed r \<and> \<not> stopping r) \<and>
     (rp_state r = reporterStateStarted \<longrightarrow> routine r = Looping \<and> \<not> closeCh_closed r \<and> \<not> stopping r \<and> 0 < rp_interval r) \<and>
     (rp_state r = reporterStateStopped \<longrightarrow> closeCh_closed r \<and> (stopping r \<longleftrightarrow> routine r \<in> {Looping, SendingDone}) \<and>
        routine r \<noteq> NoRoutine)"

lemma reporter_reach_inv: "reporter_reach interval r \<Longrightarrow> reporter_inv r"
proof (induction rule: reporter_reach.induct)
  case init
  show ?case by (simp add: reporter_init_def reporter_inv_def)
next
  case (start r)
  then show ?case by (auto simp: reporter_Start_def reporter_inv_def)
next
  case (stop r)
  then show ?case by (auto simp: reporter_Stop_begin_def reporter_inv_def)
next
  case (stopped r r')
  then show ?case by (cases "rp_state r") (auto simp: reporter_Stop_end_def reporter_inv_def split: if_splits)
next
  case (routine r tick r')
  then show ?case by (cases "rp_state r") (auto simp: routine_step_def reporter_inv_def split: if_splits)
qed

lemma reporter_Stop_returns:
  assumes "reporter_reach interval r" and "stopping r"
  shows "\<exists>r1 r2. (r1 = r \<or> routine_step False r = Some r1) \<and> reporter_Stop_end r1 = Some r2 \<and> \<not> stopping r2"
proof -
  note inv = reporter_reach_inv [OF assms(1), unfolded reporter_inv_def]
  have "rp_state r = reporterStateStopped" using inv assms(2) by (cases "rp_state r") simp_all
  with inv assms(2) have c: "closeCh_closed r" "routine r = Looping \<or> routine r = SendingDone" by simp_all
  from c(2) show ?thesis
  proof
    assume "routine r = Looping"
    with c assms(2) have "routine_step False r = Some (r\<lparr>routine := SendingDone\<rparr>)"
      "reporter_Stop_end (r\<lparr>routine := SendingDone\<rparr>) = Some (r\<lparr>routine := Ended, stopping := False\<rparr>)"
      by (simp_all add: routine_step_def reporter_Stop_end_def)
    then show ?thesis by fastforce
  next
    assume "routine r = SendingDone"
    with assms(2) have "reporter_Stop_end r = Some (r\<lparr>stopping := False, routine := Ended\<rparr>)"
      by (simp add: reporter_Stop_end_def)
    then show ?thesis by fastforce
  qed
qed

lemma reporter_quiet_after_Stop:
  assumes "reporter_reach interval r" and "rp_state r = reporterStateStopped" and "\<not> stopping r"
  shows "routine_step tick r = None" and "fst (reporter_Start r) = Some errReporterAlreadyStartedOrStopped"
  using reporter_reach_inv [OF assms(1)] assms(2,3)
  by (auto simp: reporter_inv_def routine_step_def reporter_Start_def)

section \<open>Properties\<close>

lemma float_div_one_ge:
  assumes "0 < r" and "r < 1" and "float_div (Fin 1) (Fin r) = Fin x"
  shows "1 \<le> x"
proof -
  have "1 \<le> 1 / r" using assms(1,2) by simp
  then have "1 \<le> round_pos (1 / r)" using assms(1) round_pos_ge [of "1 / r" 1 0] by simp
  then show ?thesis using assms by (auto simp: round64_def split: if_splits)
qed

lemma Sample_nonneg:
  assumes "0 < sampleEvery t" and "0 \<le> numTried t" and "numTried t < 2 ^ 31"
  shows "Sample t = Ret (sampleEvery t dvd numTried t, t\<lparr>numTried := wrap32 (numTried t + 1)\<rparr>)"
proof -
  have "wrap32 (wrap32 (numTried t + 1) - 1) = numTried t"
    using assms by (simp add: wrap32_id int32_ok_iff)
  with assms show ?thesis by (simp add: Sample_def smod_nonneg dvd_eq_mod_eq_0)
qed

lemma sample_n_pattern:
  "0 < sampleEvery t \<Longrightarrow> 0 \<le> numTried t \<Longrightarrow> numTried t + int n < 2 ^ 31 \<Longrightarrow>
   sample_n n t = Ret (map (\<lambda>k. sampleEvery t dvd numTried t + int k) [0..<n], t\<lparr>numTried := numTried t + int n\<rparr>)"
proof (induction n arbitrary: t)
  case (Suc n)
  have w: "wrap32 (numTried t + 1) = numTried t + 1" using Suc.prems by (simp add: wrap32_id int32_ok_iff)
  have "numTried t < 2 ^ 31" using Suc.prems(3) by simp
  note s = Sample_nonneg [OF Suc.prems(1,2) this, unfolded w]
  let ?t = "t\<lparr>numTried := numTried t + 1\<rparr>"
  have "sample_n n ?t = Ret (map (\<lambda>k. sampleEvery t dvd numTried t + 1 + int k) [0..<n], ?t\<lparr>numTried := numTried ?t + int n\<rparr>)"
    using Suc.IH [of ?t] Suc.prems by simp
  with s show ?case
    by (simp add: upt_conv_Cons map_Suc_upt [symmetric] add.assoc del: upt_Suc)
qed simp

lemma count_multiples:
  "0 < (m::nat) \<Longrightarrow> length (filter (\<lambda>k. m dvd k) [0..<n]) = (n + m - 1) div m"
proof (induction n)
  case (Suc n)
  show ?case
  proof (cases "m dvd n")
    case True
    then obtain q where "n = m * q" by blast
    have "(m * q + m - 1) div m = q" "(Suc (m * q) + m - 1) div m = q + 1"
      by (rule div_nat_eqI; use Suc.prems in simp)+
    with Suc \<open>n = m * q\<close> show ?thesis by simp
  next
    case False
    define q p where "q = n div m" and "p = n mod m"
    have n: "n = m * q + p" "0 < p" "p < m" using False Suc.prems by (simp_all add: q_def p_def dvd_eq_mod_eq_0)
    have "(n + m - 1) div m = q + 1" "(Suc n + m - 1) div m = q + 1"
      by (rule div_nat_eqI; use n in simp)+
    with Suc False show ?thesis by simp
  qed
qed simp



end
