(* ===== verification/Config.thy ===== *)
theory Config
  imports Server
begin

text \<open>
  Configuration: the packages \<^verbatim>\<open>config/hostid\<close> and \<^verbatim>\<open>config/listenaddress\<close>, which resolve a host and an address, and the configuration
  of a server (\<^verbatim>\<open>server/config.go\<close>).  The host name, the environment and the file system are parameters; decoding
  YAML is not modelled, a configuration is the decoded struct and a nil pointer is \<^const>\<open>None\<close>.
\<close>

section \<open>Host identifiers\<close>

record FileConfig =
  fc_Path :: string
  fc_Timeout :: "int option"

record hostid_Configuration =
  hc_Resolver :: string
  hc_Value :: "string option"
  hc_EnvVarName :: "string option"
  hc_File :: "FileConfig option"

datatype id_resolver =
  hostnameResolver | configResolver "string option" | environmentResolver "string option" | file_resolver string int "int option"

definition hostid_resolver :: "hostid_Configuration \<Rightarrow> (string, id_resolver) result" where
  "hostid_resolver c =
     (if hc_Resolver c = ''hostname'' then Inr hostnameResolver
      else if hc_Resolver c = ''config'' then Inr (configResolver (hc_Value c))
      else if hc_Resolver c = ''environment'' then Inr (environmentResolver (hc_EnvVarName c))
      else if hc_Resolver c = ''file'' then
        (case hc_File c of
           None \<Rightarrow> Inl ''file config cannot be nil''
         | Some f \<Rightarrow> Inr (file_resolver (fc_Path f) 0 (fc_Timeout f)))
      else Inl (''unknown host ID resolver: resolver='' @ hc_Resolver c))"

text \<open>\<^verbatim>\<open>strings.TrimSpace\<close> on the ASCII white space.\<close>

definition is_space :: "char \<Rightarrow> bool" where
  "is_space c \<longleftrightarrow> of_char c \<in> {9, 10, 11, 12, 13, 32 :: nat}"

definition TrimSpace :: "string \<Rightarrow> string" where
  "TrimSpace s = rev (dropWhile is_space (rev (dropWhile is_space s)))"

text \<open>The closure \<^verbatim>\<open>checkF\<close> on the result of opening and reading the file.\<close>

definition check_file :: "(string, string) result \<Rightarrow> (string, string) result" where
  "check_file contents =
     (case contents of
        Inl e \<Rightarrow> Inl e
      | Inr data \<Rightarrow> (let val = TrimSpace data in if val = '''' then Inl ''host ID file is empty'' else Inr val))"

definition defaultFileCheckInterval :: int where "defaultFileCheckInterval = 1000000000"

text \<open>
  The loop: each round reads the clock and, before the timeout, the file.  \<open>rounds\<close> lists the elapsed time and
  the file of each round; \<^const>\<open>None\<close> when the loop still runs after them.  The second component is the time slept.
\<close>

fun wait_file ::
    "int \<Rightarrow> int \<Rightarrow> string \<Rightarrow> (int \<times> (string, string) result) list \<Rightarrow> int \<Rightarrow> ((string, string) result \<times> int) option" where
  "wait_file interval timeout failure [] slept = None"
| "wait_file interval timeout failure ((elapsed, contents) # rounds) slept =
     (if elapsed < timeout then
        (case check_file contents of
           Inr v \<Rightarrow> Some (Inr v, slept)
         | Inl e \<Rightarrow> wait_file interval timeout failure rounds (slept + interval))
      else Some (Inl failure, slept))"

text \<open>\<open>show_timeout\<close> prints the timeout in the message.  The result carries the time slept.\<close>

definition file_ID ::
    "string \<Rightarrow> string \<Rightarrow> int \<Rightarrow> int option \<Rightarrow> (int \<times> (string, string) result) list \<Rightarrow> ((string, string) result \<times> int) option" where
  "file_ID show_timeout path interval timeout rounds =
     (case timeout of
        None \<Rightarrow> (case rounds of [] \<Rightarrow> None | (elapsed, contents) # _ \<Rightarrow> Some (check_file contents, 0))
      | Some t \<Rightarrow>
          (let interval = (if interval = 0 then defaultFileCheckInterval else interval)
           in wait_file interval t (''did not find value in '' @ path @ '' within '' @ show_timeout) rounds 0))"

definition configResolver_ID :: "string option \<Rightarrow> (string, string) result" where
  "configResolver_ID v = (case v of None \<Rightarrow> Inl ''missing host ID using: resolver=config'' | Some s \<Rightarrow> Inr s)"

definition environmentResolver_ID :: "(string \<Rightarrow> string) \<Rightarrow> string option \<Rightarrow> (string, string) result" where
  "environmentResolver_ID getenv name =
     (case name of
        None \<Rightarrow> Inl ''missing host ID env var name using: resolver=environment''
      | Some n \<Rightarrow>
          (let v = getenv n in
           if v = '''' then Inl (''missing host ID env var value using: resolver=environment, name='' @ n) else Inr v))"

definition hostid_Resolve ::
    "(string, string) result \<Rightarrow> (string \<Rightarrow> string) \<Rightarrow> string \<Rightarrow> (int \<times> (string, string) result) list \<Rightarrow> hostid_Configuration \<Rightarrow>
     (string, string) result option" where
  "hostid_Resolve hostname getenv show_timeout rounds c =
     (case hostid_resolver c of
        Inl e \<Rightarrow> Some (Inl e)
      | Inr hostnameResolver \<Rightarrow> Some hostname
      | Inr (configResolver v) \<Rightarrow> Some (configResolver_ID v)
      | Inr (environmentResolver n) \<Rightarrow> Some (environmentResolver_ID getenv n)
      | Inr (file_resolver path interval timeout) \<Rightarrow> map_option fst (file_ID show_timeout path interval timeout rounds))"

section \<open>Listen addresses\<close>

record listen_Configuration =
  la_Type :: string
  la_Value :: "string option"
  la_EnvVarListenPort :: "string option"
  la_EnvVarListenHost :: "string option"

definition defaultHostname :: string where "defaultHostname = ''0.0.0.0''"

text \<open>\<^verbatim>\<open>strconv.Atoi\<close>: an optional sign and decimal digits, in the range of \<^verbatim>\<open>int\<close>.\<close>

definition is_digit :: "char \<Rightarrow> bool" where "is_digit c \<longleftrightarrow> 48 \<le> (of_char c :: nat) \<and> of_char c \<le> (57 :: nat)"

definition digits_value :: "string \<Rightarrow> nat" where
  "digits_value s = foldl (\<lambda>a c. 10 * a + (of_char c - 48)) 0 s"

definition Atoi :: "string \<Rightarrow> int option" where
  "Atoi s =
     (let (neg, ds) = (case s of c # cs \<Rightarrow> if c = CHR ''-'' then (True, cs) else if c = CHR ''+'' then (False, cs) else (False, s)
                       | [] \<Rightarrow> (False, []));
          v = (if neg then - int (digits_value ds) else int (digits_value ds))
      in if ds \<noteq> [] \<and> list_all is_digit ds \<and> int64_ok v then Some v else None)"

definition listen_Resolve :: "(string \<Rightarrow> string) \<Rightarrow> listen_Configuration \<Rightarrow> (string, string) result" where
  "listen_Resolve getenv c =
     (if la_Type c = ''config'' then
        (case la_Value c of
           None \<Rightarrow> Inl (''missing listen address value using: resolver='' @ la_Type c)
         | Some v \<Rightarrow> Inr v)
      else if la_Type c = ''environment'' then
        (case la_EnvVarListenPort c of
           None \<Rightarrow> Inl (''missing port env var name using: resolver='' @ la_Type c)
         | Some name \<Rightarrow>
             (case Atoi (getenv name) of
                None \<Rightarrow> Inl (''invalid port env var value using: resolver='' @ la_Type c @ '', name='' @ name)
              | Some port \<Rightarrow>
                  (case la_EnvVarListenHost c of
                     None \<Rightarrow> Inr (defaultHostname @ '':'' @ Itoa port)
                   | Some host \<Rightarrow> Inr (getenv host @ '':'' @ Itoa port))))
      else Inl (''unknown listen address type: resolver='' @ la_Type c))"

section \<open>Servers\<close>

record server_Configuration =
  sc_ListenAddress :: string
  sc_Retry :: retry_Configuration
  sc_KeepAliveEnabled :: "bool option"
  sc_KeepAlivePeriod :: "int option"

text \<open>\<open>noop\<close> and \<open>int63n\<close> are the defaults of the retry options, \<open>scope\<close> the scope of the instrument options.\<close>

definition server_Configuration_NewOptions ::
    "'c \<Rightarrow> 's rng_fn \<Rightarrow> 'i \<Rightarrow> server_Configuration \<Rightarrow> ('i \<Rightarrow> 'c) \<Rightarrow> 'i \<Rightarrow> ('i, ('c, 's) retry_options) server_options" where
  "server_Configuration_NewOptions noop int63n iDefault c scope iOpts =
     (let opts = server_SetInstrumentOptions
                   (server_SetRetryOptions (server_NewOptions iDefault (retry_NewOptions noop int63n))
                      (Configuration_NewOptions noop int63n (sc_Retry c) (scope iOpts))) iOpts;
          opts = (case sc_KeepAliveEnabled c of Some v \<Rightarrow> SetTCPConnectionKeepAlive opts v | None \<Rightarrow> opts)
      in (case sc_KeepAlivePeriod c of Some v \<Rightarrow> SetTCPConnectionKeepAlivePeriod opts v | None \<Rightarrow> opts))"

definition server_Configuration_NewServer ::
    "'c \<Rightarrow> 's rng_fn \<Rightarrow> 'i \<Rightarrow> server_Configuration \<Rightarrow> ('i \<Rightarrow> 'c) \<Rightarrow> 'i \<Rightarrow> 'd server" where
  "server_Configuration_NewServer noop int63n iDefault c scope iOpts =
     NewServer (sc_ListenAddress c) (server_Configuration_NewOptions noop int63n iDefault c scope iOpts)"

section \<open>Lemmas\<close>

lemma is_digit_char [simp]: "k < 10 \<Longrightarrow> is_digit (digit_char k)"
  by (simp add: is_digit_def)

lemma digits_value_snoc: "digits_value (s @ [c]) = 10 * digits_value s + (of_char c - 48)"
  by (simp add: digits_value_def)

lemma digits_value_dec: "digits_value (dec n) = n"
proof (induction n rule: dec.induct)
  case (1 n)
  then show ?case by (cases "n < 10") (simp_all add: dec.simps [of n] digits_value_snoc, simp add: digits_value_def)
qed

text \<open>A port that was printed by \<^verbatim>\<open>strconv.Itoa\<close> reads back.\<close>

lemma Atoi_Itoa: "int64_ok x \<Longrightarrow> Atoi (Itoa x) = Some x"
proof -
  assume x: "int64_ok x"
  have d: "list_all is_digit (dec n)" for n by (force simp: list_all_iff dest: dec_digits)
  show ?thesis
  proof (cases "x < 0")
    case True
    with x d show ?thesis by (simp add: Atoi_def Itoa_def digits_value_dec)
  next
    case False
    obtain c cs where c: "dec (nat x) = c # cs" using dec_nonempty by (metis list.exhaust)
    then have "is_digit c" using d [of "nat x"] by simp
    then have "c \<noteq> CHR ''-''" "c \<noteq> CHR ''+''" by (auto simp: is_digit_def)
    with False x c d [of "nat x"] digits_value_dec [of "nat x"] show ?thesis by (simp add: Atoi_def Itoa_def)
  qed
qed

text \<open>The wait ends at the first file that holds an identifier, if that is before the timeout, and otherwise at the timeout.\<close>

lemma wait_file_found:
  assumes "\<forall>(t, f)\<in>set before. t < timeout \<and> (\<exists>e. check_file f = Inl e)" and "t < timeout" and "check_file f = Inr v"
  shows "wait_file interval timeout failure (before @ (t, f) # later) n = Some (Inr v, n + interval * int (length before))"
  using assms by (induction before arbitrary: n) (auto simp: algebra_simps)

lemma wait_file_timeout:
  assumes "\<forall>(t, f)\<in>set before. t < timeout \<and> (\<exists>e. check_file f = Inl e)" and "timeout \<le> t"
  shows "wait_file interval timeout failure (before @ (t, f) # later) n = Some (Inl failure, n + interval * int (length before))"
  using assms by (induction before arbitrary: n) (auto simp: algebra_simps)

lemma check_file_Inr: "check_file f = Inr v \<Longrightarrow> v \<noteq> '''' \<and> TrimSpace v = v"
proof -
  assume "check_file f = Inr v"
  then obtain d where v: "v = TrimSpace d" "v \<noteq> ''''" by (auto simp: check_file_def Let_def split: sum.splits if_splits)
  define u where "u = dropWhile is_space d"
  have r: "v = rev (dropWhile is_space (rev u))" using v by (simp add: TrimSpace_def u_def)
  have "\<not> is_space (last v)" using v(2) r hd_dropWhile [of is_space "rev u"] by (simp add: last_rev)
  moreover have "\<not> is_space (hd v)"
  proof -
    have "u \<noteq> []" using v(2) r by auto
    then have "\<not> is_space (hd u)" unfolding u_def by (rule hd_dropWhile)
    moreover obtain w where "u = v @ w" using r by (metis rev_append rev_rev_ident takeWhile_dropWhile_id)
    ultimately show ?thesis using v(2) by simp
  qed
  moreover have "dropWhile is_space (x # xs) = x # xs" if "\<not> is_space x" for x xs using that by simp
  ultimately have "dropWhile is_space v = v" "dropWhile is_space (rev v) = rev v"
    using v(2) by (metis hd_Cons_tl, metis hd_Cons_tl hd_rev rev_is_Nil_conv)
  then show ?thesis using v(2) by (simp add: TrimSpace_def)
qed

end
