(* ===== verification/ArrayPools.thy ===== *)
theory ArrayPools
  imports Context Ident
begin

text \<open>
  The generic pools of \<^verbatim>\<open>generics/arraypool\<close> and \<^verbatim>\<open>generics/leakcheckpool\<close>, and the two generated array pools, of tags
  (\<^verbatim>\<open>ident/tag_arraypool_gen.go\<close>) and of finalizers (\<^verbatim>\<open>context/finalizeables_arraypool_gen.go\<close>), which are the generic pool at
  these element types.
\<close>

section \<open>Array pool\<close>

text \<open>A slice: the array from its start to its capacity, and the length.  \<open>zero\<close> is the zero value of the element type.\<close>

record 'e elemArr =
  abuf :: "'e list"
  alen :: nat

definition acap :: "'e elemArr \<Rightarrow> nat" where "acap a = length (abuf a)"

record ('io, 'e) elemArrayPoolOpts =
  ao_Options :: "'io objectPoolOptions option"
  ao_Capacity :: int
  ao_MaxCapacity :: int
  ao_FinalizeFn :: "('e elemArr \<Rightarrow> 'e elemArr) option"

record ('io, 'e) elemArrPool =
  ap_Capacity :: int
  ap_MaxCapacity :: int
  ap_FinalizeFn :: "'e elemArr \<Rightarrow> 'e elemArr"
  ap_pool :: "('io, unit, 'e elemArr) objectPool"

fun clear_elems :: "'e \<Rightarrow> nat \<Rightarrow> 'e list \<Rightarrow> 'e list" where
  "clear_elems zero 0 xs = xs"
| "clear_elems zero (Suc n) xs = clear_elems zero n (xs[n := zero])"

definition defaultElemFinalizerFn :: "'e \<Rightarrow> 'e elemArr \<Rightarrow> 'e elemArr" where
  "defaultElemFinalizerFn zero elems = \<lparr>abuf = clear_elems zero (alen elems) (abuf elems), alen = 0\<rparr>"

definition newElemArrayPool ::
    "int \<Rightarrow> 'io \<Rightarrow> 'e \<Rightarrow> ('io, 'e) elemArrayPoolOpts \<Rightarrow> (pool_panic, ('io, 'e) elemArrPool) outcome" where
  "newElemArrayPool indef dflt zero aopts =
     (let finalize_fn = (case ao_FinalizeFn aopts of None \<Rightarrow> defaultElemFinalizerFn zero | Some f \<Rightarrow> f)
      in bind_outcome (NewObjectPool indef dflt (ao_Options aopts)) (\<lambda>p.
           Ret \<lparr>ap_Capacity = ao_Capacity aopts, ap_MaxCapacity = ao_MaxCapacity aopts, ap_FinalizeFn = finalize_fn, ap_pool = p\<rparr>))"

definition make_elems :: "'e \<Rightarrow> int \<Rightarrow> (unit, 'e elemArr) allocator" where
  "make_elems zero capacity s =
     (if capacity < 0 then (Panic MakeSize, s) else (Ret \<lparr>abuf = replicate (nat capacity) zero, alen = 0\<rparr>, s))"

definition elemArrPool_Init :: "'e \<Rightarrow> ('io, 'e) elemArrPool \<Rightarrow> (pool_panic, unit) outcome \<times> ('io, 'e) elemArrPool" where
  "elemArrPool_Init zero p =
     (case objectPool_Init (make_elems zero (ap_Capacity p)) (ap_pool p) () of (x, q, _) \<Rightarrow> (x, p\<lparr>ap_pool := q\<rparr>))"

definition elemArrPool_Get :: "('io, 'e) elemArrPool \<Rightarrow> (pool_panic, 'e elemArr) outcome \<times> ('io, 'e) elemArrPool" where
  "elemArrPool_Get p = (case objectPool_Get (ap_pool p) () of (x, q, _) \<Rightarrow> (x, p\<lparr>ap_pool := q\<rparr>))"

definition elemArrPool_Put :: "'e elemArr \<Rightarrow> ('io, 'e) elemArrPool \<Rightarrow> (pool_panic, unit) outcome \<times> ('io, 'e) elemArrPool" where
  "elemArrPool_Put arr p =
     (let arr = ap_FinalizeFn p arr in
      if ap_MaxCapacity p > 0 \<and> int (acap arr) > ap_MaxCapacity p then (Ret (), p)
      else (case objectPool_Put arr (ap_pool p) () of (x, q, _) \<Rightarrow> (x, p\<lparr>ap_pool := q\<rparr>)))"

text \<open>\<^verbatim>\<open>grow\<close>: slicing to a negative length panics.\<close>

datatype array_panic = NegativeSlice

definition elemArr_grow :: "'e \<Rightarrow> int \<Rightarrow> 'e elemArr \<Rightarrow> (array_panic, 'e elemArr) outcome" where
  "elemArr_grow zero n elems =
     (if n < 0 then Panic NegativeSlice
      else
        (let elems = (if int (acap elems) < n then \<lparr>abuf = replicate (nat n) zero, alen = nat n\<rparr> else elems);
             elems = elems\<lparr>alen := nat n\<rparr>
         in Ret (elems\<lparr>abuf := clear_elems zero (alen elems) (abuf elems)\<rparr>)))"

section \<open>The generated array pools\<close>

definition newTagArrayPool :: "int \<Rightarrow> 'io \<Rightarrow> ('io, Tag) elemArrayPoolOpts \<Rightarrow> (pool_panic, ('io, Tag) elemArrPool) outcome" where
  "newTagArrayPool indef dflt aopts = newElemArrayPool indef dflt empty_Tag aopts"

definition tagArrPool_Init :: "('io, Tag) elemArrPool \<Rightarrow> (pool_panic, unit) outcome \<times> ('io, Tag) elemArrPool" where
  "tagArrPool_Init p = elemArrPool_Init empty_Tag p"

definition tagArrPool_Get :: "('io, Tag) elemArrPool \<Rightarrow> (pool_panic, Tag elemArr) outcome \<times> ('io, Tag) elemArrPool" where
  "tagArrPool_Get p = elemArrPool_Get p"

definition tagArrPool_Put :: "Tag elemArr \<Rightarrow> ('io, Tag) elemArrPool \<Rightarrow> (pool_panic, unit) outcome \<times> ('io, Tag) elemArrPool" where
  "tagArrPool_Put arr p = elemArrPool_Put arr p"

definition defaultTagFinalizerFn :: "Tag elemArr \<Rightarrow> Tag elemArr" where
  "defaultTagFinalizerFn elems = defaultElemFinalizerFn empty_Tag elems"

definition tagArr_grow :: "int \<Rightarrow> Tag elemArr \<Rightarrow> (array_panic, Tag elemArr) outcome" where
  "tagArr_grow n elems = elemArr_grow empty_Tag n elems"

text \<open>The zero value of a finalizer has neither a finalizer nor a closer.\<close>

definition empty_finalizeable :: "'x finalizeable" where
  "empty_finalizeable = \<lparr>f_finalizer = None, f_closer = None\<rparr>"

definition newFinalizeablesArrayPool ::
    "int \<Rightarrow> 'io \<Rightarrow> ('io, 'x finalizeable) elemArrayPoolOpts \<Rightarrow> (pool_panic, ('io, 'x finalizeable) elemArrPool) outcome" where
  "newFinalizeablesArrayPool indef dflt aopts = newElemArrayPool indef dflt empty_finalizeable aopts"

definition finalizeablesArrPool_Init ::
    "('io, 'x finalizeable) elemArrPool \<Rightarrow> (pool_panic, unit) outcome \<times> ('io, 'x finalizeable) elemArrPool" where
  "finalizeablesArrPool_Init p = elemArrPool_Init empty_finalizeable p"

definition finalizeablesArrPool_Get ::
    "('io, 'x finalizeable) elemArrPool \<Rightarrow> (pool_panic, 'x finalizeable elemArr) outcome \<times> ('io, 'x finalizeable) elemArrPool" where
  "finalizeablesArrPool_Get p = elemArrPool_Get p"

definition finalizeablesArrPool_Put ::
    "'x finalizeable elemArr \<Rightarrow> ('io, 'x finalizeable) elemArrPool \<Rightarrow> (pool_panic, unit) outcome \<times> ('io, 'x finalizeable) elemArrPool" where
  "finalizeablesArrPool_Put arr p = elemArrPool_Put arr p"

definition defaultFinalizeablesFinalizerFn ::
    "'x finalizeable elemArr \<Rightarrow> 'x finalizeable elemArr" where
  "defaultFinalizeablesFinalizerFn elems = defaultElemFinalizerFn empty_finalizeable elems"

definition finalizeablesArr_grow ::
    "int \<Rightarrow> 'x finalizeable elemArr \<Rightarrow> (array_panic, 'x finalizeable elemArr) outcome" where
  "finalizeablesArr_grow n elems = elemArr_grow empty_finalizeable n elems"

section \<open>The pool of contexts\<close>

text \<open>
  \<^verbatim>\<open>NewPool\<close> of the package \<^verbatim>\<open>context\<close>: the queue of contexts, as long as the size of its object pool and filled with new pooled
  contexts, and the pool of slices of finalizers, which carries no state of the contexts.
\<close>

fun init_contexts :: "nat \<Rightarrow> ('g, 'x) world \<Rightarrow> ('g, 'x) world" where
  "init_contexts 0 w = w"
| "init_contexts (Suc n) w = init_contexts n (case newPooledContext w of (c, w) \<Rightarrow> ctxPool_Put c w)"

record ('io, 'g, 'x) poolOfContexts =
  poc_world :: "('g, 'x) world"
  poc_finalizersPool :: "('io, 'x finalizeable) elemArrPool"

definition context_NewPool ::
    "int \<Rightarrow> 'io \<Rightarrow> 'io objectPoolOptions option context_opts \<Rightarrow> (pool_panic, ('io, 'g, 'x) poolOfContexts) outcome" where
  "context_NewPool indef dflt os =
     bind_outcome (NewObjectPool indef dflt (ContextPoolOptions os) :: (pool_panic, ('io, unit, nat) objectPool) outcome) (\<lambda>cp.
     bind_outcome (newFinalizeablesArrayPool indef dflt
        \<lparr>ao_Options = FinalizerPoolOptions os, ao_Capacity = InitPooledFinalizerCapacity os,
         ao_MaxCapacity = MaxPooledFinalizerCapacity os, ao_FinalizeFn = None\<rparr>) (\<lambda>fp.
       case finalizeablesArrPool_Init fp of
         (Panic e, _) \<Rightarrow> Panic e
       | (Ret _, fp) \<Rightarrow> Ret \<lparr>poc_world = init_contexts (p_cap cp) (new_world (p_cap cp)), poc_finalizersPool = fp\<rparr>))"

definition getFinalizeables ::
    "('io, 'g, 'x) poolOfContexts \<Rightarrow> (pool_panic, 'x finalizeable elemArr) outcome \<times> ('io, 'g, 'x) poolOfContexts" where
  "getFinalizeables p = (case finalizeablesArrPool_Get (poc_finalizersPool p) of (x, fp) \<Rightarrow> (x, p\<lparr>poc_finalizersPool := fp\<rparr>))"

definition putFinalizeables ::
    "'x finalizeable elemArr \<Rightarrow> ('io, 'g, 'x) poolOfContexts \<Rightarrow> (pool_panic, unit) outcome \<times> ('io, 'g, 'x) poolOfContexts" where
  "putFinalizeables arr p =
     (case finalizeablesArrPool_Put arr (poc_finalizersPool p) of (x, fp) \<Rightarrow> (x, p\<lparr>poc_finalizersPool := fp\<rparr>))"

section \<open>The leak checking pool\<close>

text \<open>
  The wrapped pool is a record of its operations over a state \<open>'b\<close>.  \<open>trace\<close> is the stack trace of a call of
  \<^verbatim>\<open>Get\<close>.  A check that fails stops the test, hence the calls of \<^verbatim>\<open>CheckExtended\<close> are those of a check that passed.
\<close>

record ('b, 'v) elemTypePool =
  et_Init :: "'b \<Rightarrow> (pool_panic, unit) outcome \<times> 'b"
  et_Get :: "'b \<Rightarrow> (pool_panic, 'v) outcome \<times> 'b"
  et_Put :: "'v \<Rightarrow> 'b \<Rightarrow> (pool_panic, unit) outcome \<times> 'b"

record 'v leakcheckElemTypePoolOpts =
  DisallowUntrackedPuts :: bool
  EqualsFn :: "('v \<Rightarrow> 'v \<Rightarrow> bool) option"
  GetHookFn :: "('v \<Rightarrow> 'v) option"

record 'v leakcheckElemType =
  lc_Value :: 'v
  GetStacktrace :: string

record ('b, 'v) leakcheckElemTypePool =
  lc_pool :: "('b, 'v) elemTypePool"
  lc_state :: 'b
  NumGets :: int
  NumPuts :: int
  PendingItems :: "'v leakcheckElemType list"
  AllGetItems :: "'v leakcheckElemType list"
  lc_disallow :: bool
  lc_equals :: "'v \<Rightarrow> 'v \<Rightarrow> bool"
  lc_hook :: "('v \<Rightarrow> 'v) option"

datatype 'v leak_panic = UntrackedPut 'v | BackingPool pool_panic

definition newLeakcheckElemTypePool ::
    "'v leakcheckElemTypePoolOpts \<Rightarrow> ('b, 'v) elemTypePool \<Rightarrow> 'b \<Rightarrow> ('b, 'v) leakcheckElemTypePool" where
  "newLeakcheckElemTypePool lopts backing b =
     \<lparr>lc_pool = backing, lc_state = b, NumGets = 0, NumPuts = 0, PendingItems = [], AllGetItems = [],
      lc_disallow = DisallowUntrackedPuts lopts,
      lc_equals = (case EqualsFn lopts of None \<Rightarrow> (=) | Some eq \<Rightarrow> eq),
      lc_hook = GetHookFn lopts\<rparr>"

definition leakcheck_Init :: "('b, 'v) leakcheckElemTypePool \<Rightarrow> ('v leak_panic, unit) outcome \<times> ('b, 'v) leakcheckElemTypePool" where
  "leakcheck_Init p =
     (case et_Init (lc_pool p) (lc_state p) of
        (Panic e, b) \<Rightarrow> (Panic (BackingPool e), p\<lparr>lc_state := b\<rparr>)
      | (Ret _, b) \<Rightarrow> (Ret (), p\<lparr>lc_state := b\<rparr>))"

definition leakcheck_Get ::
    "string \<Rightarrow> ('b, 'v) leakcheckElemTypePool \<Rightarrow> ('v leak_panic, 'v) outcome \<times> ('b, 'v) leakcheckElemTypePool" where
  "leakcheck_Get trace p =
     (case et_Get (lc_pool p) (lc_state p) of
        (Panic e, b) \<Rightarrow> (Panic (BackingPool e), p\<lparr>lc_state := b\<rparr>)
      | (Ret e, b) \<Rightarrow>
          (let e = (case lc_hook p of None \<Rightarrow> e | Some hook \<Rightarrow> hook e);
               item = \<lparr>lc_Value = e, GetStacktrace = trace\<rparr>
           in (Ret e, p\<lparr>lc_state := b, NumGets := wrap64 (NumGets p + 1), PendingItems := PendingItems p @ [item],
                        AllGetItems := AllGetItems p @ [item]\<rparr>)))"

fun find_pending :: "('v \<Rightarrow> 'v \<Rightarrow> bool) \<Rightarrow> 'v \<Rightarrow> 'v leakcheckElemType list \<Rightarrow> nat \<Rightarrow> nat option" where
  "find_pending eq v [] i = None"
| "find_pending eq v (item # items) i = (if eq (lc_Value item) v then Some i else find_pending eq v items (Suc i))"

definition leakcheck_Put ::
    "'v \<Rightarrow> ('b, 'v) leakcheckElemTypePool \<Rightarrow> ('v leak_panic, unit) outcome \<times> ('b, 'v) leakcheckElemTypePool" where
  "leakcheck_Put v p =
     (let idx = find_pending (lc_equals p) v (PendingItems p) 0 in
      if idx = None \<and> lc_disallow p then (Panic (UntrackedPut v), p)
      else
        (let p = (case idx of None \<Rightarrow> p | Some i \<Rightarrow> p\<lparr>PendingItems := take i (PendingItems p) @ drop (Suc i) (PendingItems p)\<rparr>);
             p = p\<lparr>NumPuts := wrap64 (NumPuts p + 1)\<rparr>
         in case et_Put (lc_pool p) v (lc_state p) of
              (Panic e, b) \<Rightarrow> (Panic (BackingPool e), p\<lparr>lc_state := b\<rparr>)
            | (Ret _, b) \<Rightarrow> (Ret (), p\<lparr>lc_state := b\<rparr>)))"

definition leakcheck_Check :: "('b, 'v) leakcheckElemTypePool \<Rightarrow> bool" where
  "leakcheck_Check p \<longleftrightarrow> NumGets p = NumPuts p \<and> PendingItems p = []"

definition leakcheck_CheckExtended ::
    "('v leakcheckElemType \<Rightarrow> 'a \<Rightarrow> 'a) \<Rightarrow> ('b, 'v) leakcheckElemTypePool \<Rightarrow> 'a \<Rightarrow> bool \<times> 'a" where
  "leakcheck_CheckExtended f p a = (if leakcheck_Check p then (True, fold f (AllGetItems p) a) else (False, a))"

section \<open>Lemmas\<close>

lemma clear_elems_eq: "n \<le> length xs \<Longrightarrow> clear_elems zero n xs = replicate n zero @ drop n xs"
proof (induction n arbitrary: xs)
  case (Suc n)
  then show ?case by (simp add: drop_update_cancel Cons_nth_drop_Suc [symmetric] replicate_append_same [symmetric])
qed simp

text \<open>\<^verbatim>\<open>grow\<close> returns an array of the length that was asked for, all of it cleared, and allocates only when the capacity is too small.\<close>

lemma elemArr_grow_clears:
  assumes "0 \<le> n" and "alen elems \<le> acap elems"
  shows "\<exists>a. elemArr_grow zero n elems = Ret a \<and> alen a = nat n \<and> take (nat n) (abuf a) = replicate (nat n) zero \<and>
    acap a = max (acap elems) (nat n) \<and> (n \<le> int (acap elems) \<longrightarrow> drop (nat n) (abuf a) = drop (nat n) (abuf elems))"
  using assms by (auto simp: elemArr_grow_def Let_def acap_def clear_elems_eq nat_le_iff)

text \<open>The arrays of a pool are empty, and their capacity is bounded when the pool bounds it.\<close>

interpretation arrays: good_allocator "make_elems zero (int c)" "\<lambda>_. True"
    "\<lambda>a. alen a = 0 \<and> (m \<le> 0 \<or> int (acap a) \<le> max m (int c))" for zero :: 'e and c :: nat and m :: int
  by unfold_locales (simp add: make_elems_def acap_def)

definition arrays_inv :: "'e \<Rightarrow> ('io, 'e) elemArrPool \<Rightarrow> bool" where
  "arrays_inv zero p \<longleftrightarrow> 0 \<le> ap_Capacity p \<and> (\<forall>a. alen (ap_FinalizeFn p a) = 0) \<and>
     arrays.pool_inv zero (nat (ap_Capacity p)) (ap_MaxCapacity p) (ap_pool p)"

definition bounded_arr :: "('io, 'e) elemArrPool \<Rightarrow> 'e elemArr \<Rightarrow> bool" where
  "bounded_arr p a \<longleftrightarrow> alen a = 0 \<and> (0 < ap_MaxCapacity p \<longrightarrow> int (acap a) \<le> max (ap_MaxCapacity p) (ap_Capacity p))"

lemma elemArrPool_Get_bounded:
  assumes "arrays_inv zero p"
  shows "\<exists>a p'. elemArrPool_Get p = (Ret a, p') \<and> bounded_arr p a \<and> arrays_inv zero p' \<and>
    ap_Capacity p' = ap_Capacity p \<and> ap_MaxCapacity p' = ap_MaxCapacity p"
  using assms arrays.Get_good [of zero "nat (ap_Capacity p)" "ap_MaxCapacity p" "ap_pool p" "()"]
  by (fastforce simp: arrays_inv_def elemArrPool_Get_def bounded_arr_def)

lemma elemArrPool_Put_keeps:
  assumes "arrays_inv zero p"
  shows "\<exists>p'. elemArrPool_Put a p = (Ret (), p') \<and> arrays_inv zero p' \<and>
    ap_Capacity p' = ap_Capacity p \<and> ap_MaxCapacity p' = ap_MaxCapacity p"
proof (cases "ap_MaxCapacity p > 0 \<and> int (acap (ap_FinalizeFn p a)) > ap_MaxCapacity p")
  case True
  with assms show ?thesis by (simp add: elemArrPool_Put_def Let_def)
next
  case False
  with assms have "alen (ap_FinalizeFn p a) = 0 \<and>
      (ap_MaxCapacity p \<le> 0 \<or> int (acap (ap_FinalizeFn p a)) \<le> max (ap_MaxCapacity p) (int (nat (ap_Capacity p))))"
    by (auto simp: arrays_inv_def)
  from arrays.Put_good [OF _ this, of zero "ap_pool p" "()"] assms False show ?thesis
    by (fastforce simp: arrays_inv_def elemArrPool_Put_def Let_def)
qed

lemma newElemArrayPool_Init:
  assumes "newElemArrayPool indef dflt zero aopts = Ret p" and "0 \<le> ao_Capacity aopts" and "ao_FinalizeFn aopts = None"
  shows "\<exists>p'. elemArrPool_Init zero p = (Ret (), p') \<and> arrays_inv zero p' \<and>
    ap_Capacity p' = ao_Capacity aopts \<and> ap_MaxCapacity p' = ao_MaxCapacity aopts"
proof -
  obtain q where q: "NewObjectPool indef dflt (ao_Options aopts) = Ret q"
    and p: "p = \<lparr>ap_Capacity = ao_Capacity aopts, ap_MaxCapacity = ao_MaxCapacity aopts,
                 ap_FinalizeFn = defaultElemFinalizerFn zero, ap_pool = q\<rparr>"
    using assms(1,3) by (cases "NewObjectPool indef dflt (ao_Options aopts)") (auto simp: newElemArrayPool_def Let_def)
  have "\<not> initialized q" "p_values q = []"
    using q by (auto simp: NewObjectPool_def setGauges_def Let_def split: if_splits)
  from arrays.Init_good [OF this, where s = "()" and zero = zero and c = "nat (ao_Capacity aopts)" and m = "ao_MaxCapacity aopts"] assms(2) show ?thesis
    by (fastforce simp: p elemArrPool_Init_def arrays_inv_def defaultElemFinalizerFn_def)
qed

text \<open>A new pool of contexts is full of pooled contexts that are open and have no parent.\<close>

lemma init_contexts_full:
  assumes "pool_cap w = length (pool_free w) + n" and "pool_free w = [0..<next_ctx w]" and "\<forall>c<next_ctx w. ctxs w c = empty_ctx True"
  shows "pool_free (init_contexts n w) = [0..<next_ctx w + n] \<and> next_ctx (init_contexts n w) = next_ctx w + n \<and>
    (\<forall>c<next_ctx w + n. ctxs (init_contexts n w) c = empty_ctx True)"
  using assms
proof (induction n arbitrary: w)
  case (Suc n)
  let ?w = "case newPooledContext w of (c, w) \<Rightarrow> ctxPool_Put c w"
  have w: "pool_free ?w = [0..<Suc (next_ctx w)]" "next_ctx ?w = Suc (next_ctx w)" "pool_cap ?w = pool_cap w"
    "\<forall>c<Suc (next_ctx w). ctxs ?w c = empty_ctx True"
    using Suc.prems by (auto simp: newPooledContext_def alloc_ctx_def ctxPool_Put_def less_Suc_eq)
  then show ?case using Suc.IH [of ?w] Suc.prems by simp
qed simp

lemma init_contexts_cap: "pool_cap (init_contexts n w) = pool_cap w"
  by (induction n arbitrary: w) (simp_all add: newPooledContext_def alloc_ctx_def ctxPool_Put_def)

lemma context_NewPool_serves:
  assumes "context_NewPool indef dflt os = Ret p"
  shows "\<forall>c\<in>set (pool_free (poc_world p)). ctxs (poc_world p) c = empty_ctx True"
    and "distinct (pool_free (poc_world p))" and "length (pool_free (poc_world p)) = pool_cap (poc_world p)"
proof -
  obtain cp :: "('a, unit, nat) objectPool" and fp where c: "(case finalizeablesArrPool_Init fp of (Panic e, _) \<Rightarrow> Panic e
      | (Ret _, fp) \<Rightarrow> Ret \<lparr>poc_world = init_contexts (p_cap cp) (new_world (p_cap cp)), poc_finalizersPool = fp\<rparr>) = Ret p"
    using assms by (auto simp: context_NewPool_def)
  then obtain n w0 where n: "poc_world p = init_contexts n w0" "w0 = new_world n"
    by (cases "finalizeablesArrPool_Init fp"; cases "fst (finalizeablesArrPool_Init fp)") auto
  have "pool_free (poc_world p) = [0..<n]" "\<forall>c<n. ctxs (poc_world p) c = empty_ctx True" "pool_cap (poc_world p) = n"
    using init_contexts_full [of w0 n] init_contexts_cap [of n w0] by (simp_all add: n(1), simp_all add: n(2) new_world_def)
  then show "\<forall>c\<in>set (pool_free (poc_world p)). ctxs (poc_world p) c = empty_ctx True"
    "distinct (pool_free (poc_world p))" "length (pool_free (poc_world p)) = pool_cap (poc_world p)" by simp_all
qed

section \<open>Leak checks are exact\<close>

datatype 'v leak_op = LGet string | LPut 'v

text \<open>A run collects the values its clients got and those they put back, and stops at a panic.\<close>

fun leak_run :: "'v leak_op list \<Rightarrow> ('b, 'v) leakcheckElemTypePool \<Rightarrow>
    ('v leak_panic, 'v list \<times> 'v list) outcome \<times> ('b, 'v) leakcheckElemTypePool" where
  "leak_run [] p = (Ret ([], []), p)"
| "leak_run (LGet trace # ops) p =
     (case leakcheck_Get trace p of
        (Panic e, p) \<Rightarrow> (Panic e, p)
      | (Ret v, p) \<Rightarrow> (case leak_run ops p of
          (Panic e, p) \<Rightarrow> (Panic e, p) | (Ret (gets, puts), p) \<Rightarrow> (Ret (v # gets, puts), p)))"
| "leak_run (LPut v # ops) p =
     (case leakcheck_Put v p of
        (Panic e, p) \<Rightarrow> (Panic e, p)
      | (Ret _, p) \<Rightarrow> (case leak_run ops p of
          (Panic e, p) \<Rightarrow> (Panic e, p) | (Ret (gets, puts), p) \<Rightarrow> (Ret (gets, v # puts), p)))"

lemma find_pending_Some:
  "find_pending eq v items i = Some j \<Longrightarrow> i \<le> j \<and> j - i < length items \<and> eq (lc_Value (items ! (j - i))) v"
proof (induction items arbitrary: i)
  case (Cons item items)
  show ?case
  proof (cases "eq (lc_Value item) v")
    case False
    with Cons.prems Cons.IH [of "Suc i"] show ?thesis by (auto simp: Suc_diff_le nth_Cons' Suc_le_eq)
  qed (use Cons.prems in auto)
qed simp

lemma find_pending_None: "find_pending eq v items i = None \<longleftrightarrow> (\<forall>item\<in>set items. \<not> eq (lc_Value item) v)"
  by (induction items arbitrary: i) auto

lemma leakcheck_Get_cases:
  assumes "leakcheck_Get trace p = (Ret v, p')"
  shows "NumGets p' = wrap64 (NumGets p + 1)" "NumPuts p' = NumPuts p" "lc_equals p' = lc_equals p" "lc_disallow p' = lc_disallow p"
    "map lc_Value (PendingItems p') = map lc_Value (PendingItems p) @ [v]"
    "map lc_Value (AllGetItems p') = map lc_Value (AllGetItems p) @ [v]"
  using assms by (auto simp: leakcheck_Get_def Let_def split: prod.splits outcome.splits)

lemma leakcheck_Put_cases:
  assumes "leakcheck_Put v p = (Ret (), p')" and "lc_equals p = (=)" and "lc_disallow p"
  shows "NumGets p' = NumGets p" "NumPuts p' = wrap64 (NumPuts p + 1)" "lc_equals p' = lc_equals p" "lc_disallow p' = lc_disallow p"
    "mset (map lc_Value (PendingItems p)) = add_mset v (mset (map lc_Value (PendingItems p')))" "AllGetItems p' = AllGetItems p"
proof -
  obtain i where i: "find_pending (=) v (PendingItems p) 0 = Some i"
    using assms by (cases "find_pending (=) v (PendingItems p) 0") (auto simp: leakcheck_Put_def)
  then have v: "i < length (PendingItems p)" "lc_Value (PendingItems p ! i) = v"
    using find_pending_Some [OF i] by auto
  from v(1) obtain M where M: "mset (PendingItems p) = add_mset (PendingItems p ! i) M" "mset (remove_nth i (PendingItems p)) = M"
    by (rule mset_nth_split)
  have p': "PendingItems p' = remove_nth i (PendingItems p)" "NumGets p' = NumGets p" "NumPuts p' = wrap64 (NumPuts p + 1)"
    "lc_equals p' = lc_equals p" "lc_disallow p' = lc_disallow p" "AllGetItems p' = AllGetItems p"
    using assms i by (auto simp: leakcheck_Put_def remove_nth_def Let_def split: prod.splits outcome.splits)
  then show "mset (map lc_Value (PendingItems p)) = add_mset v (mset (map lc_Value (PendingItems p')))"
    using M v(2) by simp
qed (use assms in \<open>auto simp: leakcheck_Put_def Let_def split: prod.splits outcome.splits option.splits\<close>)

lemma leak_run_conserves:
  assumes "leak_run ops p = (Ret (gets, puts), p')" and "lc_equals p = (=)" and "lc_disallow p"
    and "NumGets p = wrap64 g" and "NumPuts p = wrap64 q"
  shows "mset (map lc_Value (PendingItems p')) + mset puts = mset (map lc_Value (PendingItems p)) + mset gets \<and>
    NumGets p' = wrap64 (g + int (length gets)) \<and> NumPuts p' = wrap64 (q + int (length puts)) \<and>
    map lc_Value (AllGetItems p') = map lc_Value (AllGetItems p) @ gets"
  using assms
proof (induction ops p arbitrary: g q gets puts rule: leak_run.induct)
  case (2 trace ops p)
  then obtain v p1 gets1 where r: "leakcheck_Get trace p = (Ret v, p1)" "leak_run ops p1 = (Ret (gets1, puts), p')" "gets = v # gets1"
    by (auto split: prod.splits outcome.splits)
  note c = leakcheck_Get_cases [OF r(1)]
  from 2(1) [OF r(1) [symmetric] HOL.refl r(2), of "g + 1" q] 2(3-) c r(3) show ?case by (simp add: algebra_simps)
next
  case (3 v ops p)
  then obtain p1 puts1 where r: "leakcheck_Put v p = (Ret (), p1)" "leak_run ops p1 = (Ret (gets, puts1), p')" "puts = v # puts1"
    by (auto split: prod.splits outcome.splits)
  note c = leakcheck_Put_cases [OF r(1) 3(3,4)]
  from 3(1) [OF r(1) [symmetric] HOL.refl r(2), of g "q + 1"] 3(3-) c r(3) show ?case by (simp add: algebra_simps)
qed simp

text \<open>
  Of a pool that disallows untracked puts: after a run without panic the check passes exactly when the values that were
  put back are, with their multiplicities, those that were handed out; the extended check visits all of the latter.
\<close>

theorem leakcheck_exact:
  assumes "leak_run ops (newLeakcheckElemTypePool \<lparr>DisallowUntrackedPuts = True, EqualsFn = None, GetHookFn = hook\<rparr> backing b) =
      (Ret (gets, puts), p)"
  shows "leakcheck_Check p \<longleftrightarrow> mset puts = mset gets"
    and "map lc_Value (AllGetItems p) = gets"
proof -
  let ?p = "newLeakcheckElemTypePool \<lparr>DisallowUntrackedPuts = True, EqualsFn = None, GetHookFn = hook\<rparr> backing b"
  have "lc_equals ?p = (=)" "lc_disallow ?p" "NumGets ?p = wrap64 0" "NumPuts ?p = wrap64 0" "PendingItems ?p = []" "AllGetItems ?p = []"
    by (simp_all add: newLeakcheckElemTypePool_def wrap_s_def)
  from leak_run_conserves [OF assms this(1-4)] this(5,6) have c:
    "mset (map lc_Value (PendingItems p)) + mset puts = mset gets" "NumGets p = wrap64 (int (length gets))"
    "NumPuts p = wrap64 (int (length puts))" "map lc_Value (AllGetItems p) = gets" by simp_all
  show "leakcheck_Check p \<longleftrightarrow> mset puts = mset gets"
  proof
    assume "leakcheck_Check p"
    then show "mset puts = mset gets" using c(1) by (simp add: leakcheck_Check_def)
  next
    assume eq: "mset puts = mset gets"
    then have "length puts = length gets" by (rule mset_eq_length)
    then show "leakcheck_Check p" using c eq by (simp add: leakcheck_Check_def)
  qed
  show "map lc_Value (AllGetItems p) = gets" by (rule c(4))
qed

end
