(* ===== verification/IdentPool.thy ===== *)
theory IdentPool
  imports ArrayPools
begin

text \<open>
  The pool of the package \<^verbatim>\<open>ident\<close> as a whole (\<^verbatim>\<open>identifier_pool.go\<close>): its options and construction, the pools of tag arrays
  and of iterators beside the identifiers of the theory \<open>Ident\<close>, and the operations that register what they hand out with a
  context.  The finalizers and closers a context calls are executed on the pool.
\<close>

section \<open>Options\<close>

definition defaultCapacityOptions :: int where "defaultCapacityOptions = 16"

definition defaultMaxCapacityOptions :: int where "defaultMaxCapacityOptions = 32"

record 'io PoolOptions =
  IDPoolOptions :: "'io objectPoolOptions option"
  TagsPoolOptions :: "'io objectPoolOptions option"
  TagsCapacity :: int
  TagsMaxCapacity :: int
  TagsIteratorPoolOptions :: "'io objectPoolOptions option"

definition or_default :: "'io \<Rightarrow> 'io objectPoolOptions option \<Rightarrow> 'io objectPoolOptions option" where
  "or_default dflt oo = (case oo of None \<Rightarrow> Some (NewObjectPoolOptions dflt) | Some os \<Rightarrow> Some os)"

definition defaultsIfNotSet :: "'io \<Rightarrow> 'io PoolOptions \<Rightarrow> 'io PoolOptions" where
  "defaultsIfNotSet dflt po =
     \<lparr>IDPoolOptions = or_default dflt (IDPoolOptions po),
      TagsPoolOptions = or_default dflt (TagsPoolOptions po),
      TagsCapacity = (if TagsCapacity po = 0 then defaultCapacityOptions else TagsCapacity po),
      TagsMaxCapacity = (if TagsMaxCapacity po = 0 then defaultMaxCapacityOptions else TagsMaxCapacity po),
      TagsIteratorPoolOptions = or_default dflt (TagsIteratorPoolOptions po)\<rparr>"

section \<open>State and construction\<close>

text \<open>Iterators of the pool are addresses, since the closer registered with a context and the client share them.\<close>

record iter_heap =
  it_objs :: "nat \<Rightarrow> tagSliceIter"
  next_it :: nat

record 'io simplePool =
  sp_store :: "'io store"
  sp_tagArrayPool :: "('io, Tag) elemArrPool"
  sp_itersPool :: "('io, iter_heap, nat) objectPool"
  sp_iters :: iter_heap

text \<open>The allocator of the pool of iterators, \<^verbatim>\<open>newTagSliceIter(Tags{}, p)\<close>.\<close>

definition alloc_iter :: "(iter_heap, nat) allocator" where
  "alloc_iter h =
     (Ret (next_it h), h\<lparr>it_objs := (it_objs h)(next_it h := newTagSliceIter (NewTags [])), next_it := next_it h + 1\<rparr>)"

text \<open>The store after \<^verbatim>\<open>p.pool.Init\<close> with a queue of \<open>n\<close> identifiers, all of them allocated by it.\<close>

definition init_store :: "nat \<Rightarrow> 'io checkedBytesPool \<Rightarrow> 'io store" where
  "init_store n bp =
     \<lparr>ids = (\<lambda>_. \<lparr>data = None, id_pool = True, noFinalize = False\<rparr>), next_id = n,
      id_free = map (\<lambda>i. Some (IdPtr i)) [0..<n], id_cap = n, bytesPool = bp\<rparr>"

definition ident_NewPool ::
    "int \<Rightarrow> 'io \<Rightarrow> 'io checkedBytesPool \<Rightarrow> 'io PoolOptions \<Rightarrow> (pool_panic, 'io simplePool) outcome" where
  "ident_NewPool indef dflt bp po =
     (let po = defaultsIfNotSet dflt po in
      bind_outcome (NewObjectPool indef dflt (IDPoolOptions po) :: (pool_panic, ('io, unit, ID) objectPool) outcome) (\<lambda>idp.
      bind_outcome (newTagArrayPool indef dflt
        \<lparr>ao_Options = TagsPoolOptions po, ao_Capacity = TagsCapacity po, ao_MaxCapacity = TagsMaxCapacity po,
         ao_FinalizeFn = None\<rparr>) (\<lambda>tp.
      bind_outcome (NewObjectPool indef dflt (TagsIteratorPoolOptions po)) (\<lambda>ip.
        case tagArrPool_Init tp of
          (Panic e, _) \<Rightarrow> Panic e
        | (Ret _, tp) \<Rightarrow>
            (case objectPool_Init alloc_iter ip \<lparr>it_objs = (\<lambda>_. newTagSliceIter (NewTags [])), next_it = 0\<rparr> of
               (Panic e, _, _) \<Rightarrow> Panic e
             | (Ret _, ip, h) \<Rightarrow>
                 Ret \<lparr>sp_store = init_store (p_cap idp) bp, sp_tagArrayPool = tp, sp_itersPool = ip, sp_iters = h\<rparr>)))))"

section \<open>Tag arrays and iterators\<close>

type_synonym ('io, 'a) sp_op = "'io simplePool \<Rightarrow> (pool_panic, 'a) outcome \<times> 'io simplePool"

definition on_store :: "('io, 'a) ident_op \<Rightarrow> ('io, 'a) sp_op" where
  "on_store op sp = (case op (sp_store sp) of (x, st) \<Rightarrow> (x, sp\<lparr>sp_store := st\<rparr>))"

text \<open>A slice of tags comes with the part of its array beyond its length.\<close>

definition simplePool_Tags :: "('io, Tags \<times> Tag list) sp_op" where
  "simplePool_Tags sp =
     (case tagArrPool_Get (sp_tagArrayPool sp) of
        (Panic e, tp) \<Rightarrow> (Panic e, sp\<lparr>sp_tagArrayPool := tp\<rparr>)
      | (Ret a, tp) \<Rightarrow>
          (Ret (\<lparr>t_values = take (alen a) (abuf a), ts_pool = True, ts_noFinalize = False\<rparr>, drop (alen a) (abuf a)),
           sp\<lparr>sp_tagArrayPool := tp\<rparr>))"

definition simplePool_PutTags :: "Tags \<Rightarrow> Tag list \<Rightarrow> ('io, unit) sp_op" where
  "simplePool_PutTags t spare sp =
     (case tagArrPool_Put \<lparr>abuf = t_values t @ spare, alen = length (t_values t)\<rparr> (sp_tagArrayPool sp) of
        (x, tp) \<Rightarrow> (x, sp\<lparr>sp_tagArrayPool := tp\<rparr>))"

definition Tags_Finalize :: "globals \<Rightarrow> Tags \<Rightarrow> Tag list \<Rightarrow> ('io, Tags) sp_op" where
  "Tags_Finalize g t spare sp =
     (if ts_noFinalize t then (Ret t, sp)
      else
        andthen (on_store (finalize_tags g (t_values t)) sp) (\<lambda>values sp.
          if \<not> ts_pool t then (Ret (t\<lparr>t_values := []\<rparr>), sp)
          else andthen (simplePool_PutTags (NewTags values) spare sp) (\<lambda>_ sp. (Ret (t\<lparr>t_values := []\<rparr>), sp))))"

definition simplePool_CloneTags :: "(nat \<Rightarrow> nat) \<Rightarrow> globals \<Rightarrow> Tags \<Rightarrow> ('io, Tags) sp_op" where
  "simplePool_CloneTags grow g t sp =
     andthen (simplePool_Tags sp) (\<lambda>_ sp.
     andthen (on_store (clone_tags grow g (Tags_Values t)) sp) (\<lambda>us sp.
       (Ret \<lparr>t_values = us, ts_pool = True, ts_noFinalize = False\<rparr>, sp)))"

definition simplePool_TagsIterator :: "('io, nat) sp_op" where
  "simplePool_TagsIterator sp =
     (case objectPool_Get (sp_itersPool sp) (sp_iters sp) of (x, ip, h) \<Rightarrow> (x, sp\<lparr>sp_itersPool := ip, sp_iters := h\<rparr>))"

definition set_iter :: "nat \<Rightarrow> tagSliceIter \<Rightarrow> iter_heap \<Rightarrow> iter_heap" where
  "set_iter i it h = h\<lparr>it_objs := (it_objs h)(i := it)\<rparr>"

definition simplePool_PutTagsIterator :: "nat \<Rightarrow> ('io, unit) sp_op" where
  "simplePool_PutTagsIterator i sp =
     (let h = set_iter i (tagSliceIter_Reset [] (it_objs (sp_iters sp) i)) (sp_iters sp) in
      case objectPool_Put i (sp_itersPool sp) h of (x, ip, h) \<Rightarrow> (x, sp\<lparr>sp_itersPool := ip, sp_iters := h\<rparr>))"

text \<open>\<^verbatim>\<open>Close\<close> of an iterator of the pool.\<close>

definition pooled_iter_Close :: "nat \<Rightarrow> ('io, unit) sp_op" where
  "pooled_iter_Close i sp =
     simplePool_PutTagsIterator i
       (sp\<lparr>sp_iters := set_iter i (tagSliceIter_Close (it_objs (sp_iters sp) i)) (sp_iters sp)\<rparr>)"

section \<open>Registration with a context\<close>

text \<open>What is registered: an identifier as a finalizer, an iterator as a closer.  \<open>n\<close> bounds the depth of the chain of parents
  of a context.\<close>

datatype resource = FinalizeID ID | CloseIter nat

datatype registered_panic = PoolPanic pool_panic | CtxPanic ctx_panic

type_synonym ('io, 'g, 'a) reg_op =
  "'io simplePool \<times> ('g, resource) world \<Rightarrow> (registered_panic, 'a) outcome \<times> 'io simplePool \<times> ('g, resource) world"

definition on_pool :: "('io, 'a) sp_op \<Rightarrow> ('io, 'g, 'a) reg_op" where
  "on_pool op x =
     (case op (fst x) of (Panic e, sp) \<Rightarrow> (Panic (PoolPanic e), sp, snd x) | (Ret a, sp) \<Rightarrow> (Ret a, sp, snd x))"

definition on_ctx :: "(('g, resource) world \<Rightarrow> (ctx_panic, ('g, resource) world) outcome) \<Rightarrow> ('io, 'g, unit) reg_op" where
  "on_ctx op x = (case op (snd x) of Panic e \<Rightarrow> (Panic (CtxPanic e), x) | Ret w \<Rightarrow> (Ret (), fst x, w))"

definition register_id :: "nat \<Rightarrow> nat \<Rightarrow> ID \<Rightarrow> ('io, 'g, ID) reg_op" where
  "register_id n c v x = andthen (on_ctx (RegisterFinalizer n c (Some (ExtF (FinalizeID v)))) x) (\<lambda>_ x. (Ret v, x))"

definition GetBinaryID :: "globals \<Rightarrow> nat \<Rightarrow> nat \<Rightarrow> (unit, unit) bytesRef \<Rightarrow> ('io, 'g, ID) reg_op" where
  "GetBinaryID g n c v x = andthen (on_pool (on_store (simplePool_BinaryID g v)) x) (register_id n c)"

definition GetBinaryTag ::
    "globals \<Rightarrow> nat \<Rightarrow> nat \<Rightarrow> (unit, unit) bytesRef \<Rightarrow> (unit, unit) bytesRef \<Rightarrow> ('io, 'g, Tag) reg_op" where
  "GetBinaryTag g n c nm v x =
     andthen (GetBinaryID g n c nm x) (\<lambda>a x. andthen (GetBinaryID g n c v x) (\<lambda>b x.
       (Ret \<lparr>Name = Some a, Value = Some b, t_noFinalize = False\<rparr>, x)))"

definition GetStringID :: "(nat \<Rightarrow> nat) \<Rightarrow> globals \<Rightarrow> nat \<Rightarrow> nat \<Rightarrow> string \<Rightarrow> ('io, 'g, ID) reg_op" where
  "GetStringID grow g n c v x = andthen (on_pool (on_store (simplePool_StringID grow g v)) x) (register_id n c)"

definition GetStringTag :: "(nat \<Rightarrow> nat) \<Rightarrow> globals \<Rightarrow> nat \<Rightarrow> nat \<Rightarrow> string \<Rightarrow> string \<Rightarrow> ('io, 'g, Tag) reg_op" where
  "GetStringTag grow g n c nm v x =
     andthen (GetStringID grow g n c nm x) (\<lambda>a x. andthen (GetStringID grow g n c v x) (\<lambda>b x.
       (Ret \<lparr>Name = Some a, Value = Some b, t_noFinalize = False\<rparr>, x)))"

definition GetTagsIterator :: "nat \<Rightarrow> nat \<Rightarrow> ('io, 'g, nat) reg_op" where
  "GetTagsIterator n c x =
     andthen (on_pool simplePool_TagsIterator x) (\<lambda>i x.
     andthen (on_ctx (RegisterCloser n c (Some (CloseIter i))) x) (\<lambda>_ x. (Ret i, x)))"

text \<open>
  Closing a context and executing, in the order of the calls, what the context called.  The resources do not touch
  contexts, so they are executed after the context's own part of the calls.
\<close>

fun release :: "globals \<Rightarrow> resource \<Rightarrow> ('io, unit) sp_op" where
  "release g (FinalizeID v) sp = on_store (ID_Finalize g v) sp"
| "release g (CloseIter i) sp = pooled_iter_Close i sp"

fun release_all :: "globals \<Rightarrow> resource list \<Rightarrow> ('io, unit) sp_op" where
  "release_all g [] sp = (Ret (), sp)"
| "release_all g (r # rs) sp = andthen (release g r sp) (\<lambda>_ sp. release_all g rs sp)"

definition close_and_release :: "globals \<Rightarrow> nat \<Rightarrow> nat \<Rightarrow> ('io, 'g, unit) reg_op" where
  "close_and_release g n c x =
     andthen (on_ctx (BlockingClose n c) x) (\<lambda>_ y.
       on_pool (release_all g (drop (length (calls_log (snd x))) (calls_log (snd y)))) y)"

section \<open>Identifiers that are handed out and taken back\<close>

text \<open>No identifier in the queue is marked, and the queue is not longer than its capacity.\<close>

definition ids_ok :: "globals \<Rightarrow> 'io store \<Rightarrow> bool" where
  "ids_ok g st \<longleftrightarrow> store_inv g st \<and> (\<forall>i. Some (IdPtr i) \<in> set (id_free st) \<longrightarrow> \<not> noFinalize (ids st i)) \<and>
     length (id_free st) \<le> id_cap st"

text \<open>An identifier of the pool that a client uses, and that its finalizer will take back.\<close>

definition owned :: "'io store \<Rightarrow> nat \<Rightarrow> 8 word list \<Rightarrow> bool" where
  "owned st i d \<longleftrightarrow> live st i d \<and> id_pool (ids st i) \<and> \<not> noFinalize (ids st i)"

lemma get_id_frame:
  assumes "ids_ok g st"
  shows "\<exists>i st'. get_id st = (Ret i, st') \<and> ids_ok g st' \<and> i < next_id st' \<and> Some (IdPtr i) \<notin> set (id_free st') \<and>
    \<not> noFinalize (ids st' i) \<and> next_id st \<le> next_id st' \<and> set (id_free st') \<subseteq> set (id_free st) \<and> bytesPool st' = bytesPool st \<and>
    (\<forall>j<next_id st. Some (IdPtr j) \<notin> set (id_free st) \<longrightarrow> j \<noteq> i) \<and> (\<forall>j. j \<noteq> i \<longrightarrow> ids st' j = ids st j)"
proof (cases "id_free st")
  case Nil
  with assms show ?thesis by (auto simp: get_id_def new_id_def ids_ok_def store_inv_def)
next
  case (Cons x xs)
  then obtain i where "i < next_id st" "x = Some (IdPtr i)" using assms by (auto simp: ids_ok_def store_inv_def)
  with Cons assms show ?thesis by (auto simp: get_id_def ids_ok_def store_inv_def)
qed

lemma StringID_owned:
  assumes "ids_ok g st"
  shows "\<exists>i st'. simplePool_StringID grow g s st = (Ret (IdPtr i), st') \<and> ids_ok g st' \<and> owned st' i (str_bytes s) \<and>
    (\<forall>j d. live st j d \<longrightarrow> j \<noteq> i \<and> live st' j d \<and> ids st' j = ids st j)"
proof -
  obtain b p i st1 where e: "cb_inv g p" "holds_bytes (str_bytes s) b" "get_id (st\<lparr>bytesPool := p\<rparr>) = (Ret i, st1)"
    "simplePool_StringID grow g s st = (Ret (IdPtr i), set_id i ((ids st1 i)\<lparr>id_pool := True, data := Some b\<rparr>) st1)"
    using simplePool_StringID_eq [of g st s grow] assms by (auto simp: ids_ok_def)
  have "ids_ok g (st\<lparr>bytesPool := p\<rparr>)" using assms e(1) by (simp add: ids_ok_def store_inv_def)
  from get_id_frame [OF this] e(3) have i: "ids_ok g st1" "i < next_id st1" "Some (IdPtr i) \<notin> set (id_free st1)"
    "\<not> noFinalize (ids st1 i)" "next_id st \<le> next_id st1" "set (id_free st1) \<subseteq> set (id_free st)"
    "\<forall>j<next_id st. Some (IdPtr j) \<notin> set (id_free st) \<longrightarrow> j \<noteq> i" "\<forall>j. j \<noteq> i \<longrightarrow> ids st1 j = ids st j" by auto
  let ?st2 = "set_id i ((ids st1 i)\<lparr>id_pool := True, data := Some b\<rparr>) st1"
  have "owned ?st2 i (str_bytes s)" using i e(2) by (simp add: owned_def live_def set_id_def)
  moreover have "ids_ok g ?st2" using i(1) by (auto simp: ids_ok_def store_inv_def set_id_def)
  moreover have "j \<noteq> i \<and> live ?st2 j d \<and> ids ?st2 j = ids st j" if "live st j d" for j d
    using that i(5-8) by (auto simp: live_def set_id_def)
  ultimately show ?thesis using e(4) by blast
qed

lemma Finalize_owned:
  assumes "ids_ok g st" and "owned st i d"
  shows "\<exists>st'. ID_Finalize g (IdPtr i) st = (Ret (), st') \<and> ids_ok g st' \<and> data (ids st' i) = None \<and>
    (\<forall>j. j \<noteq> i \<longrightarrow> ids st' j = ids st j) \<and> next_id st' = next_id st \<and> id_cap st' = id_cap st \<and>
    id_free st' = take (id_cap st) (id_free st @ [Some (IdPtr i)])"
proof -
  have q: "quiet g" using assms(1) by (simp add: ids_ok_def store_inv_def)
  obtain b where b: "data (ids st i) = Some b" "holds_bytes d b" and i: "i < next_id st" "Some (IdPtr i) \<notin> set (id_free st)"
    using assms(2) by (auto simp: owned_def live_def)
  let ?b = "b\<lparr>rc := (rc b)\<lparr>ref := 0\<rparr>\<rparr>" and ?st = "set_id i ((ids st i)\<lparr>data := Some (b\<lparr>rc := (rc b)\<lparr>ref := 0\<rparr>\<rparr>)\<rparr>) st"
  have dec: "on_data i (on_rc (DecRef g ())) st = (Ret (), ?st)"
    using b DecRef_one [OF q, of b] by (simp add: on_data_def lift_checked_def holds_bytes_def)
  obtain p where p: "cb_inv g p"
    "(case Bytes_Finalize ?b of None \<Rightarrow> (Ret (), ?st)
      | Some u \<Rightarrow> (case checkedBytesPool_FinalizeBytes g ?b (bytesPool ?st) of (x, p) \<Rightarrow> (x, ?st\<lparr>bytesPool := p\<rparr>))) =
     (Ret (), ?st\<lparr>bytesPool := p\<rparr>)"
  proof (cases "opts b")
    case None
    with assms(1) show ?thesis
      by (intro that [of "bytesPool ?st"]) (simp_all add: Bytes_Finalize_def ids_ok_def store_inv_def set_id_def)
  next
    case (Some u)
    then have "released ?b" using b(2) by (simp add: released_def holds_bytes_def)
    then obtain p where "checkedBytesPool_FinalizeBytes g ?b (bytesPool ?st) = (Ret (), p)" "cb_inv g p"
      using FinalizeBytes_good [of g "bytesPool ?st" ?b] q assms(1)
      by (auto simp: quiet_def ids_ok_def store_inv_def set_id_def)
    with Some show ?thesis by (intro that [of p]) (simp_all add: Bytes_Finalize_def)
  qed
  let ?st2 = "set_id i ((ids st i)\<lparr>data := None\<rparr>) (st\<lparr>bytesPool := p\<rparr>)"
  have "ID_Finalize g (IdPtr i) st = (Ret (), simplePool_Put (Some (IdPtr i)) ?st2)"
    using dec p(2) assms(2) unfolding set_id_def by (simp add: andthen_def owned_def set_id_def Let_def)
  moreover have "ids_ok g (simplePool_Put (Some (IdPtr i)) ?st2)"
    using assms p(1) i by (auto simp: ids_ok_def owned_def store_inv_def simplePool_Put_def set_id_def)
  ultimately show ?thesis using assms(1)
    by (simp add: simplePool_Put_def set_id_def ids_ok_def)
qed

section \<open>Contexts that finalize identifiers\<close>

text \<open>A root context that is open and does not wait for others.\<close>

definition open_ctx :: "('g, 'x) world \<Rightarrow> nat \<Rightarrow> bool" where
  "open_ctx w c \<longleftrightarrow> parent (ctxs w c) = None \<and> \<not> c_done (ctxs w c) \<and> wg (ctxs w c) = 0"

definition id_finalizeable :: "nat \<Rightarrow> resource finalizeable" where
  "id_finalizeable i = \<lparr>f_finalizer = Some (ExtF (FinalizeID (IdPtr i))), f_closer = None\<rparr>"

definition registered :: "nat list \<Rightarrow> resource finalizeable list option" where
  "registered is = (if is = [] then None else Some (map id_finalizeable is))"

lemma register_id_open:
  assumes "open_ctx w c" and "finalizeables (ctxs w c) = registered is" and "0 < n"
  shows "\<exists>w'. register_id n c (IdPtr i) (sp, w) = (Ret (IdPtr i), sp, w') \<and> open_ctx w' c \<and>
    finalizeables (ctxs w' c) = registered (is @ [i]) \<and> calls_log w' = calls_log w"
  using assms
  by (cases n) (auto simp: register_id_def on_ctx_def andthen_def open_ctx_def registerFinalizeable_def upd_ctx_def
      registered_def id_finalizeable_def)

lemma call_ids: "call_finalizeables (map id_finalizeable is) w = Ret (w\<lparr>calls_log := calls_log w @ map (\<lambda>i. FinalizeID (IdPtr i)) is\<rparr>)"
  by (induction "is" arbitrary: w) (simp_all add: call_finalizeable_def id_finalizeable_def)

lemma BlockingClose_ids:
  assumes "open_ctx w c" and "finalizeables (ctxs w c) = registered is" and "2 \<le> n"
  shows "\<exists>w'. BlockingClose n c w = Ret w' \<and> calls_log w' = calls_log w @ map (\<lambda>i. FinalizeID (IdPtr i)) is"
proof -
  obtain m where n: "n = Suc (Suc m)" using assms(3) by (metis add_2_eq_Suc le_Suc_ex)
  show ?thesis using assms(1,2)
    by (auto simp: n BlockingClose_def open_ctx_def close_def Let_def registered_def upd_ctx_def finalize_def call_ids
        returnToPool_def ctxPool_Put_def)
qed

text \<open>The calls of \<^verbatim>\<open>GetStringID\<close> with the strings of a list.\<close>

fun get_ids :: "(nat \<Rightarrow> nat) \<Rightarrow> globals \<Rightarrow> nat \<Rightarrow> nat \<Rightarrow> string list \<Rightarrow> ('io, 'g, ID list) reg_op" where
  "get_ids grow g n c [] x = (Ret [], x)"
| "get_ids grow g n c (s # ss) x =
     andthen (GetStringID grow g n c s x) (\<lambda>v x. andthen (get_ids grow g n c ss x) (\<lambda>vs x. (Ret (v # vs), x)))"

lemma get_ids_owned:
  assumes "0 < n"
  shows "ids_ok g (sp_store sp) \<Longrightarrow> open_ctx w c \<Longrightarrow> finalizeables (ctxs w c) = registered js \<Longrightarrow>
   \<exists>is sp' w'. get_ids grow g n c ss (sp, w) = (Ret (map IdPtr is), sp', w') \<and> ids_ok g (sp_store sp') \<and> open_ctx w' c \<and>
     finalizeables (ctxs w' c) = registered (js @ is) \<and> calls_log w' = calls_log w \<and>
     distinct is \<and> list_all2 (\<lambda>i s. owned (sp_store sp') i (str_bytes s)) is ss \<and>
     (\<forall>j d. live (sp_store sp) j d \<longrightarrow> j \<notin> set is \<and> live (sp_store sp') j d \<and> ids (sp_store sp') j = ids (sp_store sp) j)"
proof (induction ss arbitrary: sp w js)
  case (Cons s ss)
  obtain i st where i: "simplePool_StringID grow g s (sp_store sp) = (Ret (IdPtr i), st)" "ids_ok g st" "owned st i (str_bytes s)"
    "\<forall>j d. live (sp_store sp) j d \<longrightarrow> j \<noteq> i \<and> live st j d \<and> ids st j = ids (sp_store sp) j"
    using StringID_owned [OF Cons.prems(1)] by blast
  let ?sp = "sp\<lparr>sp_store := st\<rparr>"
  obtain w1 where r: "register_id n c (IdPtr i) (?sp, w) = (Ret (IdPtr i), ?sp, w1)" "open_ctx w1 c"
    "finalizeables (ctxs w1 c) = registered (js @ [i])" "calls_log w1 = calls_log w"
    using register_id_open [OF Cons.prems(2,3) assms] by blast
  obtain "is" sp' w' where ih: "get_ids grow g n c ss (?sp, w1) = (Ret (map IdPtr is), sp', w')" "ids_ok g (sp_store sp')"
    "open_ctx w' c" "finalizeables (ctxs w' c) = registered (js @ [i] @ is)" "calls_log w' = calls_log w1" "distinct is"
    "list_all2 (\<lambda>i s. owned (sp_store sp') i (str_bytes s)) is ss"
    "\<forall>j d. live st j d \<longrightarrow> j \<notin> set is \<and> live (sp_store sp') j d \<and> ids (sp_store sp') j = ids st j"
    using Cons.IH [of ?sp w1 "js @ [i]"] i(2) r(2,3) by auto
  have "i \<notin> set is" "owned (sp_store sp') i (str_bytes s)" using i(3) ih(8) by (auto simp: owned_def)
  moreover have "GetStringID grow g n c s (sp, w) = (Ret (IdPtr i), ?sp, w1)"
    using i(1) r(1) by (simp add: GetStringID_def on_pool_def on_store_def andthen_def)
  moreover have "\<forall>j d. live (sp_store sp) j d \<longrightarrow> j \<notin> set (i # is) \<and> live (sp_store sp') j d \<and>
      ids (sp_store sp') j = ids (sp_store sp) j" using i(4) ih(8) by (metis set_ConsD)
  ultimately show ?case using ih r(4)
    by (intro exI [of _ "i # is"] exI [of _ sp'] exI [of _ w']) (simp add: andthen_def)
qed (use assms in \<open>auto intro!: exI [of _ "[]"]\<close>)

lemma release_ids:
  "ids_ok g (sp_store sp) \<Longrightarrow> distinct is \<Longrightarrow> \<forall>i\<in>set is. \<exists>d. owned (sp_store sp) i d \<Longrightarrow>
   \<exists>sp'. release_all g (map (\<lambda>i. FinalizeID (IdPtr i)) is) sp = (Ret (), sp') \<and> ids_ok g (sp_store sp') \<and>
     (\<forall>i\<in>set is. data (ids (sp_store sp') i) = None) \<and> (\<forall>j. j \<notin> set is \<longrightarrow> ids (sp_store sp') j = ids (sp_store sp) j) \<and>
     next_id (sp_store sp') = next_id (sp_store sp) \<and>
     id_free (sp_store sp') = take (id_cap (sp_store sp)) (id_free (sp_store sp) @ map (\<lambda>i. Some (IdPtr i)) is)"
proof (induction "is" arbitrary: sp)
  case Nil
  then show ?case by (simp add: ids_ok_def)
next
  case (Cons i "is")
  obtain st where f: "ID_Finalize g (IdPtr i) (sp_store sp) = (Ret (), st)" "ids_ok g st" "data (ids st i) = None"
    "\<forall>j. j \<noteq> i \<longrightarrow> ids st j = ids (sp_store sp) j" "next_id st = next_id (sp_store sp)" "id_cap st = id_cap (sp_store sp)"
    "id_free st = take (id_cap (sp_store sp)) (id_free (sp_store sp) @ [Some (IdPtr i)])"
    using Finalize_owned [OF Cons.prems(1)] Cons.prems(3) by (metis list.set_intros(1))
  have "\<exists>d. owned st j d" if "j \<in> set is" for j
  proof -
    have "j \<noteq> i" using that Cons.prems(2) by auto
    moreover have "Some (IdPtr j) \<notin> set (id_free st)"
      using that Cons.prems(2,3) \<open>j \<noteq> i\<close> f(7) by (auto simp: owned_def live_def dest!: in_set_takeD)
    ultimately show ?thesis using that Cons.prems(3) f(4,5) by (auto simp: owned_def live_def)
  qed
  then obtain sp' where ih: "release_all g (map (\<lambda>i. FinalizeID (IdPtr i)) is) (sp\<lparr>sp_store := st\<rparr>) = (Ret (), sp')"
    "ids_ok g (sp_store sp')" "\<forall>i\<in>set is. data (ids (sp_store sp') i) = None"
    "\<forall>j. j \<notin> set is \<longrightarrow> ids (sp_store sp') j = ids st j" "next_id (sp_store sp') = next_id st"
    "id_free (sp_store sp') = take (id_cap st) (id_free st @ map (\<lambda>i. Some (IdPtr i)) is)"
    using Cons.IH [of "sp\<lparr>sp_store := st\<rparr>"] Cons.prems(2) f(2) by auto
  have l: "length (id_free (sp_store sp)) \<le> id_cap (sp_store sp)" using Cons.prems(1) by (simp add: ids_ok_def)
  have fr: "take k (take k (xs @ [x]) @ ys) = take k (xs @ x # ys)" if "length xs \<le> k" for k and xs ys :: "ID option list" and x
    using that by (cases "length xs = k") auto
  have i: "i \<notin> set is" using Cons.prems(2) by simp
  have "\<forall>j\<in>set (i # is). data (ids (sp_store sp') j) = None" using ih(3,4) f(3) i by auto
  moreover have "\<forall>j. j \<notin> set (i # is) \<longrightarrow> ids (sp_store sp') j = ids (sp_store sp) j" using ih(4) f(4) by auto
  moreover have "id_free (sp_store sp') = take (id_cap (sp_store sp)) (id_free (sp_store sp) @ map (\<lambda>i. Some (IdPtr i)) (i # is))"
    using ih(6) f(6,7) fr [OF l] by simp
  ultimately show ?case using f(1,5) ih(1,2,5) by (simp add: on_store_def andthen_def)
qed

text \<open>A new pool satisfies the invariant, over any checked bytes pool that satisfies its own.\<close>

lemma init_store_ok: "quiet g \<Longrightarrow> cb_inv g bp \<Longrightarrow> ids_ok g (init_store n bp)"
  by (auto simp: ids_ok_def store_inv_def init_store_def distinct_map inj_on_def)

lemma NewObjectPool_returns:
  assumes "case oo of None \<Rightarrow> True | Some os \<Rightarrow> 0 \<le> pool_Size os"
  shows "\<exists>p. NewObjectPool indef dflt oo = Ret p \<and> \<not> initialized p \<and> p_values p = []"
  using assms by (auto simp: NewObjectPool_def setGauges_def NewObjectPoolOptions_def defaultSize_def opt_field Let_def split: option.splits)

interpretation iters: good_allocator alloc_iter "\<lambda>_. True" "\<lambda>_. True"
  by unfold_locales (simp add: alloc_iter_def)

lemma ident_NewPool_ok:
  assumes "\<forall>oo\<in>{IDPoolOptions po, TagsPoolOptions po, TagsIteratorPoolOptions po}.
      case oo of None \<Rightarrow> True | Some os \<Rightarrow> 0 \<le> pool_Size os"
    and "0 \<le> TagsCapacity po" and "quiet g" and "cb_inv g bp"
  shows "\<exists>sp. ident_NewPool indef dflt bp po = Ret sp \<and> ids_ok g (sp_store sp)"
proof -
  let ?po = "defaultsIfNotSet dflt po"
  have d: "case or_default dflt oo of None \<Rightarrow> True | Some os \<Rightarrow> 0 \<le> pool_Size os"
    if "case oo of None \<Rightarrow> True | Some os \<Rightarrow> 0 \<le> pool_Size os" for oo :: "'a objectPoolOptions option"
    using that by (simp add: or_default_def NewObjectPoolOptions_def defaultSize_def opt_field split: option.splits)
  obtain idp :: "('a, unit, ID) objectPool" where 1: "NewObjectPool indef dflt (IDPoolOptions ?po) = Ret idp"
    using NewObjectPool_returns [OF d, of "IDPoolOptions po"] assms(1) by (auto simp: defaultsIfNotSet_def)
  let ?ao = "\<lparr>ao_Options = TagsPoolOptions ?po, ao_Capacity = TagsCapacity ?po, ao_MaxCapacity = TagsMaxCapacity ?po,
    ao_FinalizeFn = None\<rparr>"
  obtain tq :: "('a, unit, Tag elemArr) objectPool" where "NewObjectPool indef dflt (TagsPoolOptions ?po) = Ret tq"
    using NewObjectPool_returns [OF d, of "TagsPoolOptions po"] assms(1) by (auto simp: defaultsIfNotSet_def)
  then obtain tp where 2: "newTagArrayPool indef dflt ?ao = Ret tp"
    by (simp add: newTagArrayPool_def newElemArrayPool_def Let_def)
  obtain tp' where 3: "tagArrPool_Init tp = (Ret (), tp')"
  proof -
    have "0 \<le> ao_Capacity ?ao" using assms(2) by (simp add: defaultsIfNotSet_def defaultCapacityOptions_def)
    with newElemArrayPool_Init [of indef dflt empty_Tag ?ao tp] 2 show ?thesis
      by (auto simp: newTagArrayPool_def tagArrPool_Init_def intro: that)
  qed
  obtain ip :: "('a, iter_heap, nat) objectPool" where 4: "NewObjectPool indef dflt (TagsIteratorPoolOptions ?po) = Ret ip"
    "\<not> initialized ip" "p_values ip = []"
    using NewObjectPool_returns [OF d, of "TagsIteratorPoolOptions po"] assms(1) by (auto simp: defaultsIfNotSet_def)
  let ?h = "\<lparr>it_objs = (\<lambda>_. newTagSliceIter (NewTags [])), next_it = 0\<rparr>"
  obtain ip' h where 5: "objectPool_Init alloc_iter ip ?h = (Ret (), ip', h)"
    using iters.Init_good [OF 4(2,3), of ?h] by blast
  show ?thesis using 1 2 3 4(1) 5 init_store_ok [OF assms(3,4)] by (simp add: ident_NewPool_def Let_def)
qed

text \<open>The pool of iterators: what a client gets is an iterator over no tags.\<close>

definition iter_pool_inv :: "'io simplePool \<Rightarrow> bool" where
  "iter_pool_inv sp \<longleftrightarrow> initialized (sp_itersPool sp) \<and> p_alloc (sp_itersPool sp) = Some alloc_iter \<and>
     (\<forall>i\<in>set (p_values (sp_itersPool sp)). i < next_it (sp_iters sp) \<and> it_objs (sp_iters sp) i = newTagSliceIter (NewTags []))"

lemma TagsIterator_empty:
  assumes "iter_pool_inv sp"
  shows "\<exists>i sp'. simplePool_TagsIterator sp = (Ret i, sp') \<and> iter_pool_inv sp' \<and> i < next_it (sp_iters sp') \<and>
    it_objs (sp_iters sp') i = newTagSliceIter (NewTags [])"
  using assms
  by (auto simp: simplePool_TagsIterator_def iter_pool_inv_def objectPool_Get_def call_alloc_def alloc_iter_def trySetGauges_def
      setGauges_def tryFill_def Let_def split: list.splits)

lemma PutTagsIterator_ok:
  assumes "iter_pool_inv sp" and "i < next_it (sp_iters sp)"
  shows "\<exists>sp'. pooled_iter_Close i sp = (Ret (), sp') \<and> iter_pool_inv sp'"
  using assms
  by (auto simp: pooled_iter_Close_def simplePool_PutTagsIterator_def iter_pool_inv_def objectPool_Put_def trySetGauges_def
      setGauges_def set_iter_def tagSliceIter_Reset_def newTagSliceIter_def NewTags_def Tags_Values_def Let_def)

section \<open>Property\<close>

text \<open>
  C10: identifiers that a pool hands out together with a context.  Every identifier prints as the string it was asked for, also
  after all the others were made, and they are pairwise different.  Closing the context returns, finalizes exactly these
  identifiers and puts them back into the queue in their order, as far as it has room; they have no bytes any more, and an
  identifier in use elsewhere keeps its bytes.
\<close>

theorem context_close_releases:
  assumes "ids_ok g (sp_store sp)" and "open_ctx w c" and "finalizeables (ctxs w c) = None" and "2 \<le> n"
  shows "\<exists>vs sp1 w1 sp2 w2. get_ids grow g n c ss (sp, w) = (Ret vs, sp1, w1) \<and> distinct vs \<and>
    list_all2 (\<lambda>v s. ID_String g v (sp_store sp1) = (Ret s, sp_store sp1)) vs ss \<and>
    close_and_release g n c (sp1, w1) = (Ret (), sp2, w2) \<and> ids_ok g (sp_store sp2) \<and>
    list_all (\<lambda>v. ID_Bytes g v (sp_store sp2) = (Ret [], sp_store sp2)) vs \<and>
    id_free (sp_store sp2) = take (id_cap (sp_store sp1)) (id_free (sp_store sp1) @ map Some vs) \<and>
    (\<forall>j d. live (sp_store sp) j d \<longrightarrow> live (sp_store sp2) j d)"
proof -
  have n: "0 < n" and r0: "finalizeables (ctxs w c) = registered []" using assms(3,4) by (simp_all add: registered_def)
  obtain "is" sp1 w1 where a: "get_ids grow g n c ss (sp, w) = (Ret (map IdPtr is), sp1, w1)" "ids_ok g (sp_store sp1)"
    "open_ctx w1 c" "finalizeables (ctxs w1 c) = registered is" "calls_log w1 = calls_log w" "distinct is"
    "list_all2 (\<lambda>i s. owned (sp_store sp1) i (str_bytes s)) is ss"
    "\<forall>j d. live (sp_store sp) j d \<longrightarrow> j \<notin> set is \<and> live (sp_store sp1) j d \<and> ids (sp_store sp1) j = ids (sp_store sp) j"
    using get_ids_owned [OF n assms(1,2) r0, of grow ss] by auto
  have q: "quiet g" using a(2) by (simp add: ids_ok_def store_inv_def)
  obtain w2 where w2: "BlockingClose n c w1 = Ret w2" "calls_log w2 = calls_log w1 @ map (\<lambda>i. FinalizeID (IdPtr i)) is"
    using BlockingClose_ids [OF a(3,4) assms(4)] by blast
  have "\<forall>i\<in>set is. \<exists>d. owned (sp_store sp1) i d"
    using a(7) by (fastforce simp: list_all2_conv_all_nth in_set_conv_nth)
  then obtain sp2 where b: "release_all g (map (\<lambda>i. FinalizeID (IdPtr i)) is) sp1 = (Ret (), sp2)" "ids_ok g (sp_store sp2)"
    "\<forall>i\<in>set is. data (ids (sp_store sp2) i) = None" "\<forall>j. j \<notin> set is \<longrightarrow> ids (sp_store sp2) j = ids (sp_store sp1) j"
    "next_id (sp_store sp2) = next_id (sp_store sp1)"
    "id_free (sp_store sp2) = take (id_cap (sp_store sp1)) (id_free (sp_store sp1) @ map (\<lambda>i. Some (IdPtr i)) is)"
    using release_ids [OF a(2,6)] by blast
  have "live (sp_store sp2) j d" if "live (sp_store sp) j d" for j d
    using that a(8) b(4,5,6) by (fastforce simp: live_def dest!: in_set_takeD)
  moreover have "list_all2 (\<lambda>v s. ID_String g v (sp_store sp1) = (Ret s, sp_store sp1)) (map IdPtr is) ss"
    using a(7) by (auto simp: list_all2_map1 owned_def ID_String_def andthen_def live_Bytes [OF q] simp del: ID_Bytes.simps
        elim!: list_all2_mono)
  moreover have "close_and_release g n c (sp1, w1) = (Ret (), sp2, w2)"
    using w2 b(1) by (simp add: close_and_release_def on_ctx_def on_pool_def andthen_def)
  moreover have "list_all (\<lambda>v. ID_Bytes g v (sp_store sp2) = (Ret [], sp_store sp2)) (map IdPtr is)"
    using b(3) by (simp add: list_all_iff)
  moreover have "distinct (map IdPtr is)" using a(6) by (simp add: distinct_map inj_on_def)
  ultimately show ?thesis using a(1) b(2,6) by (auto simp: o_def)
qed

definition ex_PoolOptions :: "unit PoolOptions" where
  "ex_PoolOptions = \<lparr>IDPoolOptions = Some (pool_SetSize (NewObjectPoolOptions ()) 2), TagsPoolOptions = None,
     TagsCapacity = 0, TagsMaxCapacity = 0, TagsIteratorPoolOptions = None\<rparr>"

theorem context_close_releases_witness:
  "\<exists>sp vs sp1 w1 sp2 w2. ident_NewPool 0 () (bytesPool ex_store) ex_PoolOptions = Ret sp \<and>
     get_ids (\<lambda>n. n) default_globals 2 0 [''foo'', ''bar'', ''foo'']
       (sp, snd (NewContext (new_world 0 :: (unit, resource) world))) = (Ret vs, sp1, w1) \<and>
     close_and_release default_globals 2 0 (sp1, w1) = (Ret (), sp2, w2) \<and> ids_ok default_globals (sp_store sp2)"
proof -
  have g: "quiet default_globals" "cb_inv default_globals (bytesPool ex_store)" using ex_store_inv by (simp_all add: store_inv_def)
  obtain sp where sp: "ident_NewPool 0 () (bytesPool ex_store) ex_PoolOptions = Ret sp" "ids_ok default_globals (sp_store sp)"
    using ident_NewPool_ok [of ex_PoolOptions, OF _ _ g] by (auto simp: ex_PoolOptions_def opt_field)
  let ?w = "snd (NewContext (new_world 0 :: (unit, resource) world))"
  have "open_ctx ?w 0" "finalizeables (ctxs ?w 0) = None"
    by (simp_all add: open_ctx_def NewContext_def alloc_ctx_def new_world_def empty_ctx_def)
  from context_close_releases [OF sp(2) this, of 2 "\<lambda>n. n" "[''foo'', ''bar'', ''foo'']"] sp(1) show ?thesis
    by (auto simp del: get_ids.simps)
qed

end
