(* ===== verification/CheckedObject.thy ===== *)
theory CheckedObject
  imports Pool
begin

text \<open>
  The checked object pool (\<^verbatim>\<open>pool/checked_object.go\<close>): objects with a reference count that put themselves back when they are
  finalized, through finalizer objects that are pooled as well.

  Objects and finalizers are addresses into a heap, since the pool, its clients and the finalizers share them.  The fields
  \<^verbatim>\<open>value\<close> and \<^verbatim>\<open>p\<close> of a finalizer are set and cleared together: \<^const>\<open>None\<close> when both are nil.
\<close>

section \<open>State and operations\<close>

record co_heap =
  objs :: "nat \<Rightarrow> (nat, unit) RefCount"
  next_obj :: nat
  fins :: "nat \<Rightarrow> nat option"
  next_fin :: nat

record 'io checkedObjectPool =
  co_pool :: "('io, co_heap, nat) objectPool"
  co_finalizerPool :: "('io, co_heap, nat) objectPool"
  co_heap :: co_heap

type_synonym ('io, 'a) co_op = "'io checkedObjectPool \<Rightarrow> (pool_panic, 'a) outcome \<times> 'io checkedObjectPool"

text \<open>\<open>sub\<close> adds the scope of the pool of finalizers to the instrument options.\<close>

definition NewCheckedObjectPool ::
    "int \<Rightarrow> 'io \<Rightarrow> ('io \<Rightarrow> 'io) \<Rightarrow> 'io objectPoolOptions option \<Rightarrow> co_heap \<Rightarrow> (pool_panic, 'io checkedObjectPool) outcome" where
  "NewCheckedObjectPool indef dflt sub oo h =
     (let os = (case oo of None \<Rightarrow> NewObjectPoolOptions dflt | Some os \<Rightarrow> os) in
      bind_outcome (NewObjectPool indef dflt (Some os)) (\<lambda>p.
      bind_outcome (NewObjectPool indef dflt (Some (pool_SetInstrumentOptions os (sub (pool_InstrumentOptions os))))) (\<lambda>q.
        Ret \<lparr>co_pool = p, co_finalizerPool = q, co_heap = h\<rparr>)))"

text \<open>The allocator of finalizers, \<^verbatim>\<open>&checkedObjectFinalizer{}\<close>.\<close>

definition alloc_finalizer :: "(co_heap, nat) allocator" where
  "alloc_finalizer h = (Ret (next_fin h), h\<lparr>fins := (fins h)(next_fin h := None), next_fin := next_fin h + 1\<rparr>)"

text \<open>\<^verbatim>\<open>TrackObject\<close> only registers the new object with the runtime and leaves the object as it is.\<close>

definition checkedObjectPool_Init :: "(co_heap, nat) allocator \<Rightarrow> ('io, unit) co_op" where
  "checkedObjectPool_Init alloc p =
     (case objectPool_Init alloc (co_pool p) (co_heap p) of
        (Panic e, q, h) \<Rightarrow> (Panic e, p\<lparr>co_pool := q, co_heap := h\<rparr>)
      | (Ret _, q, h) \<Rightarrow>
          (case objectPool_Init alloc_finalizer (co_finalizerPool p) h of
             (x, r, h) \<Rightarrow> (x, \<lparr>co_pool = q, co_finalizerPool = r, co_heap = h\<rparr>)))"

definition checkedObjectPool_Get :: "('io, nat) co_op" where
  "checkedObjectPool_Get p =
     (case objectPool_Get (co_pool p) (co_heap p) of
        (Panic e, q, h) \<Rightarrow> (Panic e, p\<lparr>co_pool := q, co_heap := h\<rparr>)
      | (Ret v, q, h) \<Rightarrow>
          (case objectPool_Get (co_finalizerPool p) h of
             (Panic e, r, h) \<Rightarrow> (Panic e, \<lparr>co_pool = q, co_finalizerPool = r, co_heap = h\<rparr>)
           | (Ret f, r, h) \<Rightarrow>
               (Ret v, \<lparr>co_pool = q, co_finalizerPool = r,
                  co_heap = h\<lparr>fins := (fins h)(f \<mapsto> v),
                              objs := (objs h)(v := RefCount_SetFinalizer (objs h v) (Some (Fz f)))\<rparr>\<rparr>)))"

text \<open>\<^verbatim>\<open>checkedObjectFinalizer.Finalize\<close>; a cleared finalizer dereferences nil.\<close>

definition checkedObjectFinalizer_Finalize :: "nat \<Rightarrow> ('io, unit) co_op" where
  "checkedObjectFinalizer_Finalize f p =
     (case fins (co_heap p) f of
        None \<Rightarrow> (Panic NilFunctionCall, p)
      | Some v \<Rightarrow>
          (case objectPool_Put v (co_pool p) (co_heap p) of
             (Panic e, q, h) \<Rightarrow> (Panic e, p\<lparr>co_pool := q, co_heap := h\<rparr>)
           | (Ret _, q, h) \<Rightarrow>
               (case objectPool_Put f (co_finalizerPool p) (h\<lparr>fins := (fins h)(f := None)\<rparr>) of
                  (x, r, h) \<Rightarrow> (x, \<lparr>co_pool = q, co_finalizerPool = r, co_heap = h\<rparr>))))"

text \<open>\<^verbatim>\<open>Finalize\<close> of an object, which calls its finalizer.\<close>

definition object_Finalize :: "globals \<Rightarrow> nat \<Rightarrow> ('io, unit) co_op" where
  "object_Finalize g v p =
     (case RefCount_Finalize g () (objs (co_heap p) v) of
        (x, c) \<Rightarrow>
          (let p = p\<lparr>co_heap := (co_heap p)\<lparr>objs := (objs (co_heap p))(v := c)\<rparr>\<rparr> in
           case x of
             Panic e \<Rightarrow> (Panic (CheckedPanic e), p)
           | Ret None \<Rightarrow> (Ret (), p)
           | Ret (Some f) \<Rightarrow> checkedObjectFinalizer_Finalize f p))"

section \<open>Ownership\<close>

interpretation finalizers: fresh_allocator alloc_finalizer next_fin
  by unfold_locales (simp add: alloc_finalizer_def)

text \<open>
  What the pool relies on of the allocator of its client: it returns a new object and touches no other object and no finalizer.
\<close>

locale object_allocator = fresh_allocator alloc next_obj for alloc :: "(co_heap, nat) allocator" +
  assumes alloc_frame: "alloc h = (Ret v, h') \<Longrightarrow>
    fins h' = fins h \<and> next_fin h' = next_fin h \<and> (\<forall>u. u < next_obj h \<longrightarrow> objs h' u = objs h u)"
begin

text \<open>
  Every object in use has a finalizer of its own that refers to it, and pools and clients share neither objects nor finalizers.
\<close>

definition fin_of :: "co_heap \<Rightarrow> nat \<Rightarrow> nat" where
  "fin_of h v = the (run_finalizer (finalizer (objs h v)))"

definition co_inv :: "nat set \<Rightarrow> 'io checkedObjectPool \<Rightarrow> bool" where
  "co_inv out p \<longleftrightarrow> owns (co_pool p) (co_heap p) out \<and>
     finalizers.owns (co_finalizerPool p) (co_heap p) (fin_of (co_heap p) ` out) \<and>
     (\<forall>v\<in>out. run_finalizer (finalizer (objs (co_heap p) v)) \<noteq> None \<and> fins (co_heap p) (fin_of (co_heap p) v) = Some v)"

lemma Init_co:
  assumes "NewCheckedObjectPool indef dflt sub oo h = Ret p"
  shows "\<exists>p'. checkedObjectPool_Init alloc p = (Ret (), p') \<and> co_inv {} p'"
proof -
  have p: "\<not> initialized (co_pool p)" "p_values (co_pool p) = []" "\<not> initialized (co_finalizerPool p)"
    "p_values (co_finalizerPool p) = []"
    using assms by (auto simp: NewCheckedObjectPool_def NewObjectPool_def setGauges_def Let_def split: if_splits)
  obtain q h1 where 1: "objectPool_Init alloc (co_pool p) (co_heap p) = (Ret (), q, h1)" "owns q h1 {}"
    using Init_owns [OF p(1,2)] by blast
  obtain r h2 where 2: "objectPool_Init alloc_finalizer (co_finalizerPool p) h1 = (Ret (), r, h2)" "finalizers.owns r h2 {}"
    using finalizers.Init_owns [OF p(3,4)] by blast
  have keep: "next_obj s' = next_obj s" if "init_fill n pl s = (x, pl', s')" "p_alloc pl = Some alloc_finalizer"
    for n x s s' and pl pl' :: "('a, co_heap, nat) objectPool"
    using that by (induction n arbitrary: pl s) (auto simp: call_alloc_def alloc_finalizer_def split: prod.splits)
  have "next_obj h2 = next_obj h1"
    using 2(1) p(3) keep by (fastforce simp: objectPool_Init_def split: prod.splits outcome.splits)
  then show ?thesis using 1 2 owns_cong by (auto simp: checkedObjectPool_Init_def co_inv_def)
qed

lemma Get_co:
  assumes "co_inv out p"
  shows "\<exists>v p'. checkedObjectPool_Get p = (Ret v, p') \<and> v \<notin> out \<and> co_inv (insert v out) p' \<and>
    (\<forall>u\<in>out. objs (co_heap p') u = objs (co_heap p) u)"
proof -
  let ?h = "co_heap p" and ?fo = "fin_of (co_heap p) ` out"
  obtain v q h1 where v: "objectPool_Get (co_pool p) ?h = (Ret v, q, h1)" "v \<notin> out" "owns q h1 (insert v out)"
    "h1 = ?h \<or> alloc ?h = (Ret v, h1)" using Get_owns [of "co_pool p" ?h out] assms by (auto simp: co_inv_def)
  have h1: "fins h1 = fins ?h" "next_fin h1 = next_fin ?h" "\<forall>u\<in>out. objs h1 u = objs ?h u"
    using v(4) alloc_frame [of ?h v h1] assms by (auto simp: co_inv_def owns_def)
  have "finalizers.owns (co_finalizerPool p) h1 ?fo"
    using assms h1(2) finalizers.owns_cong by (auto simp: co_inv_def)
  from finalizers.Get_owns [OF this] obtain f r h2 where
    f: "objectPool_Get (co_finalizerPool p) h1 = (Ret f, r, h2)" "f \<notin> ?fo" "finalizers.owns r h2 (insert f ?fo)"
      "h2 = h1 \<or> alloc_finalizer h1 = (Ret f, h2)" by blast
  have h2: "objs h2 = objs h1" "next_obj h2 = next_obj h1" "\<forall>x. x \<noteq> f \<longrightarrow> fins h2 x = fins h1 x"
    using f(4) by (auto simp: alloc_finalizer_def)
  let ?h3 = "h2\<lparr>fins := (fins h2)(f \<mapsto> v), objs := (objs h2)(v := RefCount_SetFinalizer (objs h2 v) (Some (Fz f)))\<rparr>"
  let ?p = "\<lparr>co_pool = q, co_finalizerPool = r, co_heap = ?h3\<rparr>"
  have o: "objs ?h3 u = objs ?h u" if "u \<in> out" for u using that v(2) h1(3) h2(1) by auto
  have fo: "fin_of ?h3 v = f" "fin_of ?h3 u = fin_of ?h u" if "u \<in> out" for u
    using o [OF that] by (simp_all add: fin_of_def RefCount_SetFinalizer_def)
  have fv: "fin_of ?h3 v = f" by (simp add: fin_of_def RefCount_SetFinalizer_def)
  have im: "fin_of ?h3 ` insert v out = insert f ?fo" using fv fo(2) by auto
  have "owns q ?h3 (insert v out)" using v(3) by (rule owns_cong) (simp add: h2(2))
  moreover have "finalizers.owns r ?h3 (insert f ?fo)" using f(3) by (rule finalizers.owns_cong) simp
  moreover have "run_finalizer (finalizer (objs ?h3 u)) \<noteq> None \<and> fins ?h3 (fin_of ?h3 u) = Some u" if "u \<in> insert v out" for u
  proof (cases "u = v")
    case True
    then show ?thesis using fv by (simp add: RefCount_SetFinalizer_def)
  next
    case False
    then have u: "u \<in> out" using that by simp
    then have "fin_of ?h u \<noteq> f" using f(2) by auto
    then show ?thesis using u assms o [OF u] fo(2) [OF u] h1(1) h2(3) by (simp add: co_inv_def)
  qed
  ultimately have "co_inv (insert v out) ?p" by (simp only: co_inv_def im checkedObjectPool.simps) blast
  moreover have "checkedObjectPool_Get p = (Ret v, ?p)" using v(1) f(1) by (simp add: checkedObjectPool_Get_def)
  ultimately show ?thesis using v(2) o by force
qed

lemma Finalize_co:
  assumes "co_inv out p" and "v \<in> out" and "\<not> traceback g" and "ref (objs (co_heap p) v) = 0"
  shows "\<exists>p'. object_Finalize g v p = (Ret (), p') \<and> co_inv (out - {v}) p' \<and> objs (co_heap p') = objs (co_heap p) \<and>
    p_values (co_pool p') = (if length (p_values (co_pool p)) < p_cap (co_pool p) then p_values (co_pool p) @ [v]
                             else p_values (co_pool p))"
proof -
  let ?h = "co_heap p" let ?f = "fin_of (co_heap p) v"
  have f: "run_finalizer (finalizer (objs ?h v)) = Some ?f" "fins ?h ?f = Some v"
    using assms(1,2) by (auto simp: co_inv_def fin_of_def)
  have inj: "fin_of ?h u \<noteq> ?f" if "u \<in> out" "u \<noteq> v" for u
  proof -
    have "fins ?h (fin_of ?h u) = Some u" using that(1) assms(1) by (simp add: co_inv_def)
    with f(2) that(2) show ?thesis by auto
  qed
  obtain q where q: "objectPool_Put v (co_pool p) ?h = (Ret (), q, ?h)" "owns q ?h (out - {v})"
    "p_values q = (if length (p_values (co_pool p)) < p_cap (co_pool p) then p_values (co_pool p) @ [v] else p_values (co_pool p))"
    using Put_owns [of "co_pool p" ?h out v] assms(1,2) by (auto simp: co_inv_def)
  let ?h1 = "?h\<lparr>fins := (fins ?h)(?f := None)\<rparr>"
  have "finalizers.owns (co_finalizerPool p) ?h1 (fin_of ?h ` out)" "?f \<in> fin_of ?h ` out"
    using assms(1,2) by (simp_all add: co_inv_def finalizers.owns_def)
  from finalizers.Put_owns [OF this] obtain r where
    r: "objectPool_Put ?f (co_finalizerPool p) ?h1 = (Ret (), r, ?h1)" "finalizers.owns r ?h1 (fin_of ?h ` out - {?f})" by blast
  have im: "fin_of ?h1 ` (out - {v}) = fin_of ?h ` out - {?f}" using inj by (auto simp: fin_of_def)
  let ?p = "\<lparr>co_pool = q, co_finalizerPool = r, co_heap = ?h1\<rparr>"
  have "object_Finalize g v p = (Ret (), ?p)"
    using f q(1) r(1) assms(3,4)
    by (simp add: object_Finalize_def RefCount_Finalize_def tracebackEvent_def check_def andthen_def NumRef_def
        RefCount_Finalizer_def checkedObjectFinalizer_Finalize_def)
  moreover have "owns q ?h1 (out - {v})" using q(2) by (rule owns_cong) simp
  moreover have "run_finalizer (finalizer (objs ?h1 u)) \<noteq> None \<and> fins ?h1 (fin_of ?h1 u) = Some u" if "u \<in> out - {v}" for u
    using that assms(1) inj by (auto simp: co_inv_def fin_of_def)
  ultimately show ?thesis using r(2) q(3) by (simp add: co_inv_def im)
qed

text \<open>A client changes the counts of an object it holds, and leaves its finalizer alone.\<close>

lemma use_co:
  assumes "co_inv out p" and "run_finalizer (finalizer c) = run_finalizer (finalizer (objs (co_heap p) v))"
  shows "co_inv out (p\<lparr>co_heap := (co_heap p)\<lparr>objs := (objs (co_heap p))(v := c)\<rparr>\<rparr>)"
proof -
  let ?h = "(co_heap p)\<lparr>objs := (objs (co_heap p))(v := c)\<rparr>"
  have "fin_of ?h = fin_of (co_heap p)" using assms(2) by (auto simp: fin_of_def)
  moreover have "owns (co_pool p) ?h out" "finalizers.owns (co_finalizerPool p) ?h (fin_of (co_heap p) ` out)"
    using assms(1) by (simp_all add: co_inv_def owns_def finalizers.owns_def)
  ultimately show ?thesis using assms by (auto simp: co_inv_def)
qed

lemma fill_co:
  assumes "co_inv out p" and "fill_step (co_pool p) (co_heap p) = (x, q, h)"
  shows "co_inv out (p\<lparr>co_pool := q, co_heap := h\<rparr>)"
proof -
  let ?h = "co_heap p"
  have o: "owns q h out" "h = ?h \<or> (\<exists>v. alloc ?h = (Ret v, h))"
    using fill_owns [of "co_pool p" ?h out] assms by (auto simp: co_inv_def)
  then have h: "fins h = fins ?h" "next_fin h = next_fin ?h" "\<forall>u\<in>out. objs h u = objs ?h u"
    using alloc_frame [of ?h _ h] assms(1) by (auto simp: co_inv_def owns_def)
  have "fin_of h u = fin_of ?h u" if "u \<in> out" for u using h(3) that by (simp add: fin_of_def)
  then have im: "fin_of h ` out = fin_of ?h ` out" by auto
  moreover have "finalizers.owns (co_finalizerPool p) h (fin_of ?h ` out)"
    using assms(1) h(2) finalizers.owns_cong by (auto simp: co_inv_def)
  ultimately show ?thesis using o(1) h assms(1) by (auto simp: co_inv_def fin_of_def)
qed

end

section \<open>Runs\<close>

text \<open>The allocator of plain reference counts.\<close>

definition alloc_RefCount :: "(co_heap, nat) allocator" where
  "alloc_RefCount h = (Ret (next_obj h), h\<lparr>objs := (objs h)(next_obj h := new_RefCount), next_obj := next_obj h + 1\<rparr>)"

interpretation ref_counts: object_allocator alloc_RefCount
  by unfold_locales (auto simp: alloc_RefCount_def)

text \<open>
  Clients get objects, change the counts of those they hold and finalize them once their reference count is zero, while the
  goroutine of the pool refills it.  The last argument are the objects in use.
\<close>

inductive co_reach :: "globals \<Rightarrow> (co_heap, nat) allocator \<Rightarrow> 'io checkedObjectPool \<Rightarrow> 'io checkedObjectPool \<Rightarrow> nat set \<Rightarrow> bool"
  for g alloc p0 where
  init: "checkedObjectPool_Init alloc p0 = (Ret (), p) \<Longrightarrow> co_reach g alloc p0 p {}"
| get: "co_reach g alloc p0 p out \<Longrightarrow> checkedObjectPool_Get p = (Ret v, p') \<Longrightarrow> co_reach g alloc p0 p' (insert v out)"
| use: "co_reach g alloc p0 p out \<Longrightarrow> v \<in> out \<Longrightarrow>
    run_finalizer (finalizer c) = run_finalizer (finalizer (objs (co_heap p) v)) \<Longrightarrow>
    co_reach g alloc p0 (p\<lparr>co_heap := (co_heap p)\<lparr>objs := (objs (co_heap p))(v := c)\<rparr>\<rparr>) out"
| finalize: "co_reach g alloc p0 p out \<Longrightarrow> v \<in> out \<Longrightarrow> ref (objs (co_heap p) v) = 0 \<Longrightarrow>
    object_Finalize g v p = (Ret (), p') \<Longrightarrow> co_reach g alloc p0 p' (out - {v})"
| fill: "co_reach g alloc p0 p out \<Longrightarrow> fill_step (co_pool p) (co_heap p) = (Ret (), q, h) \<Longrightarrow>
    co_reach g alloc p0 (p\<lparr>co_pool := q, co_heap := h\<rparr>) out"

lemma co_reach_inv:
  assumes "co_reach g alloc p0 p out" and "object_allocator alloc" and "\<not> traceback g"
    and "NewCheckedObjectPool indef dflt sub oo h0 = Ret p0"
  shows "object_allocator.co_inv alloc out p"
  using assms(1)
proof (induction rule: co_reach.induct)
  case (init p)
  then show ?case using object_allocator.Init_co [OF assms(2,4)] by auto
next
  case (get p out v p')
  then show ?case using object_allocator.Get_co [OF assms(2) get.IH] by auto
next
  case (use p out v c)
  then show ?case using object_allocator.use_co [OF assms(2) use.IH] by simp
next
  case (finalize p out v p')
  then show ?case using object_allocator.Finalize_co [OF assms(2) finalize.IH _ assms(3)] by fastforce
next
  case (fill p out q h)
  then show ?case using object_allocator.fill_co [OF assms(2) fill.IH] by simp
qed

text \<open>
  C9: a checked object pool never hands out an object that is in use, and finalizing an object in use whose reference count is zero
  returns: the object goes back into the pool when there is room, and no object is in the pool twice.
\<close>

theorem checked_objects_exclusive:
  assumes "object_allocator alloc" and "\<not> traceback g" and "NewCheckedObjectPool indef dflt sub oo h0 = Ret p0"
    and "co_reach g alloc p0 p out"
  shows "(\<exists>v p'. checkedObjectPool_Get p = (Ret v, p') \<and> v \<notin> out \<and> (\<forall>u\<in>out. objs (co_heap p') u = objs (co_heap p) u)) \<and>
    (\<forall>v\<in>out. ref (objs (co_heap p) v) = 0 \<longrightarrow>
      (\<exists>p'. object_Finalize g v p = (Ret (), p') \<and> distinct (p_values (co_pool p')) \<and>
        (length (p_values (co_pool p)) < p_cap (co_pool p) \<longrightarrow> v \<in> set (p_values (co_pool p')))))"
proof -
  note inv = co_reach_inv [OF assms(4,1,2,3)]
  have "\<exists>p'. object_Finalize g v p = (Ret (), p') \<and> distinct (p_values (co_pool p')) \<and>
      (length (p_values (co_pool p)) < p_cap (co_pool p) \<longrightarrow> v \<in> set (p_values (co_pool p')))"
    if v: "v \<in> out" and r: "ref (objs (co_heap p) v) = 0" for v
  proof -
    obtain p' where p': "object_Finalize g v p = (Ret (), p')" "object_allocator.co_inv alloc (out - {v}) p'"
      "p_values (co_pool p') = (if length (p_values (co_pool p)) < p_cap (co_pool p) then p_values (co_pool p) @ [v]
         else p_values (co_pool p))"
      using object_allocator.Finalize_co [OF assms(1) inv v assms(2) r] by blast
    have "distinct (p_values (co_pool p'))"
      using p'(2) assms(1) by (simp add: object_allocator.co_inv_def fresh_allocator.owns_def object_allocator.axioms(1))
    with p' show ?thesis by simp
  qed
  with object_allocator.Get_co [OF assms(1) inv] show ?thesis by blast
qed

definition ex_heap :: co_heap where
  "ex_heap = \<lparr>objs = (\<lambda>_. new_RefCount), next_obj = 0, fins = Map.empty, next_fin = 0\<rparr>"

definition ex_checkedObjectPool :: "unit checkedObjectPool" where
  "ex_checkedObjectPool =
     the_ret (NewCheckedObjectPool 0 () (\<lambda>x. x) (Some (pool_SetSize (NewObjectPoolOptions ()) 1)) ex_heap)"

text \<open>An object that was got and not yet referenced can be finalized, and the next one is another object.\<close>

theorem checked_objects_exclusive_witness:
  "\<exists>p1 v p2 u p3 p4. checkedObjectPool_Init alloc_RefCount ex_checkedObjectPool = (Ret (), p1) \<and>
     checkedObjectPool_Get p1 = (Ret v, p2) \<and> checkedObjectPool_Get p2 = (Ret u, p3) \<and> u \<noteq> v \<and>
     (ref (objs (co_heap p2) v) = 0 \<longrightarrow> object_Finalize default_globals v p2 = (Ret (), p4))"
proof -
  have new: "NewCheckedObjectPool 0 () (\<lambda>x. x) (Some (pool_SetSize (NewObjectPoolOptions ()) 1)) ex_heap = Ret ex_checkedObjectPool"
    by (simp add: ex_checkedObjectPool_def NewCheckedObjectPool_def NewObjectPool_def NewObjectPoolOptions_def opt_field Let_def)
  note excl = checked_objects_exclusive [OF ref_counts.object_allocator_axioms _ new, of default_globals]
  have g: "\<not> traceback default_globals" by (simp add: default_globals_def)
  obtain p1 where i: "checkedObjectPool_Init alloc_RefCount ex_checkedObjectPool = (Ret (), p1)"
    using ref_counts.Init_co [OF new] by blast
  then have r1: "co_reach default_globals alloc_RefCount ex_checkedObjectPool p1 {}" by (rule co_reach.init)
  obtain v p2 where v: "checkedObjectPool_Get p1 = (Ret v, p2)" using excl [OF g r1] by blast
  then have r2: "co_reach default_globals alloc_RefCount ex_checkedObjectPool p2 {v}" using co_reach.get [OF r1] by blast
  obtain u p3 where "checkedObjectPool_Get p2 = (Ret u, p3)" "u \<noteq> v" using excl [OF g r2] by blast
  moreover obtain p4 where "ref (objs (co_heap p2) v) = 0 \<longrightarrow> object_Finalize default_globals v p2 = (Ret (), p4)"
    using excl [OF g r2] by blast
  ultimately show ?thesis using i v by blast
qed

end
