(* ===== verification/DebugMutex.thy ===== *)
theory DebugMutex
  imports Prelude
begin

text \<open>
  The debugging read-write mutex of \<^verbatim>\<open>debug/mutex.go\<close>: a \<^verbatim>\<open>sync.RWMutex\<close> with counters of its users and the stack trace of the last
  writer.

  Every call is a sequence of atomic steps (an atomic counter, the wrapped mutex, the critical section of \<^verbatim>\<open>stateMutex\<close>), and the
  steps of different goroutines interleave.  The state records for every goroutine that is inside a call or holds the
  lock where it is.  The wrapped mutex admits a writer when nobody holds it and a reader when no writer does; the preference it
  gives to waiting writers only restricts the interleavings.
\<close>

section \<open>State\<close>

datatype phase =
    Pending string      \<comment> \<open>\<^verbatim>\<open>Lock\<close>: counted as pending, before \<^verbatim>\<open>m.mutex.Lock()\<close>\<close>
  | Acquired string     \<comment> \<open>\<^verbatim>\<open>Lock\<close>: before the writer is counted\<close>
  | Counted string      \<comment> \<open>\<^verbatim>\<open>Lock\<close>: before it is no longer counted as pending\<close>
  | Tracing string      \<comment> \<open>\<^verbatim>\<open>Lock\<close>: before the stack trace is taken\<close>
  | Writing string      \<comment> \<open>\<^verbatim>\<open>Lock\<close> has returned\<close>
  | Unlocked            \<comment> \<open>\<^verbatim>\<open>Unlock\<close>: before the writer is no longer counted\<close>
  | PendingRead         \<comment> \<open>\<^verbatim>\<open>RLock\<close>: counted, before \<^verbatim>\<open>m.mutex.RLock()\<close>\<close>
  | Reading             \<comment> \<open>\<^verbatim>\<open>RLock\<close> has returned\<close>
  | RUnlocked           \<comment> \<open>\<^verbatim>\<open>RUnlock\<close>: before the reader is no longer counted\<close>

record RWMutex =
  held :: bool
  read_held :: nat
  pendingWriters :: int
  writers :: int
  readers :: int
  stackBuf :: nat
  lastLockStack :: string
  phases :: "phase list"

definition new_RWMutex :: RWMutex where
  "new_RWMutex = \<lparr>held = False, read_held = 0, pendingWriters = 0, writers = 0, readers = 0, stackBuf = 0,
     lastLockStack = [], phases = []\<rparr>"

section \<open>Operations\<close>

text \<open>The length of the buffer is stored as an unsigned number and read back as a signed one.\<close>

definition SetRWMutexStackBufferLength :: "int \<Rightarrow> int" where
  "SetRWMutexStackBufferLength v = v mod 2 ^ 64"

definition RWMutexStackBufferLength :: "int \<Rightarrow> int" where
  "RWMutexStackBufferLength stored = wrap64 stored"

text \<open>The critical section of \<^verbatim>\<open>Lock\<close>: \<^verbatim>\<open>runtime.Stack\<close> fills the buffer with as much of the trace as fits.\<close>

definition trace_lock :: "int \<Rightarrow> string \<Rightarrow> RWMutex \<Rightarrow> RWMutex" where
  "trace_lock buflen t m =
     (let n = (if int (stackBuf m) < buflen then nat buflen else stackBuf m)
      in m\<lparr>stackBuf := n, lastLockStack := take n t\<rparr>)"

definition Lock_begin :: "string \<Rightarrow> RWMutex \<Rightarrow> RWMutex" where
  "Lock_begin t m = m\<lparr>pendingWriters := wrap64 (pendingWriters m + 1), phases := phases m @ [Pending t]\<rparr>"

definition RLock_begin :: "RWMutex \<Rightarrow> RWMutex" where
  "RLock_begin m = m\<lparr>readers := wrap64 (readers m + 1), phases := phases m @ [PendingRead]\<rparr>"

text \<open>The next step of the \<open>i\<close>-th goroutine inside a call; \<^const>\<open>None\<close> when it has to wait or its call has returned.\<close>

definition mutex_step :: "int \<Rightarrow> nat \<Rightarrow> RWMutex \<Rightarrow> RWMutex option" where
  "mutex_step buflen i m =
     (if length (phases m) \<le> i then None
      else
        (let goto = (\<lambda>ph m. Some (m\<lparr>phases := (phases m)[i := ph]\<rparr>));
             leave = (\<lambda>m. Some (m\<lparr>phases := remove_nth i (phases m)\<rparr>))
         in case phases m ! i of
              Pending t \<Rightarrow> (if held m \<or> 0 < read_held m then None else goto (Acquired t) (m\<lparr>held := True\<rparr>))
            | Acquired t \<Rightarrow> goto (Counted t) (m\<lparr>writers := wrap64 (writers m + 1)\<rparr>)
            | Counted t \<Rightarrow> goto (Tracing t) (m\<lparr>pendingWriters := wrap64 (pendingWriters m - 1)\<rparr>)
            | Tracing t \<Rightarrow> goto (Writing t) (trace_lock buflen t m)
            | Writing t \<Rightarrow> None
            | Unlocked \<Rightarrow> leave (m\<lparr>writers := wrap64 (writers m - 1)\<rparr>)
            | PendingRead \<Rightarrow> (if held m then None else goto Reading (m\<lparr>read_held := read_held m + 1\<rparr>))
            | Reading \<Rightarrow> None
            | RUnlocked \<Rightarrow> leave (m\<lparr>readers := wrap64 (readers m - 1)\<rparr>)))"

text \<open>The first step of \<^verbatim>\<open>Unlock\<close> and \<^verbatim>\<open>RUnlock\<close> by the \<open>i\<close>-th goroutine; the wrapped mutex panics when it is not held.\<close>

datatype mutex_panic = UnlockOfUnlocked | RUnlockOfUnlocked

definition Unlock_begin :: "nat \<Rightarrow> RWMutex \<Rightarrow> (mutex_panic, RWMutex) outcome" where
  "Unlock_begin i m =
     (if \<not> held m then Panic UnlockOfUnlocked else Ret (m\<lparr>held := False, phases := (phases m)[i := Unlocked]\<rparr>))"

definition RUnlock_begin :: "nat \<Rightarrow> RWMutex \<Rightarrow> (mutex_panic, RWMutex) outcome" where
  "RUnlock_begin i m =
     (if read_held m = 0 then Panic RUnlockOfUnlocked
      else Ret (m\<lparr>read_held := read_held m - 1, phases := (phases m)[i := RUnlocked]\<rparr>))"

text \<open>The locker of \<^verbatim>\<open>RLocker\<close>.\<close>

definition RLocker :: "RWMutex \<Rightarrow> RWMutex" where "RLocker m = m"

definition rlocker_Lock :: "RWMutex \<Rightarrow> RWMutex" where "rlocker_Lock m = RLock_begin m"

definition rlocker_Unlock :: "nat \<Rightarrow> RWMutex \<Rightarrow> (mutex_panic, RWMutex) outcome" where
  "rlocker_Unlock i m = RUnlock_begin i m"

section \<open>Reports\<close>

datatype sink = LogInfo string | WriterWrite string | StderrWrite string

definition mutex_println :: "string \<Rightarrow> bool \<Rightarrow> bool \<Rightarrow> string \<Rightarrow> sink" where
  "mutex_println name has_log has_writer str =
     (let name = (if name = [] then ''unnamed'' else name);
          contents = ''debug.RWMutex['' @ name @ '']: '' @ str
      in if has_log then LogInfo contents
         else if has_writer then WriterWrite (contents @ [CHR 0x0A])
         else StderrWrite (contents @ [CHR 0x0A]))"

text \<open>
  \<^verbatim>\<open>Report\<close> loads the counters one after the other, and the trace last: \<open>m1\<close> to \<open>m4\<close> are the states at the four reads.
\<close>

definition Report :: "string \<Rightarrow> bool \<Rightarrow> bool \<Rightarrow> RWMutex \<Rightarrow> RWMutex \<Rightarrow> RWMutex \<Rightarrow> RWMutex \<Rightarrow> sink" where
  "Report name has_log has_writer m1 m2 m3 m4 =
     (let str = ''writers '' @ Itoa (writers m1) @ '' (pending '' @ Itoa (pendingWriters m2) @ '') readers '' @ Itoa (readers m3);
          str = (if writers m1 > 0 then str @ '', stack: '' @ lastLockStack m4 else str)
      in mutex_println name has_log has_writer str)"

section \<open>Periodic reports\<close>

text \<open>
  \<^verbatim>\<open>ReportEvery\<close>: a ticker whose channel holds one tick, and the goroutine that ranges over the channel.  \<^verbatim>\<open>Close\<close> stops the ticker, which does
  not close its channel.  \<open>tk_reports\<close> are the reports so far.
\<close>

record reportTicker =
  tk_running :: bool
  tk_tick :: bool
  tk_reports :: "sink list"

datatype ticker_panic = NonPositiveTicker

definition ReportEvery :: "int \<Rightarrow> (ticker_panic, reportTicker) outcome" where
  "ReportEvery interval =
     (if interval \<le> 0 then Panic NonPositiveTicker else Ret \<lparr>tk_running = True, tk_tick = False, tk_reports = []\<rparr>)"

definition tickerCloser_Close :: "reportTicker \<Rightarrow> reportTicker" where
  "tickerCloser_Close t = t\<lparr>tk_running := False\<rparr>"

text \<open>The interval elapses: a tick is dropped when the channel is full.\<close>

definition ticker_fire :: "reportTicker \<Rightarrow> reportTicker" where
  "ticker_fire t = (if tk_running t then t\<lparr>tk_tick := True\<rparr> else t)"

text \<open>One round of the goroutine; \<^const>\<open>None\<close> when it waits for the channel.\<close>

definition report_round :: "sink \<Rightarrow> reportTicker \<Rightarrow> reportTicker option" where
  "report_round report t = (if tk_tick t then Some (t\<lparr>tk_tick := False, tk_reports := tk_reports t @ [report]\<rparr>) else None)"

inductive ticker_steps :: "reportTicker \<Rightarrow> reportTicker \<Rightarrow> bool" for t where
  start: "ticker_steps t t"
| fire: "ticker_steps t u \<Longrightarrow> ticker_steps t (ticker_fire u)"
| round: "ticker_steps t u \<Longrightarrow> report_round r u = Some v \<Longrightarrow> ticker_steps t v"
| stop: "ticker_steps t u \<Longrightarrow> ticker_steps t (tickerCloser_Close u)"

lemma closed_ticker:
  assumes "ticker_steps (tickerCloser_Close t) u"
  shows "\<not> tk_running u \<and> length (tk_reports u) + of_bool (tk_tick u) = length (tk_reports t) + of_bool (tk_tick t)"
  using assms
  by (induction rule: ticker_steps.induct)
    (auto simp: tickerCloser_Close_def ticker_fire_def report_round_def split: if_splits)

text \<open>
  After \<^verbatim>\<open>Close\<close> there is at most one more report, for a tick that was in the channel; then the goroutine waits forever and never ends.
\<close>

theorem closed_ticker_waits:
  assumes "ticker_steps (tickerCloser_Close t) u"
  shows "length (tk_reports u) \<le> Suc (length (tk_reports t)) \<and>
    (report_round r u = None \<longleftrightarrow> length (tk_reports u) = length (tk_reports t) + of_bool (tk_tick t))"
  using closed_ticker [OF assms] by (auto simp: report_round_def of_bool_def split: if_splits)

section \<open>Interleavings\<close>

text \<open>Clients unlock only what they have locked; \<open>b\<close> is the configured length of the buffer.\<close>

inductive mutex_reach :: "int \<Rightarrow> RWMutex \<Rightarrow> bool" for b where
  start: "mutex_reach b new_RWMutex"
| lock: "mutex_reach b m \<Longrightarrow> mutex_reach b (Lock_begin t m)"
| rlock: "mutex_reach b m \<Longrightarrow> mutex_reach b (RLock_begin m)"
| step: "mutex_reach b m \<Longrightarrow> mutex_step b i m = Some m' \<Longrightarrow> mutex_reach b m'"
| unlock: "mutex_reach b m \<Longrightarrow> i < length (phases m) \<Longrightarrow> phases m ! i = Writing t \<Longrightarrow> Unlock_begin i m = Ret m' \<Longrightarrow>
    mutex_reach b m'"
| runlock: "mutex_reach b m \<Longrightarrow> i < length (phases m) \<Longrightarrow> phases m ! i = Reading \<Longrightarrow> RUnlock_begin i m = Ret m' \<Longrightarrow>
    mutex_reach b m'"

fun is_pending :: "phase \<Rightarrow> bool" where
  "is_pending (Pending t) = True" | "is_pending (Acquired t) = True" | "is_pending (Counted t) = True"
| "is_pending _ = False"

fun is_writer :: "phase \<Rightarrow> bool" where
  "is_writer (Counted t) = True" | "is_writer (Tracing t) = True" | "is_writer (Writing t) = True"
| "is_writer Unlocked = True" | "is_writer _ = False"

fun is_reader :: "phase \<Rightarrow> bool" where
  "is_reader PendingRead = True" | "is_reader Reading = True" | "is_reader RUnlocked = True" | "is_reader _ = False"

fun holds_write :: "phase \<Rightarrow> bool" where
  "holds_write (Acquired t) = True" | "holds_write (Counted t) = True" | "holds_write (Tracing t) = True"
| "holds_write (Writing t) = True" | "holds_write _ = False"

definition count_ph :: "(phase \<Rightarrow> bool) \<Rightarrow> phase list \<Rightarrow> int" where
  "count_ph P ps = int (length (filter P ps))"

definition counters_ok :: "RWMutex \<Rightarrow> bool" where
  "counters_ok m \<longleftrightarrow>
     pendingWriters m = wrap64 (count_ph is_pending (phases m)) \<and>
     writers m = wrap64 (count_ph is_writer (phases m)) \<and>
     readers m = wrap64 (count_ph is_reader (phases m)) \<and>
     count_ph holds_write (phases m) = (if held m then 1 else 0) \<and>
     count_ph ((=) Reading) (phases m) = int (read_held m) \<and> (held m \<longrightarrow> read_held m = 0)"

definition trace_ok :: "int \<Rightarrow> RWMutex \<Rightarrow> bool" where
  "trace_ok b m \<longleftrightarrow>
     (\<forall>t. Writing t \<in> set (phases m) \<longrightarrow> b \<le> int (stackBuf m) \<and> lastLockStack m = take (stackBuf m) t)"

section \<open>Counters\<close>

lemma count_ph_simps [simp]:
  "count_ph P [] = 0" "count_ph P (x # xs) = of_bool (P x) + count_ph P xs" "count_ph P (xs @ ys) = count_ph P xs + count_ph P ys"
  by (simp_all add: count_ph_def)

lemma count_ph_mset: "count_ph P xs = int (size (filter_mset P (mset xs)))"
  by (simp add: count_ph_def flip: mset_filter)

lemma count_ph_update:
  assumes "i < length xs"
  shows "count_ph P (xs[i := y]) = count_ph P xs - of_bool (P (xs ! i)) + of_bool (P y)"
    and "count_ph P (remove_nth i xs) = count_ph P xs - of_bool (P (xs ! i))"
  by (rule mset_nth_split [OF assms]; simp add: count_ph_mset)+

lemma count_ph_none: "count_ph P xs = 0 \<longleftrightarrow> (\<forall>x\<in>set xs. \<not> P x)"
  by (simp add: count_ph_def filter_empty_conv)

text \<open>When one entry is the only one with a property, the others do not have it.\<close>

lemma count_ph_only:
  assumes "i < length xs" and "P (xs ! i)" and "count_ph P xs \<le> 1"
  shows "\<forall>x\<in>set (remove_nth i xs). \<not> P x" and "x \<in> set (xs[i := y]) \<Longrightarrow> x = y \<or> \<not> P x"
proof -
  have "count_ph P xs \<noteq> 0" using assms(1,2) by (auto simp: count_ph_none)
  moreover have "0 \<le> count_ph P xs" by (simp add: count_ph_def)
  ultimately have "count_ph P xs = 1" using assms(3) by linarith
  then have "count_ph P (remove_nth i xs) = 0" using assms(1,2) by (simp add: count_ph_update)
  then show n: "\<forall>x\<in>set (remove_nth i xs). \<not> P x" by (simp add: count_ph_none)
  show "x = y \<or> \<not> P x" if "x \<in> set (xs[i := y])"
  proof -
    have "set (xs[i := y]) = insert y (set (remove_nth i xs))"
      using assms(1) by (rule_tac mset_nth_split [OF assms(1)]) (metis set_mset_add_mset_insert set_mset_mset)
    then show ?thesis using that n by auto
  qed
qed

lemma set_update_cases: "x \<in> set (xs[i := y]) \<Longrightarrow> x = y \<or> x \<in> set xs"
  using set_update_subset_insert [of xs i y] by blast

lemma set_remove_nth: "x \<in> set (remove_nth i xs) \<Longrightarrow> x \<in> set xs"
  by (auto simp: remove_nth_def dest: in_set_takeD in_set_dropD)

section \<open>The invariant\<close>

lemma trace_ok_keep:
  assumes "trace_ok b m" and "stackBuf m' = stackBuf m" and "lastLockStack m' = lastLockStack m"
    and "\<And>t. Writing t \<in> set (phases m') \<Longrightarrow> Writing t \<in> set (phases m)"
  shows "trace_ok b m'"
  using assms unfolding trace_ok_def by auto

lemma counters_step:
  assumes "counters_ok m" and "mutex_step b i m = Some m'"
  shows "counters_ok m'"
proof -
  have i: "i < length (phases m)" using assms(2) by (auto simp: mutex_step_def split: if_splits)
  note upd = count_ph_update [OF i]
  show ?thesis using assms i
    by (cases "phases m ! i") (auto simp: mutex_step_def counters_ok_def upd Let_def trace_lock_def algebra_simps split: if_splits)
qed

lemma trace_step:
  assumes "counters_ok m" and "trace_ok b m" and "mutex_step b i m = Some m'"
  shows "trace_ok b m'"
proof -
  have i: "i < length (phases m)" using assms(3) by (auto simp: mutex_step_def split: if_splits)
  show ?thesis
  proof (cases "phases m ! i")
    case (Tracing t)
    have "count_ph holds_write (phases m) \<le> 1" using assms(1) by (simp add: counters_ok_def)
    from count_ph_only(2) [OF i _ this] Tracing have
      w: "u = t" if "Writing u \<in> set ((phases m)[i := Writing t])" for u using that by fastforce
    have "m' = (trace_lock b t m)\<lparr>phases := (phases m)[i := Writing t]\<rparr>"
      using assms(3) i Tracing by (simp add: mutex_step_def trace_lock_def Let_def)
    then show ?thesis using w by (auto simp: trace_ok_def trace_lock_def Let_def)
  qed (rule trace_ok_keep [OF assms(2)];
      use assms(3) i in \<open>auto simp: mutex_step_def Let_def split: if_splits dest: set_update_cases set_remove_nth\<close>)+
qed

lemma unlock_inv:
  assumes "counters_ok m" and "trace_ok b m" and "i < length (phases m)" and "phases m ! i = Writing t"
    and "Unlock_begin i m = Ret m'"
  shows "counters_ok m' \<and> trace_ok b m'"
proof
  show "counters_ok m'" using assms by (auto simp: Unlock_begin_def counters_ok_def count_ph_update split: if_splits)
  show "trace_ok b m'"
    by (rule trace_ok_keep [OF assms(2)]) (use assms(5) in \<open>auto simp: Unlock_begin_def split: if_splits dest: set_update_cases\<close>)
qed

lemma runlock_inv:
  assumes "counters_ok m" and "trace_ok b m" and "i < length (phases m)" and "phases m ! i = Reading"
    and "RUnlock_begin i m = Ret m'"
  shows "counters_ok m' \<and> trace_ok b m'"
proof
  show "counters_ok m'" using assms by (auto simp: RUnlock_begin_def counters_ok_def count_ph_update split: if_splits)
  show "trace_ok b m'"
    by (rule trace_ok_keep [OF assms(2)]) (use assms(5) in \<open>auto simp: RUnlock_begin_def split: if_splits dest: set_update_cases\<close>)
qed

lemma mutex_reach_inv: "mutex_reach b m \<Longrightarrow> counters_ok m \<and> trace_ok b m"
proof (induction rule: mutex_reach.induct)
  case start
  show ?case by (simp add: counters_ok_def trace_ok_def new_RWMutex_def wrap_s_def)
next
  case (lock m t)
  then show ?case by (simp add: counters_ok_def trace_ok_def Lock_begin_def algebra_simps)
next
  case (rlock m)
  then show ?case by (simp add: counters_ok_def trace_ok_def RLock_begin_def algebra_simps)
qed (use counters_step trace_step unlock_inv runlock_inv in blast)+

section \<open>Properties\<close>

text \<open>
  C29: in every interleaving in which clients unlock what they have locked, the unlocking calls never panic; a writer excludes every
  other writer and every reader; while it holds the lock the last trace is its own, cut off at the length of the buffer;
  and when no call is under way and nobody holds the lock, all counters are zero.
\<close>

theorem debug_mutex_sound:
  assumes "mutex_reach b m"
  shows "(\<forall>i t. i < length (phases m) \<and> phases m ! i = Writing t \<longrightarrow>
      (\<exists>m'. Unlock_begin i m = Ret m') \<and> lastLockStack m = take (stackBuf m) t \<and>
      (\<forall>x\<in>set (remove_nth i (phases m)). \<not> holds_write x \<and> x \<noteq> Reading)) \<and>
    (\<forall>i. i < length (phases m) \<and> phases m ! i = Reading \<longrightarrow> (\<exists>m'. RUnlock_begin i m = Ret m')) \<and>
    (phases m = [] \<longrightarrow> pendingWriters m = 0 \<and> writers m = 0 \<and> readers m = 0)"
proof (intro conjI allI impI)
  note inv = mutex_reach_inv [OF assms, unfolded counters_ok_def trace_ok_def]
  fix i t assume a: "i < length (phases m) \<and> phases m ! i = Writing t"
  then have "\<not> (\<forall>x\<in>set (phases m). \<not> holds_write x)" by (metis holds_write.simps(4) nth_mem)
  then have h: "held m" "count_ph holds_write (phases m) \<le> 1" "count_ph ((=) Reading) (phases m) = 0"
    using inv count_ph_none [of holds_write "phases m"] by (auto split: if_splits)
  then show "\<exists>m'. Unlock_begin i m = Ret m'" by (simp add: Unlock_begin_def)
  show "lastLockStack m = take (stackBuf m) t" using inv a nth_mem by fastforce
  show "\<forall>x\<in>set (remove_nth i (phases m)). \<not> holds_write x \<and> x \<noteq> Reading"
    using count_ph_only(1) [OF _ _ h(2)] a h(3) by (auto simp: count_ph_none dest: set_remove_nth)
next
  note inv = mutex_reach_inv [OF assms, unfolded counters_ok_def trace_ok_def]
  fix i assume "i < length (phases m) \<and> phases m ! i = Reading"
  then have "\<not> (\<forall>x\<in>set (phases m). Reading \<noteq> x)" by (metis nth_mem)
  then show "\<exists>m'. RUnlock_begin i m = Ret m'"
    using inv count_ph_none [of "(=) Reading" "phases m"] by (auto simp: RUnlock_begin_def)
qed (use mutex_reach_inv [OF assms] in \<open>simp_all add: counters_ok_def wrap_s_def\<close>)

text \<open>A mutex with one writer, whose trace is longer than the buffer.\<close>

theorem debug_mutex_sound_witness:
  "\<exists>m m'. mutex_reach 2 m \<and> phases m = [Writing ''main.go''] \<and> lastLockStack m = ''ma'' \<and> Unlock_begin 0 m = Ret m'"
proof -
  let ?step = "\<lambda>m. the (mutex_step 2 0 m)"
  define m where "m = ?step (?step (?step (?step (Lock_begin ''main.go'' new_RWMutex))))"
  note defs = Lock_begin_def new_RWMutex_def mutex_step_def trace_lock_def wrap_s_def Let_def
  have s: "mutex_reach 2 m \<Longrightarrow> mutex_step 2 0 m \<noteq> None \<Longrightarrow> mutex_reach 2 (?step m)" for m
    by (auto intro: mutex_reach.step)
  have m: "mutex_reach 2 m" "phases m = [Writing ''main.go'']" "stackBuf m = 2"
    unfolding m_def by (intro s mutex_reach.intros; simp add: defs) (simp_all add: defs)
  from debug_mutex_sound [OF m(1)] m(2,3) have "\<exists>m'. Unlock_begin 0 m = Ret m'" "lastLockStack m = ''ma''" by auto
  with m show ?thesis by blast
qed

text \<open>
  The counter of writers is decremented after the lock is released, so a report may show two writers although the lock excludes
  them.
\<close>

theorem writers_counted_twice: "\<exists>m. mutex_reach b m \<and> writers m = 2 \<and> count_ph holds_write (phases m) = 1"
proof -
  let ?step = "\<lambda>i m. the (mutex_step b i m)"
  define m1 where "m1 = ?step 0 (?step 0 (?step 0 (?step 0 (Lock_begin [] new_RWMutex))))"
  define m2 where "m2 = Lock_begin [] (m1\<lparr>held := False, phases := [Unlocked]\<rparr>)"
  note defs = Lock_begin_def new_RWMutex_def mutex_step_def trace_lock_def wrap_s_def Let_def
  have s: "mutex_reach b m \<Longrightarrow> mutex_step b i m \<noteq> None \<Longrightarrow> mutex_reach b (?step i m)" for i m
    by (auto intro: mutex_reach.step)
  have 1: "mutex_reach b m1" "phases m1 = [Writing []]" "held m1"
    unfolding m1_def by (intro s mutex_reach.intros; simp add: defs) (simp_all add: defs)
  have "Unlock_begin 0 m1 = Ret (m1\<lparr>held := False, phases := [Unlocked]\<rparr>)" using 1 by (simp add: Unlock_begin_def)
  from mutex_reach.unlock [OF 1(1) _ _ this] have 2: "mutex_reach b m2"
    unfolding m2_def using 1(2) by (intro mutex_reach.lock) simp
  have "mutex_reach b (?step 1 (?step 1 m2)) \<and> writers (?step 1 (?step 1 m2)) = 2 \<and>
      count_ph holds_write (phases (?step 1 (?step 1 m2))) = 1"
    using 2 by (intro conjI s) (simp_all add: m2_def m1_def defs)
  then show ?thesis by blast
qed

end
