(* ===== verification/Resource.thy ===== *)
theory Resource
  imports Prelude
begin

text \<open>
  The small interfaces for releasing resources: \<^verbatim>\<open>close/close.go\<close>, the function types of \<^verbatim>\<open>resource/types.go\<close>, and the listener of
  \<^verbatim>\<open>tcp/tcp.go\<close> that sets the keep-alive of the connections it accepts.
\<close>

section \<open>Closing\<close>

text \<open>
  What \<^verbatim>\<open>TryClose\<close> finds out about its argument: an \<^verbatim>\<open>io.Closer\<close>, whose \<^verbatim>\<open>Close\<close> returns an error or nil, a closer without result, or
  neither.  The methods act on a state \<open>'s\<close>.
\<close>

datatype ('s, 'e) closeable =
    Closer "'s \<Rightarrow> 'e option \<times> 's"
  | SimpleCloser "'s \<Rightarrow> 's"
  | NotCloseable

datatype 'e close_error = CloseError 'e | ErrNotCloseable

fun TryClose :: "('s, 'e) closeable \<Rightarrow> 's \<Rightarrow> 'e close_error option \<times> 's" where
  "TryClose (Closer cl) s = (case cl s of (e, s) \<Rightarrow> (map_option CloseError e, s))"
| "TryClose (SimpleCloser cl) s = (None, cl s)"
| "TryClose NotCloseable s = (Some ErrNotCloseable, s)"

definition FinalizerFn_Finalize :: "('s \<Rightarrow> 's) \<Rightarrow> 's \<Rightarrow> 's" where "FinalizerFn_Finalize f s = f s"

definition CloserFn_Close :: "('s \<Rightarrow> 's) \<Rightarrow> 's \<Rightarrow> 's" where "CloserFn_Close f s = f s"

text \<open>The resource is released at most once, exactly when it can be, and only then the call may succeed.\<close>

lemma TryClose_success:
  "fst (TryClose r s) = None \<longleftrightarrow>
     (case r of Closer cl \<Rightarrow> fst (cl s) = None | SimpleCloser cl \<Rightarrow> True | NotCloseable \<Rightarrow> False)"
  by (cases r) (auto split: prod.splits)

lemma TryClose_closer_fn: "TryClose (SimpleCloser (CloserFn_Close f)) s = (None, f s)"
  by (simp add: CloserFn_Close_def)

section \<open>The keep-alive listener\<close>

text \<open>\<open>listen\<close> and \<open>accept\<close> are the network library; the settings of the accepted connections are recorded in order.\<close>

record tcpKeepAliveListener =
  keepAlivePeriod :: int
  settings :: "(nat \<times> bool \<times> int) list"

definition NewTCPListener ::
    "(string \<Rightarrow> 'e option) \<Rightarrow> string \<Rightarrow> int \<Rightarrow> ('e, tcpKeepAliveListener) result" where
  "NewTCPListener listen listenAddress period =
     (case listen listenAddress of Some e \<Rightarrow> Inl e | None \<Rightarrow> Inr \<lparr>keepAlivePeriod = period, settings = []\<rparr>)"

definition tcpKeepAliveListener_Accept ::
    "('e, nat) result \<Rightarrow> tcpKeepAliveListener \<Rightarrow> ('e, nat) result \<times> tcpKeepAliveListener" where
  "tcpKeepAliveListener_Accept accepted ln =
     (case accepted of
        Inl e \<Rightarrow> (Inl e, ln)
      | Inr tc \<Rightarrow> (Inr tc, ln\<lparr>settings := settings ln @ [(tc, True, keepAlivePeriod ln)]\<rparr>))"

text \<open>Every connection that was accepted has its keep-alive switched on with the period of the listener.\<close>

lemma Accept_keeps_alive:
  assumes "fold (\<lambda>a (cs, ln). case tcpKeepAliveListener_Accept a ln of (Inr c, ln) \<Rightarrow> (cs @ [c], ln) | (Inl e, ln) \<Rightarrow> (cs, ln))
      as (cs, ln) = (cs', ln')"
  shows "\<exists>new. cs' = cs @ new \<and> settings ln' = settings ln @ map (\<lambda>c. (c, True, keepAlivePeriod ln)) new \<and>
    keepAlivePeriod ln' = keepAlivePeriod ln"
  using assms
proof (induction as arbitrary: cs ln)
  case (Cons a as)
  then show ?case by (cases a) (fastforce simp: tcpKeepAliveListener_Accept_def)+
qed simp

end
