(* ===== verification/Reporters.thy ===== *)
theory Reporters
  imports Instrument Config
begin

text \<open>
  The reporters of the package \<^verbatim>\<open>instrument\<close> that emit metrics of the runtime and the process (\<^verbatim>\<open>extended.go\<close>, \<^verbatim>\<open>process.go\<close>) and of the
  build (\<^verbatim>\<open>build.go\<close>), and the configuration of metrics (\<^verbatim>\<open>config.go\<close>).

  A gauge of the metrics library is the list of its updates, a counter its value; a metric that was not created is nil, and using
  it panics.  What the runtime and the operating system say at a report is an argument.
\<close>

section \<open>Metrics of the runtime and the process\<close>

datatype metric_panic = NilMetric | NonPositiveInterval

record runtimeStats =
  rs_NumGoroutine :: int
  rs_GOMAXPROCS :: int
  rs_Alloc :: nat
  rs_HeapAlloc :: nat
  rs_HeapIdle :: nat
  rs_HeapInuse :: nat
  rs_StackInuse :: nat
  rs_GCCPUFraction :: float64
  rs_NumGC :: "32 word"
  rs_PauseNs :: "nat \<Rightarrow> nat"

type_synonym gauge = "float64 list option"

record runtimeMetrics =
  rm_NumGoRoutines :: gauge
  rm_GoMaxProcs :: gauge
  rm_MemoryAllocated :: gauge
  rm_MemoryHeap :: gauge
  rm_MemoryHeapIdle :: gauge
  rm_MemoryHeapInuse :: gauge
  rm_MemoryStack :: gauge
  rm_GCCPUFraction :: gauge
  rm_gc_created :: bool
  rm_gc :: gc_metrics

definition nil_runtimeMetrics :: runtimeMetrics where
  "nil_runtimeMetrics =
     \<lparr>rm_NumGoRoutines = None, rm_GoMaxProcs = None, rm_MemoryAllocated = None, rm_MemoryHeap = None, rm_MemoryHeapIdle = None,
      rm_MemoryHeapInuse = None, rm_MemoryStack = None, rm_GCCPUFraction = None, rm_gc_created = False,
      rm_gc = \<lparr>lastNumGC = 0, NumGC = 0, GcPauseMs = []\<rparr>\<rparr>"

text \<open>\<^verbatim>\<open>Update\<close> of the gauge in a field, given by its selector and its update.\<close>

definition Gauge_Update :: "('r \<Rightarrow> gauge) \<Rightarrow> ((gauge \<Rightarrow> gauge) \<Rightarrow> 'r \<Rightarrow> 'r) \<Rightarrow> float64 \<Rightarrow> 'r \<Rightarrow> (metric_panic, 'r) outcome" where
  "Gauge_Update sel upd v r = (case sel r of None \<Rightarrow> Panic NilMetric | Some us \<Rightarrow> Ret (upd (\<lambda>_. Some (us @ [v])) r))"

text \<open>The order of the levels of metrics.\<close>

fun metrics_level :: "ExtendedMetricsType \<Rightarrow> nat" where
  "metrics_level NoExtendedMetrics = 0"
| "metrics_level SimpleExtendedMetrics = 1"
| "metrics_level ModerateExtendedMetrics = 2"
| "metrics_level DetailedExtendedMetrics = 3"

instantiation ExtendedMetricsType :: linorder
begin

definition less_eq_ExtendedMetricsType :: "ExtendedMetricsType \<Rightarrow> ExtendedMetricsType \<Rightarrow> bool" where
  "less_eq_ExtendedMetricsType a b \<longleftrightarrow> metrics_level a \<le> metrics_level b"

definition less_ExtendedMetricsType :: "ExtendedMetricsType \<Rightarrow> ExtendedMetricsType \<Rightarrow> bool" where
  "less_ExtendedMetricsType a b \<longleftrightarrow> metrics_level a < metrics_level b"

instance
proof
  fix a b :: ExtendedMetricsType
  show "a \<le> b \<Longrightarrow> b \<le> a \<Longrightarrow> a = b"
    by (cases a; cases b) (simp_all add: less_eq_ExtendedMetricsType_def)
qed (auto simp: less_eq_ExtendedMetricsType_def less_ExtendedMetricsType_def)

end

definition runtimeMetrics_report ::
    "ExtendedMetricsType \<Rightarrow> runtimeStats \<Rightarrow> runtimeMetrics \<Rightarrow> (metric_panic, runtimeMetrics) outcome" where
  "runtimeMetrics_report t st r =
     (if t = NoExtendedMetrics then Ret r
      else
        bind_outcome (Gauge_Update rm_NumGoRoutines rm_NumGoRoutines_update (float_of_int (rs_NumGoroutine st)) r) (\<lambda>r.
        bind_outcome (Gauge_Update rm_GoMaxProcs rm_GoMaxProcs_update (float_of_int (rs_GOMAXPROCS st)) r) (\<lambda>r.
        if t < DetailedExtendedMetrics then Ret r
        else
          bind_outcome (Gauge_Update rm_MemoryAllocated rm_MemoryAllocated_update (float_of_int (int (rs_Alloc st))) r) (\<lambda>r.
          bind_outcome (Gauge_Update rm_MemoryHeap rm_MemoryHeap_update (float_of_int (int (rs_HeapAlloc st))) r) (\<lambda>r.
          bind_outcome (Gauge_Update rm_MemoryHeapIdle rm_MemoryHeapIdle_update (float_of_int (int (rs_HeapIdle st))) r) (\<lambda>r.
          bind_outcome (Gauge_Update rm_MemoryHeapInuse rm_MemoryHeapInuse_update (float_of_int (int (rs_HeapInuse st))) r) (\<lambda>r.
          bind_outcome (Gauge_Update rm_MemoryStack rm_MemoryStack_update (float_of_int (int (rs_StackInuse st))) r) (\<lambda>r.
          bind_outcome (Gauge_Update rm_GCCPUFraction rm_GCCPUFraction_update (rs_GCCPUFraction st) r) (\<lambda>r.
          if \<not> rm_gc_created r \<and> rs_NumGC st \<noteq> lastNumGC (rm_gc r) then Panic NilMetric
          else Ret (r\<lparr>rm_gc := report_gc (rs_NumGC st) (rs_PauseNs st) (rm_gc r)\<rparr>)))))))))) "

record processMetrics =
  pm_NumFDs :: gauge
  pm_NumFDErrors :: "int option"
  pm_pid :: int

text \<open>
  The package \<^verbatim>\<open>process\<close>: on Linux, where a directory is opened and the names in it are read, possibly with an error after some of
  them, and on other systems.
\<close>

definition NumFDs_linux ::
    "(string \<Rightarrow> (string, 'd) result) \<Rightarrow> ('d \<Rightarrow> string list \<times> string option) \<Rightarrow> int \<Rightarrow> int \<times> string option" where
  "NumFDs_linux open_dir read_names pid =
     (case open_dir (''/proc/'' @ Itoa pid @ ''/fd'') of
        Inl e \<Rightarrow> (0, Some e)
      | Inr d \<Rightarrow> (case read_names d of (fnames, err) \<Rightarrow> (int (length fnames), err)))"

definition errNotAvailable :: string where
  "errNotAvailable = ''cannot get process file descriptors, only available on linux''"

definition NumFDs_notlinux :: "int \<Rightarrow> int \<times> string option" where
  "NumFDs_notlinux pid = (0, Some errNotAvailable)"

text \<open>\<open>numFDs\<close> is \<^verbatim>\<open>process.NumFDs\<close>: the number of open files of a process, and an error.\<close>

definition processMetrics_report ::
    "(int \<Rightarrow> int \<times> string option) \<Rightarrow> processMetrics \<Rightarrow> (metric_panic, processMetrics) outcome" where
  "processMetrics_report numFDs r =
     (case numFDs (pm_pid r) of
        (n, None) \<Rightarrow> Gauge_Update pm_NumFDs pm_NumFDs_update (float_of_int n) r
      | (n, Some e) \<Rightarrow> (case pm_NumFDErrors r of None \<Rightarrow> Panic NilMetric | Some k \<Rightarrow> Ret (r\<lparr>pm_NumFDErrors := Some (k + 1)\<rparr>)))"

record processReporter =
  pr_base :: baseReporter
  pr_metrics :: processMetrics

definition NewProcessReporter :: "int \<Rightarrow> int \<Rightarrow> processReporter" where
  "NewProcessReporter reportInterval pid =
     \<lparr>pr_base = reporter_init reportInterval,
      pr_metrics = \<lparr>pm_NumFDs = Some [], pm_NumFDErrors = Some 0, pm_pid = pid\<rparr>\<rparr>"

section \<open>The extended metrics reporter\<close>

record extendedMetricsReporter =
  er_base :: baseReporter
  er_metricsType :: ExtendedMetricsType
  er_runtime :: runtimeMetrics
  er_process :: processMetrics

text \<open>\<open>numGC\<close> is the number of garbage collections when the reporter is made.\<close>

definition NewExtendedMetricsReporter :: "int \<Rightarrow> ExtendedMetricsType \<Rightarrow> int \<Rightarrow> 32 word \<Rightarrow> extendedMetricsReporter" where
  "NewExtendedMetricsReporter reportInterval t pid numGC =
     (let r = \<lparr>er_base = reporter_init reportInterval, er_metricsType = t, er_runtime = nil_runtimeMetrics,
               er_process = \<lparr>pm_NumFDs = None, pm_NumFDErrors = None, pm_pid = 0\<rparr>\<rparr>
      in if t = NoExtendedMetrics then r
         else
           (let r = r\<lparr>er_runtime := (er_runtime r)\<lparr>rm_NumGoRoutines := Some [], rm_GoMaxProcs := Some []\<rparr>,
                      er_process := \<lparr>pm_NumFDs = Some [], pm_NumFDErrors = Some 0, pm_pid = pid\<rparr>\<rparr>
            in if t < DetailedExtendedMetrics then r
               else r\<lparr>er_runtime := (er_runtime r)
                       \<lparr>rm_MemoryAllocated := Some [], rm_MemoryHeap := Some [], rm_MemoryHeapIdle := Some [],
                        rm_MemoryHeapInuse := Some [], rm_MemoryStack := Some [], rm_GCCPUFraction := Some [],
                        rm_gc_created := True, rm_gc := (rm_gc (er_runtime r))\<lparr>lastNumGC := numGC\<rparr>\<rparr>\<rparr>))"

text \<open>The function the reporter was initialized with, called by its goroutine at every tick.\<close>

definition extended_report ::
    "runtimeStats \<Rightarrow> (int \<Rightarrow> int \<times> string option) \<Rightarrow> extendedMetricsReporter \<Rightarrow> (metric_panic, extendedMetricsReporter) outcome" where
  "extended_report st numFDs r =
     bind_outcome (runtimeMetrics_report (er_metricsType r) st (er_runtime r)) (\<lambda>rt.
     let r = r\<lparr>er_runtime := rt\<rparr> in
     if er_metricsType r \<ge> ModerateExtendedMetrics
     then bind_outcome (processMetrics_report numFDs (er_process r)) (\<lambda>pm. Ret (r\<lparr>er_process := pm\<rparr>))
     else Ret r)"

definition StartReportingExtendedMetrics ::
    "int \<Rightarrow> ExtendedMetricsType \<Rightarrow> int \<Rightarrow> 32 word \<Rightarrow> (reporter_error, extendedMetricsReporter) result" where
  "StartReportingExtendedMetrics reportInterval t pid numGC =
     (let r = NewExtendedMetricsReporter reportInterval t pid numGC in
      case reporter_Start (er_base r) of
        (Some e, _) \<Rightarrow> Inl e
      | (None, b) \<Rightarrow> Inr (r\<lparr>er_base := b\<rparr>))"

section \<open>The build reporter\<close>

datatype build_error = errAlreadyStarted | errNotStarted | errBuildTimeNegative | ParseError

text \<open>The variables that the linker sets, and the lines \<^verbatim>\<open>LogBuildInfo\<close> writes to the standard logger.\<close>

record buildInfo =
  Revision :: string
  Branch :: string
  Version :: string
  BuildDate :: string
  BuildTimeUnix :: string
  LogBuildInfoAtStartup :: string
  goVersion :: string

definition default_buildInfo :: "string \<Rightarrow> buildInfo" where
  "default_buildInfo go = \<lparr>Revision = ''unknown'', Branch = ''unknown'', Version = ''unknown'', BuildDate = ''unknown'',
     BuildTimeUnix = ''0'', LogBuildInfoAtStartup = [], goVersion = go\<rparr>"

definition LogBuildInfo :: "buildInfo \<Rightarrow> string list" where
  "LogBuildInfo i =
     [''Go Runtime version: '' @ goVersion i @ [CHR 0x0A],
      ''Build Version:      '' @ Version i @ [CHR 0x0A],
      ''Build Revision:     '' @ Revision i @ [CHR 0x0A],
      ''Build Branch:       '' @ Branch i @ [CHR 0x0A],
      ''Build Date:         '' @ BuildDate i @ [CHR 0x0A],
      ''Build TimeUnix:     '' @ BuildTimeUnix i @ [CHR 0x0A]]"

definition instrument_init :: "buildInfo \<Rightarrow> string list" where
  "instrument_init i = (if LogBuildInfoAtStartup i \<noteq> [] then LogBuildInfo i else [])"

text \<open>
  The goroutine: not running, before its first report, in its loop, and ended, when \<^verbatim>\<open>doneCh\<close> is closed.  \<open>br_ages\<close> are the updates of the gauge of
  the age, each with one update of the information.
\<close>

datatype build_routine = BNone | BStarting | BLooping | BEnded

record buildReporter =
  br_interval :: int
  br_buildTime :: int
  br_active :: bool
  br_closed :: bool
  br_routine :: build_routine
  br_stopping :: bool
  br_ages :: "float64 list"

definition NewBuildReporter :: "int \<Rightarrow> buildReporter" where
  "NewBuildReporter interval = \<lparr>br_interval = interval, br_buildTime = 0, br_active = False, br_closed = False,
     br_routine = BNone, br_stopping = False, br_ages = []\<rparr>"

text \<open>The build time in nanoseconds of the epoch; \<open>unix\<close> is the variable set by the linker.\<close>

definition buildReporter_Start :: "string \<Rightarrow> buildReporter \<Rightarrow> build_error option \<times> buildReporter" where
  "buildReporter_Start unix b =
     (case Atoi unix of
        None \<Rightarrow> (Some ParseError, b)
      | Some sec \<Rightarrow>
          (if sec < 0 then (Some errBuildTimeNegative, b)
           else if br_active b then (Some errAlreadyStarted, b)
           else (None, b\<lparr>br_buildTime := sec * 10 ^ 9, br_active := True, br_closed := False, br_routine := BStarting\<rparr>)))"

text \<open>\<^verbatim>\<open>time.Since\<close>, which saturates.\<close>

definition Since :: "int \<Rightarrow> int \<Rightarrow> int" where
  "Since tm t = max (- (2 ^ 63)) (min (2 ^ 63 - 1) (tm - t))"

text \<open>A step of the goroutine at the time \<open>tm\<close>; in the loop either the ticker or the closed channel is chosen.\<close>

definition build_routine_step :: "int \<Rightarrow> bool \<Rightarrow> buildReporter \<Rightarrow> (metric_panic, buildReporter) outcome option" where
  "build_routine_step tm tick b =
     (let report = b\<lparr>br_ages := br_ages b @ [float_of_int (Since tm (br_buildTime b))]\<rparr> in
      case br_routine b of
        BNone \<Rightarrow> None
      | BStarting \<Rightarrow> Some (if br_interval b \<le> 0 then Panic NonPositiveInterval else Ret (report\<lparr>br_routine := BLooping\<rparr>))
      | BLooping \<Rightarrow>
          (if tick then Some (Ret report)
           else if br_closed b then Some (Ret (b\<lparr>br_routine := BEnded\<rparr>)) else None)
      | BEnded \<Rightarrow> None)"

text \<open>\<^verbatim>\<open>Stop\<close> up to the close of \<^verbatim>\<open>closeCh\<close>, and after \<^verbatim>\<open>doneCh\<close> was closed; it holds the lock in between.\<close>

definition buildReporter_Stop_begin :: "buildReporter \<Rightarrow> build_error option \<times> buildReporter" where
  "buildReporter_Stop_begin b =
     (if \<not> br_active b then (Some errNotStarted, b) else (None, b\<lparr>br_closed := True, br_stopping := True\<rparr>))"

definition buildReporter_Stop_end :: "buildReporter \<Rightarrow> buildReporter option" where
  "buildReporter_Stop_end b =
     (if br_stopping b \<and> br_routine b = BEnded
      then Some (b\<lparr>br_stopping := False, br_active := False, br_routine := BNone\<rparr>) else None)"

inductive build_reach :: "int \<Rightarrow> buildReporter \<Rightarrow> bool" for interval where
  new: "build_reach interval (NewBuildReporter interval)"
| start: "build_reach interval b \<Longrightarrow> \<not> br_stopping b \<Longrightarrow> build_reach interval (snd (buildReporter_Start unix b))"
| stop: "build_reach interval b \<Longrightarrow> \<not> br_stopping b \<Longrightarrow> build_reach interval (snd (buildReporter_Stop_begin b))"
| stopped: "build_reach interval b \<Longrightarrow> buildReporter_Stop_end b = Some b' \<Longrightarrow> build_reach interval b'"
| run: "build_reach interval b \<Longrightarrow> build_routine_step tm tick b = Some (Ret b') \<Longrightarrow> build_reach interval b'"

section \<open>Configuration of metrics\<close>

record ScopeConfiguration =
  sc_Prefix :: string
  sc_ReportingInterval :: int
  sc_CommonTags :: "(string \<rightharpoonup> string) option"

text \<open>The configurations of the reporters of the metrics library are of unknown types.\<close>

record ('m, 'p) MetricsConfiguration =
  mc_RootScope :: "ScopeConfiguration option"
  mc_M3Reporter :: "'m option"
  mc_PrometheusReporter :: "'p option"
  mc_SamplingRate :: float64
  mc_ExtendedMetrics :: "ExtendedMetricsType option"
  mc_Sanitization :: "MetricSanitizationType option"

definition SampleRate :: "('m, 'p) MetricsConfiguration \<Rightarrow> float64" where
  "SampleRate mc =
     (if float_less (Fin 0) (mc_SamplingRate mc) \<and> float_le (mc_SamplingRate mc) (Fin 1) then mc_SamplingRate mc else Fin 1)"

definition metrics_ReportInterval :: "('m, 'p) MetricsConfiguration \<Rightarrow> int" where
  "metrics_ReportInterval mc =
     (case mc_RootScope mc of
        Some sc \<Rightarrow> if sc_ReportingInterval sc \<noteq> 0 then sc_ReportingInterval sc else 10 ^ 9
      | None \<Rightarrow> 10 ^ 9)"

record ('r, 's) scopeOptions =
  so_Tags :: "(string \<rightharpoonup> string) option"
  so_Prefix :: string
  so_CachedReporter :: 'r
  so_SanitizeOptions :: "'s option"

text \<open>
  \<open>newScope\<close> makes a scope from its options and the interval.  The reporter of extended metrics that was started is returned too;
  the code drops it, and its error.
\<close>

definition NewRootScopeReporter ::
    "(('r, 's) scopeOptions \<Rightarrow> int \<Rightarrow> 'sc) \<Rightarrow> 's \<Rightarrow> 's \<Rightarrow> int \<Rightarrow> 32 word \<Rightarrow> 'r \<Rightarrow> ('m, 'p) MetricsConfiguration \<Rightarrow>
     'sc \<times> (reporter_error, extendedMetricsReporter) result option" where
  "NewRootScopeReporter newScope m3 prom pid numGC r mc =
     (let prefix = (case mc_RootScope mc of Some sc \<Rightarrow> sc_Prefix sc | None \<Rightarrow> []);
          tags = (case mc_RootScope mc of Some sc \<Rightarrow> sc_CommonTags sc | None \<Rightarrow> None);
          sanitizeOpts = (case mc_Sanitization mc of Some t \<Rightarrow> MetricSanitizationType_NewOptions m3 prom t | None \<Rightarrow> None);
          scope = newScope \<lparr>so_Tags = tags, so_Prefix = prefix, so_CachedReporter = r, so_SanitizeOptions = sanitizeOpts\<rparr>
            (metrics_ReportInterval mc)
      in (scope, map_option (\<lambda>t. StartReportingExtendedMetrics (metrics_ReportInterval mc) t pid numGC) (mc_ExtendedMetrics mc)))"

datatype scope_error = ReporterError string | errNoReporterConfigured

definition NewRootScope ::
    "('m \<Rightarrow> (string, 'r) result) \<Rightarrow> ('p \<Rightarrow> (string, 'r) result) \<Rightarrow> ('r list \<Rightarrow> 'r) \<Rightarrow>
     (('r, 's) scopeOptions \<Rightarrow> int \<Rightarrow> 'sc) \<Rightarrow> 's \<Rightarrow> 's \<Rightarrow> int \<Rightarrow> 32 word \<Rightarrow> ('m, 'p) MetricsConfiguration \<Rightarrow>
     (scope_error, 'sc \<times> (reporter_error, extendedMetricsReporter) result option) result" where
  "NewRootScope newM3 newProm multi newScope m3 prom pid numGC mc =
     (let m3s = (case mc_M3Reporter mc of None \<Rightarrow> Inr [] | Some c \<Rightarrow> map_sum (\<lambda>e. e) (\<lambda>r. [r]) (newM3 c)) in
      case m3s of Inl e \<Rightarrow> Inl (ReporterError e)
      | Inr rs1 \<Rightarrow>
          (case (case mc_PrometheusReporter mc of None \<Rightarrow> Inr [] | Some c \<Rightarrow> map_sum (\<lambda>e. e) (\<lambda>r. [r]) (newProm c)) of
             Inl e \<Rightarrow> Inl (ReporterError e)
           | Inr rs2 \<Rightarrow>
               (case rs1 @ rs2 of
                  [] \<Rightarrow> Inl errNoReporterConfigured
                | [r] \<Rightarrow> Inr (NewRootScopeReporter newScope m3 prom pid numGC r mc)
                | rs \<Rightarrow> Inr (NewRootScopeReporter newScope m3 prom pid numGC (multi rs) mc))))"

section \<open>Reports never use a metric that was not created\<close>

text \<open>Which metrics exist at each level.\<close>

definition created_for :: "ExtendedMetricsType \<Rightarrow> extendedMetricsReporter \<Rightarrow> bool" where
  "created_for t r \<longleftrightarrow> er_metricsType r = t \<and>
     (SimpleExtendedMetrics \<le> t \<longrightarrow> rm_NumGoRoutines (er_runtime r) \<noteq> None \<and> rm_GoMaxProcs (er_runtime r) \<noteq> None \<and>
        pm_NumFDs (er_process r) \<noteq> None \<and> pm_NumFDErrors (er_process r) \<noteq> None) \<and>
     (t = DetailedExtendedMetrics \<longrightarrow> rm_MemoryAllocated (er_runtime r) \<noteq> None \<and> rm_MemoryHeap (er_runtime r) \<noteq> None \<and>
        rm_MemoryHeapIdle (er_runtime r) \<noteq> None \<and> rm_MemoryHeapInuse (er_runtime r) \<noteq> None \<and>
        rm_MemoryStack (er_runtime r) \<noteq> None \<and> rm_GCCPUFraction (er_runtime r) \<noteq> None \<and> rm_gc_created (er_runtime r))"

lemmas level_order = less_eq_ExtendedMetricsType_def less_ExtendedMetricsType_def

lemma NewExtendedMetricsReporter_created: "created_for t (NewExtendedMetricsReporter interval t pid numGC)"
  by (cases t) (simp_all add: created_for_def NewExtendedMetricsReporter_def level_order nil_runtimeMetrics_def Let_def)

lemma processMetrics_report_ok:
  assumes "pm_NumFDs r \<noteq> None" and "pm_NumFDErrors r \<noteq> None"
  shows "\<exists>r'. processMetrics_report numFDs r = Ret r' \<and> pm_NumFDs r' \<noteq> None \<and> pm_NumFDErrors r' \<noteq> None \<and> pm_pid r' = pm_pid r"
  using assms by (auto simp: processMetrics_report_def Gauge_Update_def split: prod.splits option.splits)

lemma extended_report_ok:
  assumes "created_for t r"
  shows "\<exists>r'. extended_report st numFDs r = Ret r' \<and> created_for t r' \<and> er_base r' = er_base r"
proof -
  have t: "er_metricsType r = t" using assms by (simp add: created_for_def)
  have "\<exists>rt. runtimeMetrics_report t st (er_runtime r) = Ret rt \<and> created_for t (r\<lparr>er_runtime := rt\<rparr>)"
    using assms by (cases t) (auto simp: runtimeMetrics_report_def created_for_def Gauge_Update_def level_order
        simp del: bind_outcome_Ret_iff)
  then obtain rt where rt: "runtimeMetrics_report t st (er_runtime r) = Ret rt" "created_for t (r\<lparr>er_runtime := rt\<rparr>)" by blast
  show ?thesis
  proof (cases "ModerateExtendedMetrics \<le> t")
    case True
    then have "SimpleExtendedMetrics \<le> t" by (simp add: level_order)
    then obtain pm where "processMetrics_report numFDs (er_process r) = Ret pm" "pm_NumFDs pm \<noteq> None" "pm_NumFDErrors pm \<noteq> None"
      using processMetrics_report_ok [of "er_process r" numFDs] assms by (auto simp: created_for_def)
    then show ?thesis using rt True t by (auto simp: extended_report_def created_for_def Let_def)
  next
    case False
    then show ?thesis using rt t by (simp add: extended_report_def Let_def)
  qed
qed

text \<open>Any number of reports of a new reporter succeed, whatever the runtime and the operating system say.\<close>

fun extended_reports ::
    "(runtimeStats \<times> (int \<Rightarrow> int \<times> string option)) list \<Rightarrow> extendedMetricsReporter \<Rightarrow> (metric_panic, extendedMetricsReporter) outcome" where
  "extended_reports [] r = Ret r"
| "extended_reports ((st, fds) # xs) r = bind_outcome (extended_report st fds r) (extended_reports xs)"

theorem extended_reports_succeed:
  "\<exists>r. extended_reports xs (NewExtendedMetricsReporter interval t pid numGC) = Ret r \<and> created_for t r"
proof -
  have "created_for t r \<Longrightarrow> \<exists>r'. extended_reports xs r = Ret r' \<and> created_for t r'" for r
  proof (induction xs arbitrary: r)
    case (Cons x xs)
    obtain st fds where x: "x = (st, fds)" by (cases x)
    obtain r1 where "extended_report st fds r = Ret r1" "created_for t r1" using extended_report_ok [OF Cons.prems] by blast
    with Cons.IH [of r1] show ?case by (simp add: x)
  qed simp
  then show ?thesis using NewExtendedMetricsReporter_created by blast
qed

lemma SampleRate_range: "float_less (Fin 0) (SampleRate mc) \<and> float_le (SampleRate mc) (Fin 1)"
  by (simp add: SampleRate_def)

section \<open>The build reporter can be stopped and restarted\<close>

definition build_inv :: "int \<Rightarrow> buildReporter \<Rightarrow> bool" where
  "build_inv interval b \<longleftrightarrow> br_interval b = interval \<and> (br_active b \<longleftrightarrow> br_routine b \<noteq> BNone) \<and>
     (br_stopping b \<longrightarrow> br_active b \<and> br_closed b) \<and> (br_active b \<and> br_closed b \<longrightarrow> br_stopping b) \<and>
     (br_routine b = BEnded \<longrightarrow> br_stopping b)"

lemma build_Start_inv:
  assumes "build_inv interval b" and "\<not> br_stopping b"
  shows "build_inv interval (snd (buildReporter_Start unix b))"
proof (cases "\<exists>sec. Atoi unix = Some sec \<and> 0 \<le> sec \<and> \<not> br_active b")
  case True
  then show ?thesis using assms by (auto simp: build_inv_def buildReporter_Start_def)
next
  case False
  then have "snd (buildReporter_Start unix b) = b" by (auto simp: buildReporter_Start_def not_less split: option.splits)
  then show ?thesis using assms(1) by simp
qed

lemma build_step_cases:
  assumes "build_routine_step tm tick b = Some (Ret b')"
  obtains "br_routine b = BStarting" "br_interval b > 0"
      "b' = b\<lparr>br_ages := br_ages b @ [float_of_int (Since tm (br_buildTime b))], br_routine := BLooping\<rparr>"
    | "br_routine b = BLooping" "b' = b\<lparr>br_ages := br_ages b @ [float_of_int (Since tm (br_buildTime b))]\<rparr>"
    | "br_routine b = BLooping" "br_closed b" "b' = b\<lparr>br_routine := BEnded\<rparr>"
  using assms by (cases "br_routine b"; cases tick; cases "br_closed b"; cases "br_interval b \<le> 0")
    (simp_all add: build_routine_step_def Let_def)

lemma build_step_inv:
  assumes "build_inv interval b" and "build_routine_step tm tick b = Some (Ret b')"
  shows "build_inv interval b'"
  using assms(2)
proof (cases rule: build_step_cases)
  case 1
  then show ?thesis using assms(1) by (simp add: build_inv_def)
next
  case 2
  then show ?thesis using assms(1) by (simp add: build_inv_def)
next
  case 3
  then show ?thesis using assms(1) by (simp add: build_inv_def)
qed

lemma build_Stop_inv:
  assumes "build_inv interval b" and "\<not> br_stopping b"
  shows "build_inv interval (snd (buildReporter_Stop_begin b))"
  using assms by (cases "br_active b") (simp_all add: build_inv_def buildReporter_Stop_begin_def)

lemma build_Stop_end_inv:
  assumes "build_inv interval b" and "buildReporter_Stop_end b = Some b'"
  shows "build_inv interval b'"
proof -
  have "br_routine b = BEnded" "b' = b\<lparr>br_stopping := False, br_active := False, br_routine := BNone\<rparr>"
    using assms(2) by (simp_all add: buildReporter_Stop_end_def split: if_splits)
  then show ?thesis using assms(1) by (simp add: build_inv_def)
qed

lemma build_reach_inv: "build_reach interval b \<Longrightarrow> build_inv interval b"
proof (induction rule: build_reach.induct)
  case new
  show ?case by (simp add: build_inv_def NewBuildReporter_def)
next
  case (start b unix)
  then show ?case by (intro build_Start_inv)
next
  case (stop b)
  then show ?case by (intro build_Stop_inv)
next
  case (stopped b b')
  show ?case by (rule build_Stop_end_inv [OF stopped.IH stopped.hyps(2)])
next
  case (run b tm tick b')
  show ?case by (rule build_step_inv [OF run.IH run.hyps(2)])
qed

text \<open>
  With a positive interval, a call of \<^verbatim>\<open>Stop\<close> that waits returns after at most two steps of the goroutine, and the reporter can be
  started again.
\<close>

theorem build_reporter_stops:
  assumes "build_reach interval b" and "0 < interval" and "br_stopping b" and "Atoi unix = Some sec" and "0 \<le> sec"
  shows "\<exists>b1 b2 b3. (b1 = b \<or> build_routine_step tm False b = Some (Ret b1)) \<and>
    (b2 = b1 \<or> build_routine_step tm False b1 = Some (Ret b2)) \<and> buildReporter_Stop_end b2 = Some b3 \<and>
    fst (buildReporter_Start unix b3) = None"
proof -
  have i: "br_interval b = interval" "br_active b" "br_closed b" "br_routine b \<noteq> BNone"
    using build_reach_inv [OF assms(1)] assms(3) by (auto simp: build_inv_def)
  note defs = build_routine_step_def buildReporter_Stop_end_def buildReporter_Start_def Let_def
  show ?thesis
  proof (cases "br_routine b")
    case BNone
    with i(4) show ?thesis by simp
  next
    case BStarting
    let ?b1 = "b\<lparr>br_ages := br_ages b @ [float_of_int (Since tm (br_buildTime b))], br_routine := BLooping\<rparr>"
    have "build_routine_step tm False b = Some (Ret ?b1)" "build_routine_step tm False ?b1 = Some (Ret (?b1\<lparr>br_routine := BEnded\<rparr>))"
      using BStarting i assms(2) by (simp_all add: defs)
    moreover have "buildReporter_Stop_end (?b1\<lparr>br_routine := BEnded\<rparr>) =
        Some (?b1\<lparr>br_stopping := False, br_active := False, br_routine := BNone\<rparr>)" using assms(3) by (simp add: defs)
    ultimately show ?thesis using assms(4,5) by (fastforce simp: buildReporter_Start_def)
  next
    case BLooping
    have "build_routine_step tm False b = Some (Ret (b\<lparr>br_routine := BEnded\<rparr>))" using BLooping i by (simp add: defs)
    moreover have "buildReporter_Stop_end (b\<lparr>br_routine := BEnded\<rparr>) =
        Some (b\<lparr>br_stopping := False, br_active := False, br_routine := BNone\<rparr>)" using assms(3) by (simp add: defs)
    ultimately show ?thesis using assms(4,5) by (fastforce simp: buildReporter_Start_def)
  next
    case BEnded
    then have "buildReporter_Stop_end b = Some (b\<lparr>br_stopping := False, br_active := False, br_routine := BNone\<rparr>)"
      using assms(3) by (simp add: defs)
    then show ?thesis using assms(4,5) by (fastforce simp: buildReporter_Start_def)
  qed
qed

text \<open>
  Unlike the base reporter, the build reporter does not check its interval: \<^verbatim>\<open>Start\<close> succeeds, and then its goroutine panics.
\<close>

theorem build_reporter_panics:
  assumes "interval \<le> 0"
  shows "fst (buildReporter_Start ''0'' (NewBuildReporter interval)) = None \<and>
    build_routine_step tm tick (snd (buildReporter_Start ''0'' (NewBuildReporter interval))) = Some (Panic NonPositiveInterval)"
proof -
  have "Atoi ''0'' = Some 0" by code_simp
  then show ?thesis using assms by (simp add: buildReporter_Start_def NewBuildReporter_def build_routine_step_def)
qed

end
