(* ===== verification/ConfigLoad.thy ===== *)
theory ConfigLoad
  imports Sync
begin

text \<open>
  The package \<^verbatim>\<open>config\<close>: loading a configuration from files (\<^verbatim>\<open>config.go\<close>) and the policy of a worker pool (\<^verbatim>\<open>pooling.go\<close>), with the pools
  of the package \<^verbatim>\<open>sync\<close> that a policy leads to.

  The file system and the libraries that decode and validate are arguments: \<open>unmarshal\<close> takes the content of a file and the configuration
  and gives an error, if any, and the configuration it leaves.
\<close>

section \<open>Loading files\<close>

record config_Options =
  DisableUnmarshalStrict :: bool
  DisableValidate :: bool

datatype 'e load_error = errNoFilesToLoad | LibraryError 'e

type_synonym ('e, 'd, 'c) unmarshal = "'d \<Rightarrow> 'c \<Rightarrow> 'e option \<times> 'c"

text \<open>The loop over the files.\<close>

fun load_each ::
    "(string \<Rightarrow> ('e, 'd) result) \<Rightarrow> ('e, 'd, 'c) unmarshal \<Rightarrow> string list \<Rightarrow> 'c \<Rightarrow> 'e load_error option \<times> 'c" where
  "load_each read_file unmarshal [] c = (None, c)"
| "load_each read_file unmarshal (name # names) c =
     (case read_file name of
        Inl e \<Rightarrow> (Some (LibraryError e), c)
      | Inr d \<Rightarrow>
          (case unmarshal d c of
             (Some e, c) \<Rightarrow> (Some (LibraryError e), c)
           | (None, c) \<Rightarrow> load_each read_file unmarshal names c))"

definition LoadFiles ::
    "(string \<Rightarrow> ('e, 'd) result) \<Rightarrow> ('e, 'd, 'c) unmarshal \<Rightarrow> ('e, 'd, 'c) unmarshal \<Rightarrow> ('c \<Rightarrow> 'e option) \<Rightarrow>
     'c \<Rightarrow> string list \<Rightarrow> config_Options \<Rightarrow> 'e load_error option \<times> 'c" where
  "LoadFiles read_file strict lenient validate c files o1 =
     (if files = [] then (Some errNoFilesToLoad, c)
      else
        (case load_each read_file (if DisableUnmarshalStrict o1 then lenient else strict) files c of
           (Some e, c) \<Rightarrow> (Some e, c)
         | (None, c) \<Rightarrow>
             if DisableValidate o1 then (None, c) else (map_option LibraryError (validate c), c)))"

definition LoadFile ::
    "(string \<Rightarrow> ('e, 'd) result) \<Rightarrow> ('e, 'd, 'c) unmarshal \<Rightarrow> ('e, 'd, 'c) unmarshal \<Rightarrow> ('c \<Rightarrow> 'e option) \<Rightarrow>
     'c \<Rightarrow> string \<Rightarrow> config_Options \<Rightarrow> 'e load_error option \<times> 'c" where
  "LoadFile read_file strict lenient validate c file o1 = LoadFiles read_file strict lenient validate c [file] o1"

lemma load_each_append:
  "load_each rf um (xs @ ys) c =
     (case load_each rf um xs c of (Some e, c') \<Rightarrow> (Some e, c') | (None, c') \<Rightarrow> load_each rf um ys c')"
  by (induction xs arbitrary: c) (auto split: sum.splits prod.splits option.splits)

text \<open>The first file that cannot be read or decoded ends the loop: the files after it do not matter.\<close>

lemma load_each_stops:
  assumes "load_each rf um xs c = (Some e, c')"
  shows "load_each rf um (xs @ ys) c = (Some e, c')"
  using assms by (simp add: load_each_append)

text \<open>The library as documented, for a configuration that is a map of properties: a decoder overrides the properties that the file names.\<close>

definition overriding :: "('e, 'k \<rightharpoonup> 'v, 'k \<rightharpoonup> 'v) unmarshal" where
  "overriding d c = (None, c ++ d)"

lemma load_each_overriding:
  assumes "\<And>name. name \<in> set names \<Longrightarrow> rf name = Inr (file name)"
  shows "load_each rf overriding names c = (None, foldl (++) c (map file names))"
  using assms by (induction names arbitrary: c) (simp_all add: overriding_def)

text \<open>The last of the maps in a list that has a key.\<close>

fun last_value :: "'k \<Rightarrow> ('k \<rightharpoonup> 'v) list \<Rightarrow> 'v option" where
  "last_value k [] = None"
| "last_value k (m # ms) = (case last_value k ms of None \<Rightarrow> m k | Some v \<Rightarrow> Some v)"

lemma foldl_map_add: "foldl (++) c ms k = last_value k (c # ms)"
proof (induction ms arbitrary: c)
  case (Cons m ms)
  then show ?case by (simp add: map_add_def split: option.splits)
qed simp

text \<open>
  When every file can be read and the decoder overrides the properties that a file names, loading succeeds exactly when the merged
  configuration is valid (or validation is disabled), and a property has its value from the last file that names it,
  and its old value when no file does.
\<close>

theorem LoadFiles_last_wins:
  assumes "\<And>name. name \<in> set names \<Longrightarrow> read_file name = Inr (file name)" and "names \<noteq> []"
  shows "\<exists>c'. LoadFiles read_file overriding overriding validate c names o1 =
      (if DisableValidate o1 then None else map_option LibraryError (validate c'), c') \<and>
    (\<forall>k. c' k = last_value k (c # map file names))"
proof -
  have "load_each read_file overriding names c = (None, foldl (++) c (map file names))"
    by (rule load_each_overriding) (rule assms(1))
  then show ?thesis using assms(2)
    by (intro exI [of _ "foldl (++) c (map file names)"]) (simp add: LoadFiles_def foldl_map_add del: last_value.simps)
qed

section \<open>Policies of worker pools\<close>

definition defaultWorkerPoolStaticSize :: int where "defaultWorkerPoolStaticSize = 4096"
definition defaultGrowKillProbability :: float64 where "defaultGrowKillProbability = round64 (1 / 1000)"

record WorkerPoolPolicy =
  wp_GrowOnDemand :: bool
  wp_Size :: int
  wp_NumShards :: int
  wp_KillWorkerProbability :: float64

text \<open>The number of processors, \<^verbatim>\<open>time.Now\<close> and the default instrument options are parameters of the options of package \<^verbatim>\<open>sync\<close>.\<close>

definition WorkerPoolPolicy_Options ::
    "int \<Rightarrow> 'n \<Rightarrow> 'i \<Rightarrow> WorkerPoolPolicy \<Rightarrow> ('n, 'i) pooledWorkerPoolOptions \<times> int" where
  "WorkerPoolPolicy_Options numCPU now iopts w =
     (let opts = NewPooledWorkerPoolOptions numCPU now iopts;
          grow = wp_GrowOnDemand w;
          opts = SetGrowOnDemand opts grow;
          opts = (if wp_KillWorkerProbability w \<noteq> Fin 0 then SetKillWorkerProbability opts (wp_KillWorkerProbability w)
                  else if grow then SetKillWorkerProbability opts defaultGrowKillProbability else opts);
          opts = (if wp_NumShards w \<noteq> 0 then SetNumShards opts (wp_NumShards w) else opts);
          w = (if wp_Size w = 0 then (if grow then w\<lparr>wp_Size := NumShards opts\<rparr> else w\<lparr>wp_Size := defaultWorkerPoolStaticSize\<rparr>)
               else w)
      in (opts, wp_Size w))"

text \<open>
  The setters of a policy are overrides of independent fields, so each field of the result is read off the policy.
\<close>

lemma policy_fields:
  "GrowOnDemand (fst (WorkerPoolPolicy_Options numCPU now iopts w)) = wp_GrowOnDemand w"
  "NumShards (fst (WorkerPoolPolicy_Options numCPU now iopts w)) = (if wp_NumShards w = 0 then numCPU else wp_NumShards w)"
  "KillWorkerProbability (fst (WorkerPoolPolicy_Options numCPU now iopts w)) =
     (if wp_KillWorkerProbability w = Fin 0 then round64 (1 / 1000) else wp_KillWorkerProbability w)"
  "snd (WorkerPoolPolicy_Options numCPU now iopts w) =
     (if wp_Size w \<noteq> 0 then wp_Size w
      else if \<not> wp_GrowOnDemand w then 4096 else if wp_NumShards w = 0 then numCPU else wp_NumShards w)"
  by (simp_all add: WorkerPoolPolicy_Options_def Let_def NewPooledWorkerPoolOptions_def SetGrowOnDemand_def GrowOnDemand_def
      SetNumShards_def NumShards_def SetKillWorkerProbability_def KillWorkerProbability_def defaultGrowKillProbability_def
      defaultKillWorkerProbability_def defaultWorkerPoolStaticSize_def)

text \<open>
  The higher default kill probability that the policy sets for growing pools is the default of every pool.
\<close>

lemma grow_default_is_default: "defaultGrowKillProbability = defaultKillWorkerProbability"
  by (simp add: defaultGrowKillProbability_def defaultKillWorkerProbability_def)

lemma NewPooledWorkerPool_ok:
  assumes "0 < sz" and "0 < NumShards opts"
  shows "\<exists>p. NewPooledWorkerPool sz opts = Ret (Inr p) \<and> growOnDemand p = GrowOnDemand opts \<and>
    numShards p = min sz (NumShards opts) \<and> chCap p = nat (sz sdiv min sz (NumShards opts))"
  using assms by (cases "sz < NumShards opts") (simp_all add: NewPooledWorkerPool_def min_def Let_def)

definition policy_pool :: "int \<Rightarrow> 'n \<Rightarrow> 'i \<Rightarrow> WorkerPoolPolicy \<Rightarrow> (sync_panic, (pooled_error, 'w pooledWorkerPool) result) outcome" where
  "policy_pool numCPU now iopts w =
     (case WorkerPoolPolicy_Options numCPU now iopts w of (opts, sz) \<Rightarrow> NewPooledWorkerPool sz opts)"


definition ex_policy :: WorkerPoolPolicy where
  "ex_policy = \<lparr>wp_GrowOnDemand = True, wp_Size = 0, wp_NumShards = 3, wp_KillWorkerProbability = Fin 0\<rparr>"


end
