(* ===== verification/TraceSpans.thy ===== *)
theory TraceSpans
  imports Context XTime
begin

text \<open>
  The package \<^verbatim>\<open>opentracing\<close>: spans in the contexts of the standard library (\<^verbatim>\<open>context.go\<close>) and the tracer of a configuration
  (\<^verbatim>\<open>tracing.go\<close>), with the trace spans of the contexts of the package \<^verbatim>\<open>context\<close> that use it, and the handler of the package \<^verbatim>\<open>pprof\<close> with its registration.

  The tracing library is a record of its functions; what the code relies on is stated as hypotheses of the theorems.
\<close>

section \<open>The tracing library\<close>

record ('g, 'sp, 'tr, 'o) tracing =
  SpanFromContext :: "'g \<Rightarrow> 'sp option"
  ContextWithSpan :: "'g \<Rightarrow> 'sp \<Rightarrow> 'g"
  ChildOf :: "'sp \<Rightarrow> 'o"
  Tracer_of :: "'sp \<Rightarrow> 'tr"
  StartSpan :: "'tr \<Rightarrow> string \<Rightarrow> 'o list \<Rightarrow> 'sp"
  GlobalTracer :: 'tr
  NoopTracer :: 'tr

definition SpanFromContextOrNoop :: "('g, 'sp, 'tr, 'o) tracing \<Rightarrow> 'g \<Rightarrow> 'sp" where
  "SpanFromContextOrNoop lib g =
     (case SpanFromContext lib g of Some sp \<Rightarrow> sp | None \<Rightarrow> StartSpan lib (NoopTracer lib) '''' [])"

definition StartSpanFromContext :: "('g, 'sp, 'tr, 'o) tracing \<Rightarrow> 'g \<Rightarrow> string \<Rightarrow> 'o list \<Rightarrow> 'sp \<times> 'g" where
  "StartSpanFromContext lib g operationName os =
     (let (os, tracer) =
        (case SpanFromContext lib g of
           Some parentSpan \<Rightarrow> (os @ [ChildOf lib parentSpan], Tracer_of lib parentSpan)
         | None \<Rightarrow> (os, GlobalTracer lib));
        span = StartSpan lib tracer operationName os
      in (span, ContextWithSpan lib g span))"

section \<open>The tracer of a configuration\<close>

definition TracingBackendJaeger :: string where "TracingBackendJaeger = ''jaeger''"

record 'j TracingConfiguration =
  tc_Backend :: string
  tc_ServiceName :: string
  tc_Jaeger :: 'j

datatype 'c tracing_closer = noopCloser | JaegerCloser 'c

text \<open>
  \<open>jaeger\<close> makes a tracer and a closer from the service name and the rest of the configuration.  The configuration is changed in place.
\<close>

definition NewTracer ::
    "(string \<Rightarrow> 'j \<Rightarrow> (string, 'tr \<times> 'c) result) \<Rightarrow> 'tr \<Rightarrow> string \<Rightarrow> 'j TracingConfiguration \<Rightarrow>
     (string, 'tr \<times> 'c tracing_closer) result \<times> 'j TracingConfiguration" where
  "NewTracer jaeger noop defaultServiceName cfg =
     (if tc_Backend cfg = '''' then (Inr (noop, noopCloser), cfg)
      else if tc_Backend cfg \<noteq> TracingBackendJaeger
      then (Inl (''unknown tracing backend: '' @ tc_Backend cfg @ ''. Supported backends are: '' @ TracingBackendJaeger), cfg)
      else
        (let cfg = (if tc_ServiceName cfg = '''' then cfg\<lparr>tc_ServiceName := defaultServiceName\<rparr> else cfg) in
         case jaeger (tc_ServiceName cfg) (tc_Jaeger cfg) of
           Inl e \<Rightarrow> (Inl (''failed to initialize jaeger: '' @ e), cfg)
         | Inr (tracer, cl) \<Rightarrow> (Inr (tracer, JaegerCloser cl), cfg)))"

fun tracing_closer_Close :: "('c \<Rightarrow> string option) \<Rightarrow> 'c tracing_closer \<Rightarrow> string option" where
  "tracing_closer_Close close_jaeger noopCloser = None"
| "tracing_closer_Close close_jaeger (JaegerCloser c) = close_jaeger c"

lemma NewTracer_service_name:
  assumes "NewTracer jaeger noop nm cfg = (Inr (tr, JaegerCloser cl), cfg')"
  shows "jaeger (tc_ServiceName cfg') (tc_Jaeger cfg) = Inr (tr, cl) \<and>
    tc_ServiceName cfg' = (if tc_ServiceName cfg = '''' then nm else tc_ServiceName cfg)"
  using assms by (auto simp: NewTracer_def Let_def split: if_splits sum.splits)

text \<open>The tracer is the no-op tracer exactly when no backend is configured; the only other backend is Jaeger.\<close>

lemma NewTracer_backends:
  "fst (NewTracer jaeger noop nm cfg) = Inr (tr, noopCloser) \<longleftrightarrow> tc_Backend cfg = [] \<and> tr = noop"
  by (auto simp: NewTracer_def Let_def split: sum.splits)

section \<open>The handler of profiles\<close>

datatype pprof_handler = pprof_Cmdline | pprof_Profile | pprof_Symbol | pprof_Trace | pprof_Index

definition pprofPath :: string where "pprofPath = ''/debug/pprof/''"

definition TrimPrefix :: "string \<Rightarrow> string \<Rightarrow> string" where
  "TrimPrefix s p = (if take (length p) s = p then drop (length p) s else s)"

definition handler :: "string \<Rightarrow> pprof_handler" where
  "handler path =
     (let name = TrimPrefix path pprofPath in
      if name = ''cmdline'' then pprof_Cmdline
      else if name = ''profile'' then pprof_Profile
      else if name = ''symbol'' then pprof_Symbol
      else if name = ''trace'' then pprof_Trace
      else pprof_Index)"

lemma TrimPrefix_append [simp]: "TrimPrefix (p @ s) p = s"
  by (simp add: TrimPrefix_def)

text \<open>On the paths it is registered for, the handler shows the index unless the path names one of the four profiles.\<close>

lemma handler_registered:
  "handler (pprofPath @ name) = pprof_Index \<longleftrightarrow> name \<notin> {''cmdline'', ''profile'', ''symbol'', ''trace''}"
  by (simp add: handler_def Let_def)

text \<open>
  What the package uses of the multiplexer of the HTTP library: the patterns with their handlers; an empty pattern and a second
  handler for a pattern panic.
\<close>

datatype mux_panic = InvalidPattern | MultipleRegistrations string

definition ServeMux_Handle :: "(string \<rightharpoonup> 'h) \<Rightarrow> string \<Rightarrow> 'h \<Rightarrow> (mux_panic, string \<rightharpoonup> 'h) outcome" where
  "ServeMux_Handle mux pattern h =
     (if pattern = [] then Panic InvalidPattern
      else if mux pattern \<noteq> None then Panic (MultipleRegistrations pattern)
      else Ret (mux(pattern \<mapsto> h)))"

definition RegisterHandler :: "(string \<rightharpoonup> (string \<Rightarrow> pprof_handler)) \<Rightarrow> (mux_panic, string \<rightharpoonup> (string \<Rightarrow> pprof_handler)) outcome" where
  "RegisterHandler mux = ServeMux_Handle mux pprofPath handler"

text \<open>Registering works once and leaves the other patterns alone; the second time it panics.\<close>

lemma RegisterHandler_once:
  "RegisterHandler mux = Ret mux' \<Longrightarrow>
     mux' pprofPath = Some handler \<and> (\<forall>p. p \<noteq> pprofPath \<longrightarrow> mux' p = mux p) \<and>
     RegisterHandler mux' = Panic (MultipleRegistrations pprofPath)"
  by (auto simp: RegisterHandler_def ServeMux_Handle_def pprofPath_def split: if_splits)

section \<open>Log fields\<close>

text \<open>\<open>rfc3339\<close> formats a time, \<open>duration_text\<close> is the \<^verbatim>\<open>String\<close> method of a duration; a field of the tracing library is a key and a string.\<close>

definition Time_field :: "(instant \<Rightarrow> string) \<Rightarrow> string \<Rightarrow> instant \<Rightarrow> string \<times> string" where
  "Time_field rfc3339 key t = (key, rfc3339 t)"

definition Duration_field :: "(duration \<Rightarrow> string) \<Rightarrow> string \<Rightarrow> duration \<Rightarrow> string \<times> string" where
  "Duration_field duration_text key t = (key, duration_text t)"

section \<open>Nested trace spans\<close>

text \<open>Successive calls of \<^verbatim>\<open>StartTraceSpan\<close>, each on the context the one before returned.\<close>

definition trace_span ::
    "('g, 'sp, 'tr, 'o) tracing \<Rightarrow> ('sp \<Rightarrow> bool) \<Rightarrow> string \<Rightarrow> nat \<Rightarrow> ('g, 'x) world \<Rightarrow> (nat \<times> 'sp option \<times> bool) \<times> ('g, 'x) world" where
  "trace_span lib sampled name c w =
     StartTraceSpan (\<lambda>g. SpanFromContext lib g \<noteq> None) (\<lambda>g nm. StartSpanFromContext lib g nm []) sampled name c w"

fun trace_nested ::
    "('g, 'sp, 'tr, 'o) tracing \<Rightarrow> ('sp \<Rightarrow> bool) \<Rightarrow> string list \<Rightarrow> nat \<Rightarrow> ('g, 'x) world \<Rightarrow>
     ('sp option \<times> bool) list \<times> nat \<times> ('g, 'x) world" where
  "trace_nested lib sampled [] c w = ([], c, w)"
| "trace_nested lib sampled (name # names) c w =
     (case trace_span lib sampled name c w of
        ((c', sp, traced), w') \<Rightarrow>
          (case trace_nested lib sampled names c' w' of (sps, c'', w'') \<Rightarrow> ((sp, traced) # sps, c'', w'')))"

text \<open>What should come out: each span is a child of the one before, in the same tracer.\<close>

fun span_chain :: "('g, 'sp, 'tr, 'o) tracing \<Rightarrow> 'tr \<Rightarrow> 'sp \<Rightarrow> string list \<Rightarrow> 'sp list" where
  "span_chain lib tr sp [] = []"
| "span_chain lib tr sp (name # names) =
     (let child = StartSpan lib tr name [ChildOf lib sp] in child # span_chain lib tr child names)"

definition tracing_laws :: "('g, 'sp, 'tr, 'o) tracing \<Rightarrow> bool" where
  "tracing_laws lib \<longleftrightarrow>
     (\<forall>g sp. SpanFromContext lib (ContextWithSpan lib g sp) = Some sp) \<and>
     (\<forall>tr nm os. Tracer_of lib (StartSpan lib tr nm os) = tr)"

text \<open>A context that carries the span \<open>sp\<close> and is not pooled.\<close>

definition carries :: "('g, 'sp, 'tr, 'o) tracing \<Rightarrow> nat \<Rightarrow> 'sp \<Rightarrow> ('g, 'x) world \<Rightarrow> bool" where
  "carries lib c sp w \<longleftrightarrow> c < next_ctx w \<and> \<not> pooled (ctxs w c) \<and> \<not> checkedAndNotSampled (ctxs w c) \<and>
     (\<exists>g. goCtx (ctxs w c) = Some g \<and> SpanFromContext lib g = Some sp)"

lemma trace_span_carries:
  fixes name :: string
  assumes "tracing_laws lib" and "carries lib c sp w"
  defines "child \<equiv> StartSpan lib (Tracer_of lib sp) name [ChildOf lib sp]"
  shows "\<exists>w'. trace_span lib sampled name c w = ((next_ctx w, Some child, True), w') \<and> carries lib (next_ctx w) child w' \<and>
    next_ctx w' = Suc (next_ctx w) \<and> parent (ctxs w' (next_ctx w)) = Some c \<and> (\<forall>d<next_ctx w. ctxs w' d = ctxs w d)"
proof -
  obtain g where g: "c < next_ctx w" "\<not> pooled (ctxs w c)" "\<not> checkedAndNotSampled (ctxs w c)" "goCtx (ctxs w c) = Some g"
    "SpanFromContext lib g = Some sp" using assms(2) by (auto simp: carries_def)
  have s: "StartSpanFromContext lib g name [] = (child, ContextWithSpan lib g child)"
    using g(5) by (simp add: StartSpanFromContext_def child_def Let_def)
  let ?w = "SetGoContext (next_ctx w) (Some (ContextWithSpan lib g child)) (setParentCtx (next_ctx w) c (snd (NewContext w)))"
  have e: "trace_span lib sampled name c w = ((next_ctx w, Some child, True), ?w)"
    using g s by (simp add: trace_span_def StartTraceSpan_def GoContext_def newChildContext_def NewContext_def alloc_ctx_def)
  have "carries lib (next_ctx w) child ?w \<and> next_ctx ?w = Suc (next_ctx w) \<and> parent (ctxs ?w (next_ctx w)) = Some c \<and>
      (\<forall>d<next_ctx w. ctxs ?w d = ctxs w d)"
    using assms(1) by (simp add: carries_def SetGoContext_def setParentCtx_def upd_ctx_def NewContext_def alloc_ctx_def
        empty_ctx_def tracing_laws_def)
  with e show ?thesis by blast
qed

lemma IsClosed_cong:
  assumes "\<And>d. d < m \<Longrightarrow> ctxs w' d = ctxs w d" and "\<And>d p. d < m \<Longrightarrow> parent (ctxs w d) = Some p \<Longrightarrow> p < m" and "c < m"
  shows "IsClosed n c w' = IsClosed n c w"
  using assms(3) by (induction n arbitrary: c) (auto simp: assms(1) split: option.splits dest: assms(2))

text \<open>Every parent was made before its child.\<close>

definition parents_older :: "('g, 'x) world \<Rightarrow> bool" where
  "parents_older w \<longleftrightarrow> (\<forall>d<next_ctx w. \<forall>p. parent (ctxs w d) = Some p \<longrightarrow> p < d)"

lemma parents_older_child:
  assumes "parents_older w" and "next_ctx w' = Suc (next_ctx w)" and "parent (ctxs w' (next_ctx w)) = Some c" and "c < next_ctx w"
    and "\<forall>d<next_ctx w. ctxs w' d = ctxs w d"
  shows "parents_older w'"
  using assms by (auto simp: parents_older_def less_Suc_eq)

lemma IsClosed_child:
  assumes "parents_older w" and "next_ctx w' = Suc (next_ctx w)" and "parent (ctxs w' (next_ctx w)) = Some c" and "c < next_ctx w"
    and "\<forall>d<next_ctx w. ctxs w' d = ctxs w d"
  shows "IsClosed (Suc n) (next_ctx w) w' = IsClosed n c w"
proof -
  have "IsClosed n c w' = IsClosed n c w"
    by (rule IsClosed_cong [of "next_ctx w"]) (use assms in \<open>auto simp: parents_older_def dest: less_trans\<close>)
  then show ?thesis using assms(3) by simp
qed


text \<open>A library whose spans are their tracer and their path from the root.\<close>

definition ex_tracing :: "((nat \<times> string list) option, nat \<times> string list, nat, string list) tracing" where
  "ex_tracing = \<lparr>SpanFromContext = (\<lambda>g. g), ContextWithSpan = (\<lambda>g sp. Some sp), ChildOf = snd, Tracer_of = fst,
     StartSpan = (\<lambda>tr nm os. (tr, nm # concat os)), GlobalTracer = 0, NoopTracer = 1\<rparr>"

definition ex_traced :: "((nat \<times> string list) option, nat) world" where
  "ex_traced = SetGoContext 0 (Some (Some (7, [''root'']))) (snd (NewContext (new_world 0)))"


text \<open>
  Without a span in its Go context, a context whose first span is not sampled stops tracing: it returns itself from this and every
  later call.
\<close>

theorem unsampled_stops_tracing:
  fixes w :: "('g, 'x) world" and lib :: "('g, 'sp, 'tr, 'o) tracing"
  assumes "goCtx (ctxs w c) = Some g" and "SpanFromContext lib g = None" and "\<And>sp. \<not> sampled sp"
  shows "\<exists>w'. trace_nested lib sampled (name # names) c w = (replicate (Suc (length names)) (None, False), c, w') \<and>
    (\<forall>d. d \<noteq> c \<longrightarrow> ctxs w' d = ctxs w d)"
proof -
  have stopped: "trace_nested lib sampled names c v = (replicate (length names) (None, False), c, v)"
    if "checkedAndNotSampled (ctxs v c)" for v :: "('g, 'x) world"
    using that by (induction names) (auto simp: trace_span_def StartTraceSpan_def split: option.splits)
  have "\<exists>v. trace_span lib sampled name c w = ((c, None, False), v) \<and> checkedAndNotSampled (ctxs v c) \<and>
      (\<forall>d. d \<noteq> c \<longrightarrow> ctxs v d = ctxs w d)"
    using assms by (auto simp: trace_span_def StartTraceSpan_def GoContext_def upd_ctx_def case_prod_beta)
  then show ?thesis using stopped by auto
qed

end
