(* ===== verification/UnsafeBytes.thy ===== *)
theory UnsafeBytes
  imports Prelude
begin

text \<open>
  The package \<^verbatim>\<open>unsafe\<close>: strings and byte slices that share their memory (\<^verbatim>\<open>bytes.go\<close>, \<^verbatim>\<open>string.go\<close>).  A string is its header, an address and a
  length, a slice has a capacity too, and the memory maps addresses to bytes; nil is the slice of address zero without capacity.
\<close>

type_synonym memory = "nat \<Rightarrow> 8 word"

record StringHeader =
  str_Data :: nat
  str_Len :: nat

record SliceHeader =
  sl_Data :: nat
  sl_Len :: nat
  sl_Cap :: nat

definition nil_slice :: SliceHeader where "nil_slice = \<lparr>sl_Data = 0, sl_Len = 0, sl_Cap = 0\<rparr>"
definition zero_string :: StringHeader where "zero_string = \<lparr>str_Data = 0, str_Len = 0\<rparr>"

definition unsafe_Bytes :: "StringHeader \<Rightarrow> SliceHeader" where
  "unsafe_Bytes s =
     (if str_Len s = 0 then nil_slice
      else
        (let b = nil_slice;
             b = b\<lparr>sl_Data := str_Data s\<rparr>;
             l = str_Len s
         in b\<lparr>sl_Len := l, sl_Cap := l\<rparr>))"

definition WithBytes :: "StringHeader \<Rightarrow> (SliceHeader \<Rightarrow> memory \<Rightarrow> memory) \<Rightarrow> memory \<Rightarrow> memory" where
  "WithBytes s f m = f (unsafe_Bytes s) m"

definition WithBytesAndArg :: "StringHeader \<Rightarrow> 'a \<Rightarrow> (SliceHeader \<Rightarrow> 'a \<Rightarrow> memory \<Rightarrow> memory) \<Rightarrow> memory \<Rightarrow> memory" where
  "WithBytesAndArg s arg f m = f (unsafe_Bytes s) arg m"

definition unsafe_String :: "SliceHeader \<Rightarrow> StringHeader" where
  "unsafe_String b =
     (let s = zero_string in
      if sl_Len b = 0 then s
      else (let s = s\<lparr>str_Data := sl_Data b\<rparr>; l = sl_Len b in s\<lparr>str_Len := l\<rparr>))"

definition WithString :: "SliceHeader \<Rightarrow> (StringHeader \<Rightarrow> memory \<Rightarrow> memory) \<Rightarrow> memory \<Rightarrow> memory" where
  "WithString b f m = f (unsafe_String b) m"

definition WithStringAndArg :: "SliceHeader \<Rightarrow> 'a \<Rightarrow> (StringHeader \<Rightarrow> 'a \<Rightarrow> memory \<Rightarrow> memory) \<Rightarrow> memory \<Rightarrow> memory" where
  "WithStringAndArg b arg f m = f (unsafe_String b) arg m"

section \<open>Strings and slices in memory\<close>

definition read_mem :: "memory \<Rightarrow> nat \<Rightarrow> nat \<Rightarrow> 8 word list" where
  "read_mem m a n = map (\<lambda>i. m (a + i)) [0..<n]"

definition write_mem :: "nat \<Rightarrow> 8 word list \<Rightarrow> memory \<Rightarrow> memory" where
  "write_mem a vs m x = (if a \<le> x \<and> x < a + length vs then vs ! (x - a) else m x)"

definition string_value :: "memory \<Rightarrow> StringHeader \<Rightarrow> 8 word list" where
  "string_value m s = read_mem m (str_Data s) (str_Len s)"

definition slice_value :: "memory \<Rightarrow> SliceHeader \<Rightarrow> 8 word list" where
  "slice_value m b = read_mem m (sl_Data b) (sl_Len b)"

text \<open>\<^verbatim>\<open>b[i] = v\<close>, a panic out of range.\<close>

definition slice_assign :: "nat \<Rightarrow> 8 word \<Rightarrow> SliceHeader \<Rightarrow> memory \<Rightarrow> (unit, memory) outcome" where
  "slice_assign i v b m = (if i < sl_Len b then Ret (m(sl_Data b + i := v)) else Panic ())"

text \<open>
  \<^verbatim>\<open>append(b, vs...)\<close>: in place while the capacity allows it, else in \<open>cap\<close> bytes of new memory at \<open>fresh\<close>.
\<close>

definition slice_append :: "nat \<Rightarrow> nat \<Rightarrow> 8 word list \<Rightarrow> SliceHeader \<Rightarrow> memory \<Rightarrow> SliceHeader \<times> memory" where
  "slice_append fresh cap vs b m =
     (if sl_Len b + length vs \<le> sl_Cap b
      then (b\<lparr>sl_Len := sl_Len b + length vs\<rparr>, write_mem (sl_Data b + sl_Len b) vs m)
      else (\<lparr>sl_Data = fresh, sl_Len = sl_Len b + length vs, sl_Cap = cap\<rparr>,
            write_mem fresh (slice_value m b @ vs) m))"

lemma length_read_mem [simp]: "length (read_mem m a n) = n"
  by (simp add: read_mem_def)

lemma nth_read_mem [simp]: "i < n \<Longrightarrow> read_mem m a n ! i = m (a + i)"
  by (simp add: read_mem_def)

lemma read_write_same [simp]: "read_mem (write_mem a vs m) a (length vs) = vs"
  by (rule nth_equalityI) (simp_all add: write_mem_def)

lemma read_write_other: "a + n \<le> b \<or> b + length vs \<le> a \<Longrightarrow> read_mem (write_mem b vs m) a n = read_mem m a n"
  by (rule nth_equalityI) (auto simp: write_mem_def)

lemma read_mem_upd: "i < n \<Longrightarrow> read_mem (m(a + i := v)) a n = (read_mem m a n)[i := v]"
  by (rule nth_equalityI) (auto simp: nth_list_update)

lemma length_slice_value [simp]: "length (slice_value m b) = sl_Len b"
  by (simp add: slice_value_def)

text \<open>
  The conversions keep the value in every memory, that is also after later writes, and convert back into each other.  The slice of a string
  has no capacity beyond the string: appending to it always copies and leaves the string as it was.  Assigning to
  an element, which the comments forbid, changes the string.
\<close>

theorem unsafe_Bytes_shares:
  shows "slice_value m (unsafe_Bytes s) = string_value m s"
    and "string_value m (unsafe_String b) = slice_value m b"
    and "string_value m (unsafe_String (unsafe_Bytes s)) = string_value m s"
    and "unsafe_Bytes s = nil_slice \<longleftrightarrow> str_Len s = 0"
  by (simp_all add: unsafe_Bytes_def unsafe_String_def slice_value_def string_value_def nil_slice_def zero_string_def Let_def read_mem_def)

theorem append_to_unsafe_Bytes_copies:
  assumes "str_Data s + str_Len s \<le> fresh \<or> fresh + (str_Len s + length vs) \<le> str_Data s" and "vs \<noteq> []"
    and "slice_append fresh cap vs (unsafe_Bytes s) m = (b, m')"
  shows "slice_value m' b = string_value m s @ vs \<and> string_value m' s = string_value m s"
proof -
  have l: "sl_Len (unsafe_Bytes s) = str_Len s" "sl_Cap (unsafe_Bytes s) = str_Len s"
    by (simp_all add: unsafe_Bytes_def nil_slice_def Let_def)
  let ?new = "string_value m s @ vs"
  have b: "b = \<lparr>sl_Data = fresh, sl_Len = str_Len s + length vs, sl_Cap = cap\<rparr>" "m' = write_mem fresh ?new m"
    using assms(2,3) l by (auto simp: slice_append_def unsafe_Bytes_shares(1))
  have n: "length ?new = str_Len s + length vs" by (simp add: string_value_def)
  have "slice_value m' b = ?new" using read_write_same [of fresh ?new m] n by (simp add: b slice_value_def)
  moreover have "string_value m' s = string_value m s"
    unfolding string_value_def b(2) by (rule read_write_other) (use assms(1) n in \<open>simp add: string_value_def\<close>)
  ultimately show ?thesis by blast
qed

theorem assign_to_unsafe_Bytes_changes:
  assumes "slice_assign i v (unsafe_Bytes s) m = Ret m'"
  shows "string_value m' s = (string_value m s)[i := v]"
  using assms by (auto simp: slice_assign_def unsafe_Bytes_def nil_slice_def Let_def string_value_def read_mem_upd split: if_splits)

end
