(* ===== verification/Matchers.thy ===== *)
theory Matchers
  imports Ident
begin

text \<open>
  The matchers of identifiers, tags and tag iterators (\<^verbatim>\<open>ident/id_matcher.go\<close>, \<^verbatim>\<open>tag_matcher.go\<close>, \<^verbatim>\<open>tag_iterator_matcher.go\<close>) and the copy of
  the tags of an iterator (\<^verbatim>\<open>ident/testutil/tags_convert.go\<close>).

  The loops run on iterators that come from outside, so they have fuel and \<^const>\<open>None\<close> when it does not suffice; the theorems give
  enough of it.
\<close>

section \<open>Matchers\<close>

text \<open>What a matcher is given: a value of one of the types it asserts, or of another.\<close>

datatype matched = XID ID | XTag Tag | XTagIterator tagSliceIter | XOther

definition NewIDMatcher :: "string \<Rightarrow> ID" where "NewIDMatcher i = StringID i"

definition idMatcher_Matches :: "globals \<Rightarrow> ID \<Rightarrow> matched \<Rightarrow> ('io, bool) ident_op" where
  "idMatcher_Matches g m x st = (case x of XID i \<Rightarrow> ID_Equal g m (Some i) st | _ \<Rightarrow> (Ret False, st))"

definition idMatcher_String :: "globals \<Rightarrow> ID \<Rightarrow> ('io, string) ident_op" where
  "idMatcher_String g m st = andthen (ID_String g m st) (\<lambda>s st. (Ret (''id '' @ s), st))"

definition NewTagMatcher :: "string \<Rightarrow> string \<Rightarrow> Tag" where "NewTagMatcher n v = StringTag n v"

definition tagMatcher_Matches :: "globals \<Rightarrow> Tag \<Rightarrow> matched \<Rightarrow> ('io, bool) ident_op" where
  "tagMatcher_Matches g m x st =
     (case x of
        XTag t \<Rightarrow>
          andthen (equal_opt g (Name m) (Name t) st) (\<lambda>e st. if e then equal_opt g (Value m) (Value t) st else (Ret False, st))
      | _ \<Rightarrow> (Ret False, st))"

definition string_opt :: "globals \<Rightarrow> ID option \<Rightarrow> ('io, string) ident_op" where
  "string_opt g v st = (case v of None \<Rightarrow> (Panic NilFunctionCall, st) | Some i \<Rightarrow> ID_String g i st)"

definition tagMatcher_String :: "globals \<Rightarrow> Tag \<Rightarrow> ('io, string) ident_op" where
  "tagMatcher_String g m st =
     andthen (string_opt g (Name m) st) (\<lambda>n st. andthen (string_opt g (Value m) st) (\<lambda>v st.
       (Ret (''tag '' @ n @ ''='' @ v), st)))"

definition NewTagIterMatcher :: "tagSliceIter \<Rightarrow> tagSliceIter" where "NewTagIterMatcher iter = iter"

text \<open>The loop over both iterators and the tests after it; the error of an iterator over a slice is always nil.\<close>

fun match_loop :: "nat \<Rightarrow> globals \<Rightarrow> tagSliceIter \<Rightarrow> tagSliceIter \<Rightarrow> 'io store \<Rightarrow> ((pool_panic, bool) outcome \<times> 'io store) option" where
  "match_loop 0 g expd obs st = None"
| "match_loop (Suc n) g expd obs st =
     (case tagSliceIter_Next expd of
        (False, expd) \<Rightarrow> Some (Ret (\<not> fst (tagSliceIter_Next obs)), st)
      | (True, expd) \<Rightarrow>
          (case tagSliceIter_Next obs of
             (False, obs) \<Rightarrow> Some (Ret False, st)
           | (True, obs) \<Rightarrow>
               (case Tag_Equal g (tagSliceIter_Current expd) (tagSliceIter_Current obs) st of
                  (Panic e, st) \<Rightarrow> Some (Panic e, st)
                | (Ret e, st) \<Rightarrow> if e then match_loop n g expd obs st else Some (Ret False, st))))"

text \<open>\<open>po\<close> and \<open>pe\<close> are the pooled iterators that the two duplicates are made from, if any.\<close>

definition tagIterMatcher_Matches ::
    "nat \<Rightarrow> globals \<Rightarrow> tagSliceIter option \<Rightarrow> tagSliceIter option \<Rightarrow> tagSliceIter \<Rightarrow> matched \<Rightarrow> 'io store \<Rightarrow>
     ((pool_panic, bool) outcome \<times> 'io store) option" where
  "tagIterMatcher_Matches n g po pe m x st =
     (case x of
        XTagIterator t \<Rightarrow> match_loop n g (tagSliceIter_Duplicate pe m) (tagSliceIter_Duplicate po t) st
      | _ \<Rightarrow> Some (Ret False, st))"

section \<open>Copies of tags\<close>

text \<open>\<^verbatim>\<open>checked.NewBytes(append([]byte(nil), id.Bytes()...), nil)\<close>.\<close>

definition copy_bytes_of :: "(nat \<Rightarrow> nat) \<Rightarrow> globals \<Rightarrow> ID option \<Rightarrow> ('io, (unit, unit) bytesRef) ident_op" where
  "copy_bytes_of grow g v st =
     (case v of
        None \<Rightarrow> (Panic NilFunctionCall, st)
      | Some i \<Rightarrow> andthen (ID_Bytes g i st) (\<lambda>bs st.
          (Ret (fst (NewBytes g () (append_bytes grow \<lparr>buf = [], blen = 0\<rparr> bs) None)), st)))"

definition copy_tag :: "(nat \<Rightarrow> nat) \<Rightarrow> globals \<Rightarrow> Tag \<Rightarrow> ('io, Tag) ident_op" where
  "copy_tag grow g t st =
     andthen (copy_bytes_of grow g (Name t) st) (\<lambda>n st. andthen (copy_bytes_of grow g (Value t) st) (\<lambda>v st. BinaryTag g n v st))"

fun collect_tags ::
    "nat \<Rightarrow> (nat \<Rightarrow> nat) \<Rightarrow> globals \<Rightarrow> tagSliceIter \<Rightarrow> 'io store \<Rightarrow> ((pool_panic, Tag list) outcome \<times> 'io store) option" where
  "collect_tags 0 grow g it st = None"
| "collect_tags (Suc n) grow g it st =
     (case tagSliceIter_Next it of
        (False, it) \<Rightarrow> Some (Ret [], st)
      | (True, it) \<Rightarrow>
          (case copy_tag grow g (tagSliceIter_Current it) st of
             (Panic e, st) \<Rightarrow> Some (Panic e, st)
           | (Ret t, st) \<Rightarrow>
               map_option (\<lambda>(r, st). (bind_outcome r (\<lambda>ts. Ret (t # ts)), st)) (collect_tags n grow g it st)))"

text \<open>The iterator is closed in every case; its error is nil.\<close>

definition NewTagsFromTagIterator ::
    "nat \<Rightarrow> (nat \<Rightarrow> nat) \<Rightarrow> globals \<Rightarrow> tagSliceIter \<Rightarrow> 'io store \<Rightarrow> ((pool_panic, Tags) outcome \<times> tagSliceIter \<times> 'io store) option" where
  "NewTagsFromTagIterator n grow g it st =
     (if tagSliceIter_Remaining it > 0
      then map_option (\<lambda>(r, st). (bind_outcome r (\<lambda>ts. Ret (NewTags ts)), tagSliceIter_Close it, st)) (collect_tags n grow g it st)
      else Some (Ret (NewTags []), tagSliceIter_Close it, st))"

section \<open>Tags that read as texts\<close>

definition id_text :: "globals \<Rightarrow> 'io store \<Rightarrow> ID option \<Rightarrow> string \<Rightarrow> bool" where
  "id_text g st v s \<longleftrightarrow> (\<exists>i. v = Some i \<and> ID_Bytes g i st = (Ret (str_bytes s), st))"

definition tag_text :: "globals \<Rightarrow> 'io store \<Rightarrow> Tag \<Rightarrow> string \<times> string \<Rightarrow> bool" where
  "tag_text g st t p \<longleftrightarrow> id_text g st (Name t) (fst p) \<and> id_text g st (Value t) (snd p)"

lemma str_bytes_inj [simp]: "str_bytes s = str_bytes u \<longleftrightarrow> s = u"
  by (metis bytes_str_str_bytes)

lemma StringTag_text [simp]: "tag_text g st (StringTag (fst p) (snd p)) p"
  by (simp add: tag_text_def id_text_def StringTag_def StringID_def)

lemma equal_opt_text: "id_text g st a s \<Longrightarrow> id_text g st b u \<Longrightarrow> equal_opt g a b st = (Ret (s = u), st)"
  by (auto simp: id_text_def equal_opt_def andthen_def)

lemma Tag_Equal_text:
  assumes "tag_text g st t p" and "tag_text g st u q"
  shows "Tag_Equal g t u st = (Ret (p = q), st)"
  using assms by (auto simp: tag_text_def Tag_Equal_def andthen_def prod_eq_iff equal_opt_text [where s = "fst p" and u = "fst q"]
      equal_opt_text [where s = "snd p" and u = "snd q"])

text \<open>An iterator that has the tags \<open>ts\<close> before it.\<close>

definition ahead :: "tagSliceIter \<Rightarrow> Tag list \<Rightarrow> bool" where
  "ahead it ts \<longleftrightarrow> iter_inv it \<and> iter_rest (\<lambda>x. x) it = ts"

lemma ahead_Nil: "ahead it [] \<Longrightarrow> \<exists>it'. tagSliceIter_Next it = (False, it')"
  using tag_iterator.nxt_end [of it] by (cases "tagSliceIter_Next it") (auto simp: ahead_def)

lemma ahead_Cons: "ahead it (t # ts) \<Longrightarrow> \<exists>it'. tagSliceIter_Next it = (True, it') \<and> tagSliceIter_Current it' = t \<and> ahead it' ts"
  using tag_iterator.nxt_more [of it t ts] by (auto simp: ahead_def)

lemma ahead_new: "int (length ts) < 2 ^ 61 \<Longrightarrow> ahead (NewTagsIterator (NewTags ts)) ts"
  by (simp add: ahead_def NewTagsIterator_def new_iter_at iter_inv_def iter_rest_def iter_at_def NewTags_def)

text \<open>Matching decides equality of the texts, with one round more than there are expected tags.\<close>

lemma match_loop_texts:
  assumes "ahead expd ts" and "ahead obs us" and "list_all2 (tag_text g st) ts ps" and "list_all2 (tag_text g st) us qs"
    and "length ts < n"
  shows "match_loop n g expd obs st = Some (Ret (ps = qs), st)"
  using assms
proof (induction n arbitrary: expd obs ts us ps qs)
  case (Suc n)
  show ?case
  proof (cases ts)
    case Nil
    then obtain e where e: "tagSliceIter_Next expd = (False, e)" using Suc.prems(1) ahead_Nil by blast
    have "fst (tagSliceIter_Next obs) \<longleftrightarrow> us \<noteq> []"
      using Suc.prems(2) ahead_Nil [of obs] ahead_Cons [of obs] by (cases us) fastforce+
    moreover have "ps = []" "us = [] \<longleftrightarrow> qs = []" using Suc.prems(3,4) Nil by auto
    ultimately show ?thesis using e by auto
  next
    case (Cons t ts')
    obtain e where e: "tagSliceIter_Next expd = (True, e)" "tagSliceIter_Current e = t" "ahead e ts'"
      using Suc.prems(1) Cons ahead_Cons by blast
    obtain p ps' where p: "ps = p # ps'" "tag_text g st t p" "list_all2 (tag_text g st) ts' ps'"
      using Suc.prems(3) Cons by (auto simp: list_all2_Cons1)
    show ?thesis
    proof (cases us)
      case Nil
      then obtain b where "tagSliceIter_Next obs = (False, b)" using Suc.prems(2) ahead_Nil by blast
      then show ?thesis using e p Suc.prems(4) Nil by simp
    next
      case (Cons u us')
      obtain b where b: "tagSliceIter_Next obs = (True, b)" "tagSliceIter_Current b = u" "ahead b us'"
        using Suc.prems(2) Cons ahead_Cons by blast
      obtain q qs' where q: "qs = q # qs'" "tag_text g st u q" "list_all2 (tag_text g st) us' qs'"
        using Suc.prems(4) Cons by (auto simp: list_all2_Cons1)
      have "length ts' < n" using Suc.prems(5) \<open>ts = t # ts'\<close> by simp
      from Suc.IH [OF e(3) b(3) p(3) q(3) this] e b p q Tag_Equal_text [OF p(2) q(2)] show ?thesis by simp
    qed
  qed
qed simp

section \<open>Copying\<close>

text \<open>The copy lives in identifiers made for it.\<close>

definition tag_holds :: "'io store \<Rightarrow> Tag \<Rightarrow> string \<times> string \<Rightarrow> bool" where
  "tag_holds st t p \<longleftrightarrow> (\<exists>i j b c. Name t = Some (IdPtr i) \<and> Value t = Some (IdPtr j) \<and> i < next_id st \<and> j < next_id st \<and>
     data (ids st i) = Some b \<and> holds_bytes (str_bytes (fst p)) b \<and>
     data (ids st j) = Some c \<and> holds_bytes (str_bytes (snd p)) c)"

definition extends :: "'io store \<Rightarrow> 'io store \<Rightarrow> bool" where
  "extends st st' \<longleftrightarrow> next_id st \<le> next_id st' \<and> (\<forall>i<next_id st. ids st' i = ids st i)"

lemma extends_trans: "extends a b \<Longrightarrow> extends b c \<Longrightarrow> extends a c"
  by (auto simp: extends_def)

lemma tag_holds_extends: "tag_holds st t p \<Longrightarrow> extends st st' \<Longrightarrow> tag_holds st' t p"
  unfolding tag_holds_def extends_def by fastforce

lemma tag_holds_text:
  assumes "quiet g" and "tag_holds st t p"
  shows "tag_text g st t p"
proof -
  have "ID_Bytes g (IdPtr i) st = (Ret d, st)" if "data (ids st i) = Some b" "holds_bytes d b" for i b d
  proof -
    have "set_id i ((ids st i)\<lparr>data := Some b\<rparr>) st = st" using that(1) [symmetric] by (simp add: set_id_def)
    with that holds_bytes_read [OF assms(1) that(2)] show ?thesis by (simp add: on_data_def lift_checked_def)
  qed
  with assms(2) show ?thesis by (auto simp: tag_holds_def tag_text_def id_text_def)
qed

lemma copied_bytes:
  assumes "quiet g"
  shows "\<exists>b'. on_rc (IncRef g ()) (fst (NewBytes g () (append_bytes grow \<lparr>buf = [], blen = 0\<rparr> bs) None)) = (Ret (), b') \<and>
    holds_bytes bs b'"
proof -
  have "slice_bytes (append_bytes grow \<lparr>buf = [], blen = 0\<rparr> bs) = bs"
    by (simp add: append_bytes_def slice_bytes_def bcap_def Let_def)
  then show ?thesis using assms
    by (simp add: quiet_def on_rc_def IncRef_def tracebackEvent_def NewBytes_def new_RefCount_def RefCount_SetFinalizer_def
        holds_bytes_def wrap32_id int32_ok_iff)
qed

lemma BinaryID_copied:
  assumes "quiet g"
  shows "\<exists>b st'. BinaryID g (fst (NewBytes g () (append_bytes grow \<lparr>buf = [], blen = 0\<rparr> bs) None)) st = (Ret (IdPtr (next_id st)), st') \<and>
    extends st st' \<and> next_id st' = Suc (next_id st) \<and> data (ids st' (next_id st)) = Some b \<and> holds_bytes bs b"
  using copied_bytes [OF assms, of grow bs]
  by (auto simp: BinaryID_def lift_checked_def new_id_def andthen_def extends_def)

lemma copy_tag_holds:
  assumes "quiet g" and "tag_text g st t p"
  shows "\<exists>u st'. copy_tag grow g t st = (Ret u, st') \<and> extends st st' \<and> tag_holds st' u p"
proof -
  let ?b = "\<lambda>s. fst (NewBytes g () (append_bytes grow \<lparr>buf = [], blen = 0\<rparr> (str_bytes s)) None) :: (unit, unit) bytesRef"
  have c: "copy_tag grow g t st = BinaryTag g (?b (fst p)) (?b (snd p)) st"
    using assms(2) by (auto simp: tag_text_def id_text_def copy_tag_def copy_bytes_of_def andthen_def)
  obtain a st1 where 1: "BinaryID g (?b (fst p)) st = (Ret (IdPtr (next_id st)), st1)" "extends st st1"
    "next_id st1 = Suc (next_id st)" "data (ids st1 (next_id st)) = Some a" "holds_bytes (str_bytes (fst p)) a"
    using BinaryID_copied [OF assms(1)] by blast
  obtain d st2 where 2: "BinaryID g (?b (snd p)) st1 = (Ret (IdPtr (next_id st1)), st2)" "extends st1 st2"
    "next_id st2 = Suc (next_id st1)" "data (ids st2 (next_id st1)) = Some d" "holds_bytes (str_bytes (snd p)) d"
    using BinaryID_copied [OF assms(1)] by blast
  have "ids st2 (next_id st) = ids st1 (next_id st)" using 1(3) 2(2) by (simp add: extends_def)
  then show ?thesis using c 1 2 extends_trans [OF 1(2) 2(2)] by (simp add: BinaryTag_def andthen_def tag_holds_def)
qed

lemma StringTag_copy:
  "quiet g \<Longrightarrow> \<exists>u st'. copy_tag grow g (StringTag n v) st = (Ret u, st') \<and> extends st st' \<and> tag_holds st' u (n, v)"
  using copy_tag_holds [OF _ StringTag_text [of g st "(n, v)"]] by simp

lemma collect_tags_holds:
  assumes "quiet g" and "ahead it (map (\<lambda>(n, v). StringTag n v) ps)" and "length ps < n"
  shows "\<exists>ts st'. collect_tags n grow g it st = Some (Ret ts, st') \<and> extends st st' \<and> list_all2 (tag_holds st') ts ps"
  using assms(2,3)
proof (induction n arbitrary: it ps st)
  case (Suc n)
  show ?case
  proof (cases ps)
    case Nil
    then obtain i where "tagSliceIter_Next it = (False, i)" using Suc.prems(1) ahead_Nil by fastforce
    then show ?thesis using Nil by (simp add: extends_def)
  next
    case (Cons p ps')
    obtain a v where p: "p = (a, v)" by (cases p)
    obtain i where i: "tagSliceIter_Next it = (True, i)" "tagSliceIter_Current i = StringTag a v"
      "ahead i (map (\<lambda>(n, v). StringTag n v) ps')" using Suc.prems(1) Cons p ahead_Cons by fastforce
    obtain u st1 where u: "copy_tag grow g (StringTag a v) st = (Ret u, st1)" "extends st st1" "tag_holds st1 u (a, v)"
      using StringTag_copy [OF assms(1)] by blast
    have "length ps' < n" using Suc.prems(2) Cons by simp
    from Suc.IH [OF i(3) this, of st1] obtain ts st2 where
      t: "collect_tags n grow g i st1 = Some (Ret ts, st2)" "extends st1 st2" "list_all2 (tag_holds st2) ts ps'" by blast
    show ?thesis using i u t Cons p extends_trans [OF u(2) t(2)] tag_holds_extends [OF u(3) t(2)] by simp
  qed
qed simp

text \<open>
  Copying the tags of an iterator over string tags succeeds and closes the iterator; the copies are new identifiers with the same names and
  values in the same order, so a matcher for any sequence of tags accepts the copy exactly when it is the copied sequence.
\<close>

theorem tag_copies_match:
  assumes "quiet g" and "int (length ps) < 2 ^ 61" and "length ps < n"
  shows "\<exists>r st'. NewTagsFromTagIterator n grow g (NewTagsIterator (NewTags (map (\<lambda>(n, v). StringTag n v) ps))) st =
      Some (Ret r, \<lparr>backingSlice = [], currentIdx = 0, current = None\<rparr>, st') \<and> extends st st' \<and>
    (\<forall>qs. int (length qs) < 2 ^ 61 \<longrightarrow>
       tagIterMatcher_Matches (Suc (length qs)) g None None
         (NewTagIterMatcher (NewTagsIterator (NewTags (map (\<lambda>(n, v). StringTag n v) qs)))) (XTagIterator (NewTagsIterator r)) st' =
       Some (Ret (qs = ps), st'))"
proof -
  let ?string_tags = "map (\<lambda>(n, v). StringTag n v)"
  have a: "ahead (NewTagsIterator (NewTags (?string_tags ps))) (?string_tags ps)" using assms(2) by (simp add: ahead_new)
  obtain ts st' where t: "collect_tags n grow g (NewTagsIterator (NewTags (?string_tags ps))) st = Some (Ret ts, st')"
    "extends st st'" "list_all2 (tag_holds st') ts ps"
    using collect_tags_holds [OF assms(1) a assms(3)] by blast
  have rem: "tagSliceIter_Remaining (NewTagsIterator (NewTags (?string_tags ps))) = int (length ps)"
    by (simp add: tagSliceIter_Remaining_def iter_Remaining_def NewTagsIterator_def new_iter_at iter_at_def NewTags_def Let_def)
  have "\<exists>us st1. NewTagsFromTagIterator n grow g (NewTagsIterator (NewTags (?string_tags ps))) st =
      Some (Ret (NewTags us), \<lparr>backingSlice = [], currentIdx = 0, current = None\<rparr>, st1) \<and> extends st st1 \<and> list_all2 (tag_holds st1) us ps"
    using t rem by (cases "ps = []") (auto simp: NewTagsFromTagIterator_def tagSliceIter_Close_def iter_Close_def extends_def)
  then obtain us st1 where u: "NewTagsFromTagIterator n grow g (NewTagsIterator (NewTags (?string_tags ps))) st =
      Some (Ret (NewTags us), \<lparr>backingSlice = [], currentIdx = 0, current = None\<rparr>, st1)" "extends st st1"
    "list_all2 (tag_holds st1) us ps" by blast
  have ut: "list_all2 (tag_text g st1) us ps" by (rule list_all2_mono [OF u(3)]) (rule tag_holds_text [OF assms(1)])
  have dup: "tagSliceIter_Duplicate None it = it" for it
    by (simp add: tagSliceIter_Duplicate_def iter_Duplicate_def)
  have "tagIterMatcher_Matches (Suc (length qs)) g None None
      (NewTagIterMatcher (NewTagsIterator (NewTags (?string_tags qs)))) (XTagIterator (NewTagsIterator (NewTags us))) st1 =
      Some (Ret (qs = ps), st1)" if "int (length qs) < 2 ^ 61" for qs
  proof -
    have "list_all2 (tag_text g st1) (?string_tags qs) qs" by (auto simp: list_all2_conv_all_nth case_prod_beta)
    moreover have "length us = length ps" using u(3) by (rule list_all2_lengthD)
    ultimately show ?thesis unfolding tagIterMatcher_Matches_def NewTagIterMatcher_def matched.case dup
      using that assms(2) ut by (intro match_loop_texts [OF ahead_new ahead_new]) simp_all
  qed
  with u(1,2) show ?thesis by blast
qed

end
