(* ===== verification/MapTraces.thy ===== *)
theory MapTraces
  imports HashMap
begin

text \<open>
  Sequences of operations on the hash map of \<^verbatim>\<open>generics/hashmap\<close>, and the finite map they implement.  A sequence is right in two cases: when no two
  different keys in use have the same hash, and, for any hash function, when nothing is deleted one at a time.
\<close>

section \<open>Sequences of operations\<close>

datatype ('k, 'v) map_op = OSet 'k 'v | OSetUnsafe 'k 'v SetUnsafeOptions | ODelete 'k | OReset | OReallocate

text \<open>\<open>order\<close> is the order in which Go ranges over the table in \<^verbatim>\<open>Reset\<close>.\<close>

type_synonym ('k, 'v, 'w) map_order = "('k, 'v, 'w) Map \<Rightarrow> MapHash list"

fun map_step :: "('k, 'v, 'w) map_order \<Rightarrow> ('k, 'v) map_op \<Rightarrow> ('k, 'v, 'w) Map \<Rightarrow> 'w \<Rightarrow> (('k, 'v, 'w) Map \<times> 'w) run" where
  "map_step order (OSet k v) m w = Map_Set m k v w"
| "map_step order (OSetUnsafe k v opts) m w = Map_SetUnsafe m k v opts w"
| "map_step order (ODelete k) m w = Map_Delete m k w"
| "map_step order OReset m w = Some (Map_Reset (order m) m w)"
| "map_step order OReallocate m w = Some (Ret (Map_Reallocate m, w))"

fun map_run :: "('k, 'v, 'w) map_order \<Rightarrow> ('k, 'v) map_op list \<Rightarrow> ('k, 'v, 'w) Map \<Rightarrow> 'w \<Rightarrow> (('k, 'v, 'w) Map \<times> 'w) run" where
  "map_run order [] m w = Some (Ret (m, w))"
| "map_run order (op # ops) m w =
     (case map_step order op m w of
        None \<Rightarrow> None
      | Some (Panic p) \<Rightarrow> Some (Panic p)
      | Some (Ret (m', w')) \<Rightarrow> map_run order ops m' w')"

text \<open>The specification: a finite map on the keys, up to their equality.\<close>

fun spec_step :: "('k \<Rightarrow> 'k \<Rightarrow> bool) \<Rightarrow> ('k, 'v) map_op \<Rightarrow> ('k \<rightharpoonup> 'v) \<Rightarrow> ('k \<rightharpoonup> 'v)" where
  "spec_step eq (OSet k v) f = (\<lambda>k'. if eq k k' then Some v else f k')"
| "spec_step eq (OSetUnsafe k v opts) f = (\<lambda>k'. if eq k k' then Some v else f k')"
| "spec_step eq (ODelete k) f = (\<lambda>k'. if eq k k' then None else f k')"
| "spec_step eq OReset f = Map.empty"
| "spec_step eq OReallocate f = Map.empty"

definition spec_run :: "('k \<Rightarrow> 'k \<Rightarrow> bool) \<Rightarrow> ('k, 'v) map_op list \<Rightarrow> ('k \<rightharpoonup> 'v)" where
  "spec_run eq ops = fold (spec_step eq) ops Map.empty"

section \<open>What a sequence needs\<close>

fun op_keys :: "('k, 'v) map_op \<Rightarrow> 'k set" where
  "op_keys (OSet k v) = {k}"
| "op_keys (OSetUnsafe k v opts) = {k}"
| "op_keys (ODelete k) = {k}"
| "op_keys _ = {}"

text \<open>Copying a key returns, and a key is marked for finalization only when there is a finalize function.\<close>

fun op_ok :: "('k, 'w) mapOptions \<Rightarrow> ('k, 'v) map_op \<Rightarrow> bool" where
  "op_ok mo (OSetUnsafe k v opts) \<longleftrightarrow> NoFinalizeKey opts \<or> mo_finalize mo \<noteq> None"
| "op_ok mo _ \<longleftrightarrow> True"

definition copies_return :: "('k, 'w) mapOptions \<Rightarrow> bool" where
  "copies_return mo \<longleftrightarrow> (\<forall>k w. \<exists>r. mo_copy mo k w = Ret r)"

definition ranges_over :: "('k, 'v, 'w) map_order \<Rightarrow> bool" where
  "ranges_over order \<longleftrightarrow> (\<forall>m. distinct (order m) \<and> set (order m) = dom (m_lookup m))"

definition collision_free :: "('k, 'w) mapOptions \<Rightarrow> 'k set \<Rightarrow> bool" where
  "collision_free mo K \<longleftrightarrow> (\<forall>a\<in>K. \<forall>b\<in>K. mo_hash mo a = mo_hash mo b \<longrightarrow> mo_equals mo a b)"

fun is_delete :: "('k, 'v) map_op \<Rightarrow> bool" where
  "is_delete (ODelete k) = True"
| "is_delete _ = False"

section \<open>The two operations that empty the map\<close>

lemma Reset_ok:
  assumes "ranges_over order" and "finalizable m"
  shows "\<exists>w'. Map_Reset (order m) m w = Ret (m\<lparr>m_lookup := Map.empty\<rparr>, w')"
proof -
  have "m_lookup m |` (- dom (m_lookup m)) = Map.empty" by (auto simp: restrict_map_def fun_eq_iff domIff)
  then show ?thesis
    using Reset_run [of "order m" m w] assms by (auto simp: ranges_over_def finalizable_def)
qed

lemma Reallocate_empty [simp]: "Map_Reallocate m = m\<lparr>m_lookup := Map.empty\<rparr>"
  by (simp add: Map_Reallocate_def)

text \<open>\<^verbatim>\<open>Set\<close> and \<^verbatim>\<open>SetUnsafe\<close> are \<^verbatim>\<open>set\<close> with options that mark a key only when it can be finalized.\<close>

lemma set_ops:
  assumes "op_ok (m_opts m) op" and "op \<in> {OSet k v, OSetUnsafe k v opts}"
  obtains ko where "map_step order op m w = Map_set m k v ko w" "finalizeKey ko \<longrightarrow> mo_finalize (m_opts m) \<noteq> None"
    "spec_step eq op f = (\<lambda>k'. if eq k k' then Some v else f k')"
  using assms by (auto simp: Map_Set_def Map_SetUnsafe_def)

lemma map_op_cases:
  obtains (store) k v opts where "op \<in> {OSet k v, OSetUnsafe k v opts}"
    | (remove) k where "op = ODelete k" | (clear) "op \<in> {OReset, OReallocate}"
  by (cases op) auto

lemma clear_ops:
  assumes "op \<in> {OReset, OReallocate}" and "ranges_over order" and "finalizable m"
  shows "\<exists>w'. map_step order op m w = Some (Ret (m\<lparr>m_lookup := Map.empty\<rparr>, w'))" and "spec_step eq op f = Map.empty"
  using assms(1) Reset_ok [OF assms(2,3), of w] by auto

lemma finalizable_upd:
  "finalizable m \<Longrightarrow> mk_finalize (me_key e) \<longrightarrow> mo_finalize (m_opts m) \<noteq> None \<Longrightarrow>
   finalizable (m\<lparr>m_lookup := (m_lookup m)(s \<mapsto> e)\<rparr>)"
  by (auto simp: finalizable_def split: if_splits)

lemma finalizable_del: "finalizable m \<Longrightarrow> finalizable (m\<lparr>m_lookup := (m_lookup m)(s := None)\<rparr>)"
  by (auto simp: finalizable_def split: if_splits)

section \<open>Without collisions\<close>

text \<open>Every entry is in the slot of its own hash, and its key is one of those in use.\<close>

definition own_slots :: "'k set \<Rightarrow> ('k, 'v, 'w) Map \<Rightarrow> bool" where
  "own_slots K m \<longleftrightarrow> finalizable m \<and>
     (\<forall>s e. m_lookup m s = Some e \<longrightarrow> mo_hash (m_opts m) (entry_key e) = s \<and> (\<exists>k\<in>K. mo_equals (m_opts m) (entry_key e) k))"

definition abstracts :: "'k set \<Rightarrow> ('k, 'v, 'w) Map \<Rightarrow> ('k \<rightharpoonup> 'v) \<Rightarrow> bool" where
  "abstracts K m f \<longleftrightarrow> (\<forall>k\<in>K. f k = map_option me_value (m_lookup m (mo_hash (m_opts m) k)))"

definition simulates :: "('k, 'w) mapOptions \<Rightarrow> 'k set \<Rightarrow> ('k, 'v, 'w) Map \<Rightarrow> ('k \<rightharpoonup> 'v) \<Rightarrow> bool" where
  "simulates mo K m f \<longleftrightarrow> m_opts m = mo \<and> own_slots K m \<and> abstracts K m f"

lemma own_slot_probe:
  assumes "lawful mo" and "collision_free mo K" and "m_opts m = mo" and "own_slots K m" and "k \<in> K"
  shows "map_probe m k = Some (mo_hash mo k, m_lookup m (mo_hash mo k))"
    and "m_lookup m (mo_hash mo k) = Some e \<Longrightarrow> mo_equals mo (entry_key e) k"
proof -
  have laws: "hash_keys (mo_hash mo) (mo_equals mo)" using assms(1) by (simp add: lawful_def)
  show eq: "mo_equals mo (entry_key e) k" if at: "m_lookup m (mo_hash mo k) = Some e" for e
  proof -
    obtain k1 where k1: "k1 \<in> K" "mo_equals mo (entry_key e) k1" "mo_hash mo (entry_key e) = mo_hash mo k"
      using at assms(3,4) by (auto simp: own_slots_def)
    then have "mo_hash mo k1 = mo_hash mo k" using hash_keys.hash_eq [OF laws k1(2)] by simp
    then have "mo_equals mo k1 k" using assms(2,5) k1(1) by (simp add: collision_free_def)
    then show ?thesis using hash_keys.eq_trans [OF laws k1(2)] by blast
  qed
  then show "map_probe m k = Some (mo_hash mo k, m_lookup m (mo_hash mo k))"
    using assms(3) by (cases "m_lookup m (mo_hash mo k)") (simp_all add: probe.simps)
qed

lemma same_slot:
  assumes "lawful mo" and "collision_free mo K" and "k \<in> K" and "k' \<in> K"
  shows "mo_equals mo k k' \<longleftrightarrow> mo_hash mo k' = mo_hash mo k"
  using assms hash_keys.hash_eq [of "mo_hash mo" "mo_equals mo" k k'] by (auto simp: lawful_def collision_free_def)

text \<open>Storing writes the slot of the hash.\<close>

lemma own_slot_set:
  assumes "lawful mo" and "collision_free mo K" and "copies_return mo" and "m_opts m = mo" and "own_slots K m" and "k \<in> K"
    and "finalizeKey ko \<longrightarrow> mo_finalize mo \<noteq> None"
  shows "\<exists>e w'. Map_set m k v ko w = Some (Ret (m\<lparr>m_lookup := (m_lookup m)(mo_hash mo k \<mapsto> e)\<rparr>, w')) \<and> me_value e = v \<and>
    mo_equals mo (entry_key e) k \<and> (mk_finalize (me_key e) \<longrightarrow> mo_finalize mo \<noteq> None)"
proof -
  note probe = own_slot_probe [OF assms(1,2,4,5,6)]
  show ?thesis
  proof (cases "m_lookup m (mo_hash mo k)")
    case None
    obtain k' w' where c: "mo_copy mo k w = Ret (k', w')" using assms(3) by (fastforce simp: copies_return_def)
    then have "mo_equals mo k' k" using assms(1) by (auto simp: lawful_def)
    moreover have "mo_equals mo k k" using assms(1) by (auto simp: lawful_def intro: hash_keys.eq_refl)
    ultimately show ?thesis
      using probe(1) None c assms(4,7) by (auto simp: Map_set_def newMapKey_def Let_def)
  next
    case (Some e)
    moreover have "mk_finalize (me_key e) \<longrightarrow> mo_finalize mo \<noteq> None"
      using Some assms(4,5) by (auto simp: own_slots_def finalizable_def)
    ultimately show ?thesis
      using probe assms(4) by (auto simp: Map_set_def intro!: exI [of _ "\<lparr>me_key = me_key e, me_value = v\<rparr>"])
  qed
qed

lemma simulates_upd:
  assumes "lawful mo" and "collision_free mo K" and "simulates mo K m f" and "k \<in> K"
    and "mo_equals mo (entry_key e) k" and "mk_finalize (me_key e) \<longrightarrow> mo_finalize mo \<noteq> None"
  shows "simulates mo K (m\<lparr>m_lookup := (m_lookup m)(mo_hash mo k \<mapsto> e)\<rparr>) (\<lambda>k'. if mo_equals mo k k' then Some (me_value e) else f k')"
  unfolding simulates_def
proof (intro conjI)
  have h: "mo_hash mo (entry_key e) = mo_hash mo k" using assms(1,5) hash_keys.hash_eq by (auto simp: lawful_def)
  have m: "m_opts m = mo" "own_slots K m" "abstracts K m f" using assms(3) by (simp_all add: simulates_def)
  let ?m = "m\<lparr>m_lookup := (m_lookup m)(mo_hash mo k \<mapsto> e)\<rparr>"
  show "m_opts ?m = mo" using m(1) by simp
  have "finalizable ?m" using m(1,2) assms(6) by (intro finalizable_upd) (simp_all add: own_slots_def)
  moreover have "mo_hash mo (entry_key x) = s \<and> (\<exists>k\<in>K. mo_equals mo (entry_key x) k)" if "m_lookup ?m s = Some x" for s x
    using that m(1,2) h assms(4,5) by (cases "s = mo_hash mo k") (auto simp: own_slots_def)
  ultimately show "own_slots K ?m" using m(1) by (simp add: own_slots_def)
  show "abstracts K ?m (\<lambda>k'. if mo_equals mo k k' then Some (me_value e) else f k')"
    using m(1,3) same_slot [OF assms(1,2,4)] by (simp add: abstracts_def)
qed

lemma simulates_del:
  assumes "lawful mo" and "collision_free mo K" and "simulates mo K m f" and "k \<in> K"
  shows "simulates mo K (m\<lparr>m_lookup := (m_lookup m)(mo_hash mo k := None)\<rparr>) (\<lambda>k'. if mo_equals mo k k' then None else f k')"
  unfolding simulates_def
proof (intro conjI)
  have m: "m_opts m = mo" "own_slots K m" "abstracts K m f" using assms(3) by (simp_all add: simulates_def)
  let ?m = "m\<lparr>m_lookup := (m_lookup m)(mo_hash mo k := None)\<rparr>"
  show "m_opts ?m = mo" using m(1) by simp
  have "finalizable ?m" using m(2) by (intro finalizable_del) (simp add: own_slots_def)
  then show "own_slots K ?m" using m(2) by (simp add: own_slots_def)
  show "abstracts K ?m (\<lambda>k'. if mo_equals mo k k' then None else f k')"
    using m(1,3) same_slot [OF assms(1,2,4)] by (simp add: abstracts_def)
qed

lemma simulates_step:
  assumes "lawful mo" and "copies_return mo" and "ranges_over order" and "collision_free mo K" and "simulates mo K m f"
    and "op_keys op \<subseteq> K" and "op_ok mo op"
  shows "\<exists>m' w'. map_step order op m w = Some (Ret (m', w')) \<and> simulates mo K m' (spec_step (mo_equals mo) op f)"
proof (cases op rule: map_op_cases)
  case (store k v opts)
  have m: "m_opts m = mo" "own_slots K m" using assms(5) by (simp_all add: simulates_def)
  have k: "k \<in> K" using store assms(6) by auto
  obtain ko where ko: "map_step order op m w = Map_set m k v ko w" "finalizeKey ko \<longrightarrow> mo_finalize mo \<noteq> None"
    "spec_step (mo_equals mo) op f = (\<lambda>k'. if mo_equals mo k k' then Some v else f k')"
    using set_ops [of m op k v opts order w "mo_equals mo" f] assms(7) store m(1) by blast
  obtain e w' where e: "Map_set m k v ko w = Some (Ret (m\<lparr>m_lookup := (m_lookup m)(mo_hash mo k \<mapsto> e)\<rparr>, w'))" "me_value e = v"
    "mo_equals mo (entry_key e) k" "mk_finalize (me_key e) \<longrightarrow> mo_finalize mo \<noteq> None"
    using own_slot_set [OF assms(1,4,2) m k ko(2)] by blast
  show ?thesis using ko e(1) simulates_upd [OF assms(1,4,5) k e(3,4), unfolded e(2)] by simp
next
  case (remove k)
  have m: "m_opts m = mo" "own_slots K m" using assms(5) by (simp_all add: simulates_def)
  have k: "k \<in> K" using remove assms(6) by simp
  note probe = own_slot_probe [OF assms(1,4) m k]
  show ?thesis
  proof (cases "m_lookup m (mo_hash mo k)")
    case None
    then have "m\<lparr>m_lookup := (m_lookup m)(mo_hash mo k := None)\<rparr> = m" by (simp add: fun_upd_idem)
    then show ?thesis using simulates_del [OF assms(1,4,5) k] probe(1) None remove m(1) by (simp add: Map_Delete_def)
  next
    case (Some e)
    have "finalizable m" using m(2) by (simp add: own_slots_def)
    from removeMapKey_ok [OF this Some, of w] show ?thesis
      using simulates_del [OF assms(1,4,5) k] probe(1) Some remove m(1) by (auto simp: Map_Delete_def)
  qed
next
  case clear
  have "finalizable m" "m_opts m = mo" using assms(5) by (simp_all add: simulates_def own_slots_def)
  with clear_ops(1) [OF clear assms(3) this(1), of w] clear_ops(2) [OF clear assms(3) this(1), of "mo_equals mo" f] show ?thesis
    by (auto simp: simulates_def own_slots_def finalizable_def abstracts_def)
qed

lemma simulates_run:
  assumes "lawful mo" and "copies_return mo" and "ranges_over order" and "collision_free mo K"
    and "\<forall>op\<in>set ops. op_keys op \<subseteq> K \<and> op_ok mo op" and "simulates mo K m f"
  shows "\<exists>m' w'. map_run order ops m w = Some (Ret (m', w')) \<and> simulates mo K m' (fold (spec_step (mo_equals mo)) ops f)"
  using assms(5,6)
proof (induction ops arbitrary: m w f)
  case (Cons op ops)
  then obtain m1 w1 where 1: "map_step order op m w = Some (Ret (m1, w1))" "simulates mo K m1 (spec_step (mo_equals mo) op f)"
    using simulates_step [OF assms(1-4) Cons.prems(2), of op w] by auto
  with Cons.IH [OF _ 1(2), of w1] Cons.prems(1) show ?case by simp
qed simp

section \<open>With collisions\<close>

text \<open>\<open>n\<close> bounds the number of entries.\<close>

definition stores :: "('k, 'w) mapOptions \<Rightarrow> nat \<Rightarrow> ('k, 'v, 'w) Map \<Rightarrow> ('k \<rightharpoonup> 'v) \<Rightarrow> bool" where
  "stores mo n m f \<longleftrightarrow> m_opts m = mo \<and> map_inv m \<and> finalizable m \<and> Map_Len m \<le> n \<and> (\<forall>k. Map_Get m k = Some (f k))"

lemma stores_empty:
  assumes "lawful mo" and "m_opts m = mo" and "m_lookup m = Map.empty"
  shows "stores mo n m Map.empty"
  using assms by (simp add: stores_def map_inv_def finalizable_def Map_Len_def Map_Get_def probe.simps)

lemma set_finalizable:
  assumes "map_inv m" and "Map_Len m < 2 ^ 64" and "finalizable m" and "Map_set m k v ko w = Some (Ret (m', w'))"
    and "finalizeKey ko \<longrightarrow> mo_finalize (m_opts m) \<noteq> None"
  shows "finalizable m'"
  using assms(1,2)
proof (cases rule: map_probe_cases [where k = k])
  case (found s e)
  have "m' = m\<lparr>m_lookup := (m_lookup m)(s \<mapsto> \<lparr>me_key = me_key e, me_value = v\<rparr>)\<rparr>"
    using assms(4) found(1) by (simp add: Map_set_def)
  moreover have "mk_finalize (me_key e) \<longrightarrow> mo_finalize (m_opts m) \<noteq> None"
    using assms(3) found(2) by (auto simp: finalizable_def holds_def)
  ultimately show ?thesis using finalizable_upd [OF assms(3)] by simp
next
  case (missing s)
  obtain key where "m' = m\<lparr>m_lookup := (m_lookup m)(s \<mapsto> \<lparr>me_key = key, me_value = v\<rparr>)\<rparr>" "mk_finalize key = finalizeKey ko"
    using set_missing [OF assms(1) missing(1-3) assms(4)] by metis
  then show ?thesis using finalizable_upd [OF assms(3)] assms(5) by simp
qed

lemma stores_step:
  assumes "lawful mo" and "copies_return mo" and "ranges_over order" and "stores mo n m f" and "n + 1 < 2 ^ 64"
    and "op_ok mo op" and "\<not> is_delete op"
  shows "\<exists>m' w'. map_step order op m w = Some (Ret (m', w')) \<and> stores mo (Suc n) m' (spec_step (mo_equals mo) op f)"
proof -
  have m: "m_opts m = mo" "map_inv m" "finalizable m" "Map_Len m \<le> n" "\<forall>k. Map_Get m k = Some (f k)"
    using assms(4) by (simp_all add: stores_def)
  show ?thesis
  proof (cases op rule: map_op_cases)
    case (store k v opts)
    obtain ko where ko: "map_step order op m w = Map_set m k v ko w" "finalizeKey ko \<longrightarrow> mo_finalize mo \<noteq> None"
      "spec_step (mo_equals mo) op f = (\<lambda>k'. if mo_equals mo k k' then Some v else f k')"
      using set_ops [of m op k v opts order w "mo_equals mo" f] assms(6) store m(1) by blast
    have len: "Map_Len m < 2 ^ 64" and room: "has_room m" using m(4) assms(5) by (simp_all add: has_room_def)
    obtain m' w' where s: "Map_set m k v ko w = Some (Ret (m', w'))"
      using set_total [OF m(2) len] assms(2) m(1) by (metis copies_return_def)
    have "finalizable m'" using set_finalizable [OF m(2) len m(3) s] ko(2) m(1) by simp
    moreover have "Map_Get m' k' = Some (if mo_equals mo k k' then Some v else f k')" for k'
      using set_update [OF m(2) room s] m(1,5) by simp
    moreover have "map_inv m' \<and> m_opts m' = mo \<and> Map_Len m' \<le> Suc n" using set_update [OF m(2) room s] m(1,4) by simp
    ultimately show ?thesis using ko s by (simp add: stores_def)
  next
    case (remove k)
    then show ?thesis using assms(7) by simp
  next
    case clear
    obtain w' where "map_step order op m w = Some (Ret (m\<lparr>m_lookup := Map.empty\<rparr>, w'))"
      using clear_ops(1) [OF clear assms(3) m(3)] by blast
    moreover have "spec_step (mo_equals mo) op f = Map.empty" using clear by auto
    moreover have "stores mo (Suc n) (m\<lparr>m_lookup := Map.empty\<rparr>) Map.empty" using m(1) by (intro stores_empty [OF assms(1)]) simp_all
    ultimately show ?thesis by simp
  qed
qed

lemma stores_run:
  assumes "lawful mo" and "copies_return mo" and "ranges_over order" and "\<forall>op\<in>set ops. op_ok mo op \<and> \<not> is_delete op"
    and "stores mo n m f" and "n + length ops < 2 ^ 64"
  shows "\<exists>m' w'. map_run order ops m w = Some (Ret (m', w')) \<and>
    stores mo (n + length ops) m' (fold (spec_step (mo_equals mo)) ops f)"
  using assms(4-6)
proof (induction ops arbitrary: n m w f)
  case (Cons op ops)
  have "n + 1 < 2 ^ 64" using Cons.prems(3) by simp
  then obtain m1 w1 where 1: "map_step order op m w = Some (Ret (m1, w1))" "stores mo (Suc n) m1 (spec_step (mo_equals mo) op f)"
    using stores_step [OF assms(1-3) Cons.prems(2), of op w] Cons.prems(1) by auto
  with Cons.IH [OF _ 1(2), of w1] Cons.prems(1,3) show ?case by simp
qed simp

section \<open>The map implements a finite map\<close>

lemma new_map [simp]: "m_opts (mapAlloc mo) = mo" "m_lookup (mapAlloc mo) = Map.empty"
  by (simp_all add: mapAlloc_def)

text \<open>
  C1: every sequence of \<^verbatim>\<open>Set\<close>, \<^verbatim>\<open>SetUnsafe\<close>, \<^verbatim>\<open>Delete\<close>, \<^verbatim>\<open>Reset\<close> and \<^verbatim>\<open>Reallocate\<close> on a new map returns without a panic, in whatever order \<^verbatim>\<open>Reset\<close> visits the
  table, and leaves the finite map that the sequence describes: \<^verbatim>\<open>Get\<close> returns for every key what was stored last and not removed
  since.  This needs lawful key functions, copies that return, and that no key is marked for a finalize function that does not exist;
  and either that no two different keys in use have the same hash, or that the sequence, of fewer than \<open>2 ^ 64\<close> operations, does not call \<^verbatim>\<open>Delete\<close>.
\<close>

theorem map_implements_finite_map:
  assumes "lawful mo" and "copies_return mo" and "ranges_over order" and "\<forall>op\<in>set ops. op_ok mo op \<and> op_keys op \<subseteq> K"
    and "collision_free mo K \<or> length ops < 2 ^ 64 \<and> list_all (\<lambda>op. \<not> is_delete op) ops"
  shows "\<exists>m' w'. map_run order ops (mapAlloc mo) w = Some (Ret (m', w')) \<and>
    (\<forall>k\<in>K. Map_Get m' k = Some (spec_run (mo_equals mo) ops k))"
  using assms(5)
proof
  assume free: "collision_free mo K"
  have "simulates mo K (mapAlloc mo) Map.empty"
    by (simp add: simulates_def own_slots_def finalizable_def abstracts_def)
  then obtain m' w' where m': "map_run order ops (mapAlloc mo) w = Some (Ret (m', w'))" "simulates mo K m' (spec_run (mo_equals mo) ops)"
    using simulates_run [OF assms(1-3) free, of ops "mapAlloc mo" Map.empty w] assms(4) unfolding spec_run_def by blast
  have "Map_Get m' k = Some (spec_run (mo_equals mo) ops k)" if "k \<in> K" for k
  proof -
    have "m_opts m' = mo" "own_slots K m'" using m'(2) by (simp_all add: simulates_def)
    from own_slot_probe(1) [OF assms(1) free this that] m'(2) that \<open>m_opts m' = mo\<close> show ?thesis
      by (simp add: Map_Get_def simulates_def abstracts_def)
  qed
  with m'(1) show ?thesis by blast
next
  assume a: "length ops < 2 ^ 64 \<and> list_all (\<lambda>op. \<not> is_delete op) ops"
  have "stores mo 0 (mapAlloc mo) Map.empty" by (intro stores_empty [OF assms(1)]) simp_all
  then obtain m' w' where "map_run order ops (mapAlloc mo) w = Some (Ret (m', w'))" "stores mo (length ops) m' (spec_run (mo_equals mo) ops)"
    using stores_run [OF assms(1-3), of ops 0 "mapAlloc mo" Map.empty w] assms(4) a
    by (auto simp: spec_run_def list_all_iff)
  then show ?thesis by (auto simp: stores_def)
qed

text \<open>A map of byte slices with the length as their hash.\<close>

definition ex_mo :: "(bytes, unit) mapOptions" where
  "ex_mo = \<lparr>mo_hash = (\<lambda>k. of_nat (length k)), mo_equals = (=), mo_copy = byteskey_copy None, mo_finalize = None, mo_initialSize = 0\<rparr>"

definition ex_ops :: "(bytes, nat) map_op list" where
  "ex_ops = [OSet [1] 10, OSetUnsafe [2, 3] 20 \<lparr>NoCopyKey = True, NoFinalizeKey = True\<rparr>, OSet [1] 11, ODelete [2, 3]]"

theorem map_implements_finite_map_witness:
  "\<exists>order m' w'. map_run order ex_ops (mapAlloc ex_mo) () = Some (Ret (m', w')) \<and>
     Map_Get m' [1] = Some (Some 11) \<and> Map_Get m' [2, 3] = Some None"
proof -
  have "\<exists>xs. distinct xs \<and> set xs = dom (m_lookup m)" for m :: "(bytes, nat, unit) Map"
    using finite_distinct_list [of "dom (m_lookup m)"] by auto
  then obtain order :: "(bytes, nat, unit) map_order" where o: "ranges_over order" unfolding ranges_over_def by metis
  have "lawful ex_mo" by (auto simp: lawful_def ex_mo_def byteskey_copy_def intro: hash_keys.intro)
  moreover have "copies_return ex_mo" by (simp add: copies_return_def ex_mo_def byteskey_copy_def)
  moreover have "collision_free ex_mo {[1], [2, 3]}" by (simp add: collision_free_def ex_mo_def)
  ultimately show ?thesis using o map_implements_finite_map [of ex_mo order ex_ops "{[1], [2, 3]}" "()"]
    by (auto simp: ex_ops_def spec_run_def ex_mo_def)
qed

end
