(* ===== verification/Serving.thy ===== *)
theory Serving
  imports Server
begin

text \<open>
  A server on a listener: the goroutine of \<^verbatim>\<open>server.serve\<close> takes the connections that the accept loop of package \<^verbatim>\<open>net\<close> sends, while the goroutines of
  the connections, \<^verbatim>\<open>Close\<close> and the reports run.
\<close>

section \<open>The loop of serve\<close>

text \<open>
  \<open>sg_queue\<close> are the connections the accept loop still sends.  Ghost state: the connections for which a handler was started and those that
  were refused.
\<close>

record 'c serving =
  sg_server :: "'c server"
  sg_queue :: "'c list"
  sg_started :: "'c list"
  sg_refused :: "'c list"

definition serve_take :: "bool \<Rightarrow> 'c serving \<Rightarrow> 'c serving option" where
  "serve_take tcp g =
     (case sg_queue g of
        [] \<Rightarrow> None
      | conn # rest \<Rightarrow>
          (if \<not> sv_listener (sg_server g) \<or> accepted (sg_server g) \<noteq> None then None
           else
             (let s = serve_accept tcp conn (sg_server g) in
              Some (g\<lparr>sg_server := s, sg_queue := rest,
                      sg_refused := (if accepted s = None then sg_refused g @ [conn] else sg_refused g)\<rparr>))))"

definition serve_go :: "'c serving \<Rightarrow> 'c serving option" where
  "serve_go g =
     (case accepted (sg_server g) of
        None \<Rightarrow> None
      | Some conn \<Rightarrow> Some (g\<lparr>sg_server := serve_spawn conn (sg_server g), sg_started := sg_started g @ [conn]\<rparr>))"

text \<open>What the goroutines do by themselves; a call of \<^verbatim>\<open>Close\<close> that has begun is one of them.\<close>

inductive progress :: "'c serving \<Rightarrow> 'c serving \<Rightarrow> bool" where
  take: "serve_take tcp g = Some g' \<Longrightarrow> progress g g'"
| go: "serve_go g = Some g' \<Longrightarrow> progress g g'"
| handle: "i < length (handlers (sg_server g)) \<Longrightarrow> handler_step i (sg_server g) = Ret s \<Longrightarrow> progress g (g\<lparr>sg_server := s\<rparr>)"
| closing: "Close_step (sg_server g) = Some s \<Longrightarrow> progress g (g\<lparr>sg_server := s\<rparr>)"

inductive serving_reach :: "string \<Rightarrow> string \<Rightarrow> ('i, 'r) server_options \<Rightarrow> 'c list \<Rightarrow> 'c serving \<Rightarrow> bool" for addr address opts cs where
  serve: "serving_reach addr address opts cs
     \<lparr>sg_server = Serve addr (NewServer address opts), sg_queue = cs, sg_started = [], sg_refused = []\<rparr>"
| progress: "serving_reach addr address opts cs g \<Longrightarrow> progress g g' \<Longrightarrow> serving_reach addr address opts cs g'"
| close: "serving_reach addr address opts cs g \<Longrightarrow> serving_reach addr address opts cs (g\<lparr>sg_server := Close_begin (sg_server g)\<rparr>)"
| report: "serving_reach addr address opts cs g \<Longrightarrow>
     serving_reach addr address opts cs (g\<lparr>sg_server := reportMetrics_round tick (sg_server g)\<rparr>)"

section \<open>Bookkeeping of connections\<close>

definition option_list :: "'a option \<Rightarrow> 'a list" where
  "option_list x = (case x of None \<Rightarrow> [] | Some a \<Rightarrow> [a])"

lemma option_list_simps [simp]: "option_list None = []" "option_list (Some a) = [a]"
  by (simp_all add: option_list_def)

definition serving_inv :: "'c list \<Rightarrow> 'c serving \<Rightarrow> bool" where
  "serving_inv cs g \<longleftrightarrow> server_inv (sg_server g) \<and> sv_listener (sg_server g) \<and>
     mset cs = mset (sg_queue g) + mset (option_list (accepted (sg_server g))) + mset (sg_started g) + mset (sg_refused g) \<and>
     (\<not> sv_closed (sg_server g) \<longrightarrow>
        sg_refused g = [] \<and> cs = sg_started g @ option_list (accepted (sg_server g)) @ sg_queue g) \<and>
     set (sg_refused g) \<subseteq> conn_closed (sg_server g) \<and>
     (\<forall>c\<in>set (sg_started g). c \<in> conn_closed (sg_server g) \<or> (c, Handling) \<in> set (handlers (sg_server g))) \<and>
     (closing (sg_server g) \<in> {WaitingConns, ClosedAll} \<longrightarrow> listener_closed (sg_server g))"

lemma serve_take_inv:
  assumes "serving_inv cs g" and "serve_take tcp g = Some g'"
  shows "serving_inv cs g'"
proof -
  obtain c q where q: "sg_queue g = c # q" "accepted (sg_server g) = None" using assms(2)
    by (auto simp: serve_take_def split: list.splits if_splits)
  let ?s = "serve_accept tcp c (sg_server g)"
  have g': "g' = g\<lparr>sg_server := ?s, sg_queue := q, sg_refused := (if accepted ?s = None then sg_refused g @ [c] else sg_refused g)\<rparr>"
    using assms(2) q by (auto simp: serve_take_def Let_def split: if_splits)
  have inv: "server_inv ?s" using assms(1) q(2) by (intro serve_accept_inv) (simp_all add: serving_inv_def)
  show ?thesis
  proof (cases "sv_closed (sg_server g)")
    case True
    then have "accepted ?s = None" "sv_closed ?s" "conn_closed ?s = insert c (conn_closed (sg_server g))"
      "handlers ?s = handlers (sg_server g)" "sv_listener ?s = sv_listener (sg_server g)" "closing ?s = closing (sg_server g)"
      "listener_closed ?s = listener_closed (sg_server g)"
      using q(2) by (simp_all add: serve_accept_def addConnection_def Let_def)
    with assms(1) inv q show ?thesis by (auto simp: g' serving_inv_def)
  next
    case False
    then have "accepted ?s = Some c" "\<not> sv_closed ?s" "conn_closed ?s = conn_closed (sg_server g)"
      "handlers ?s = handlers (sg_server g)" "sv_listener ?s = sv_listener (sg_server g)" "closing ?s = closing (sg_server g)"
      "listener_closed ?s = listener_closed (sg_server g)"
      by (simp_all add: serve_accept_def addConnection_def Let_def)
    with False assms(1) inv q show ?thesis by (simp add: g' serving_inv_def)
  qed
qed

lemma serve_go_inv:
  assumes "serving_inv cs g" and "serve_go g = Some g'"
  shows "serving_inv cs g'"
proof -
  obtain c where c: "accepted (sg_server g) = Some c" using assms(2) by (auto simp: serve_go_def split: option.splits)
  have g': "g' = g\<lparr>sg_server := serve_spawn c (sg_server g), sg_started := sg_started g @ [c]\<rparr>" using assms(2) c by (simp add: serve_go_def)
  have "server_inv (serve_spawn c (sg_server g))"
    using assms(1) c server_step_inv [OF server_step.spawn [OF c]] by (simp add: serving_inv_def)
  with assms(1) c show ?thesis by (auto simp: g' serving_inv_def serve_spawn_def)
qed

text \<open>What a step of a handler leaves alone, and how it closes its connection.\<close>

lemma remove_conn_loop_rest:
  "\<exists>xs k. remove_conn_loop n i c s = s\<lparr>conns := xs, numConns := k\<rparr>"
proof (induction n i c s rule: remove_conn_loop.induct)
  case (1 n i c s)
  have same: "s = s\<lparr>conns := conns s, numConns := numConns s\<rparr>" by simp
  show ?case
  proof (cases "i < n")
    case True
    show ?thesis
    proof (cases "conns s ! i = c")
      case True
      with \<open>i < n\<close> show ?thesis by (subst remove_conn_loop.simps) (simp, blast)
    next
      case False
      with 1 [OF True False] True show ?thesis by (subst remove_conn_loop.simps) simp
    qed
  next
    case False
    then have "remove_conn_loop n i c s = s" by (subst remove_conn_loop.simps) simp
    with same show ?thesis by metis
  qed
qed

lemma set_update_keeps: "x \<in> set xs \<Longrightarrow> x \<noteq> xs ! i \<Longrightarrow> x \<in> set (xs[i := y])"
  by (metis in_set_conv_nth length_list_update nth_list_update_neq)

lemma set_remove_keeps:
  assumes "i < length xs" and "x \<in> set xs" and "x \<noteq> xs ! i"
  shows "x \<in> set (remove_nth i xs)"
proof -
  obtain M where M: "mset xs = add_mset (xs ! i) M" "mset (remove_nth i xs) = M" by (rule mset_nth_split [OF assms(1)])
  have "x \<in># mset xs" using assms(2) by simp
  with M(1) assms(3) have "x \<in># M" by simp
  with M(2) show ?thesis by (metis set_mset_mset)
qed

lemma handler_step_rest:
  assumes "i < length (handlers s)" and "handler_step i s = Ret s'"
  shows "sv_listener s' = sv_listener s \<and> accepted s' = accepted s \<and> sv_closed s' = sv_closed s \<and> closing s' = closing s \<and>
    listener_closed s' = listener_closed s \<and> conn_closed s \<subseteq> conn_closed s' \<and>
    ((c, Handling) \<in> set (handlers s) \<longrightarrow> c \<in> conn_closed s' \<or> (c, Handling) \<in> set (handlers s'))"
proof -
  obtain d ph where h: "handlers s ! i = (d, ph)" by force
  have other: "(c, Handling) \<in> set (handlers s) \<Longrightarrow> (c, Handling) \<noteq> (d, ph) \<Longrightarrow> (c, Handling) \<in> set ((handlers s)[i := y])" for y
    using h by (simp add: set_update_keeps)
  have rest: "(c, Handling) \<in> set (handlers s) \<Longrightarrow> (c, Handling) \<noteq> (d, ph) \<Longrightarrow> (c, Handling) \<in> set (remove_nth i (handlers s))"
    using set_remove_keeps [OF assms(1)] h by simp
  show ?thesis
  proof (cases ph)
    case Handling
    then show ?thesis using assms h other [of "(d, Removing)"] by (cases "c = d") (auto simp: handler_step_def)
  next
    case Removing
    obtain xs k where "removeConnection d s = s\<lparr>conns := xs, numConns := k\<rparr>"
      using remove_conn_loop_rest [of "length (conns s)" 0 d s] by (auto simp: removeConnection_def)
    then show ?thesis using assms h Removing other [of "(d, Finishing)"] by (auto simp: handler_step_def)
  next
    case Finishing
    then show ?thesis using assms h rest by (auto simp: handler_step_def split: if_splits)
  qed
qed

lemma handle_inv:
  assumes "serving_inv cs g" and "i < length (handlers (sg_server g))" and "handler_step i (sg_server g) = Ret s"
  shows "serving_inv cs (g\<lparr>sg_server := s\<rparr>)"
proof -
  let ?s = "sg_server g"
  have inv: "server_inv s" using handler_step_inv [OF _ assms(2)] assms(1,3) by (auto simp: serving_inv_def)
  have r: "sv_listener s = sv_listener ?s" "accepted s = accepted ?s" "sv_closed s = sv_closed ?s" "closing s = closing ?s"
    "listener_closed s = listener_closed ?s" "conn_closed ?s \<subseteq> conn_closed s"
    "\<And>c. (c, Handling) \<in> set (handlers ?s) \<Longrightarrow> c \<in> conn_closed s \<or> (c, Handling) \<in> set (handlers s)"
    using handler_step_rest [OF assms(2,3)] by auto
  have "\<forall>c\<in>set (sg_started g). c \<in> conn_closed s \<or> (c, Handling) \<in> set (handlers s)"
    using assms(1) r(6,7) unfolding serving_inv_def by blast
  moreover have "set (sg_refused g) \<subseteq> conn_closed s" using assms(1) r(6) unfolding serving_inv_def by blast
  ultimately show ?thesis using assms(1) inv r(1-5) by (simp add: serving_inv_def)
qed

lemma Close_step_rest:
  assumes "Close_step s = Some s'"
  shows "sv_listener s' = sv_listener s \<and> accepted s' = accepted s \<and> sv_closed s' = sv_closed s \<and> handlers s' = handlers s \<and>
    conn_closed s \<subseteq> conn_closed s' \<and>
    (sv_listener s \<and> (closing s \<in> {WaitingConns, ClosedAll} \<longrightarrow> listener_closed s) \<and> closing s' \<in> {WaitingConns, ClosedAll} \<longrightarrow>
      listener_closed s')"
proof (cases "closing s")
  case (ClosingConns cs)
  then show ?thesis using assms by (cases cs) (auto simp: Close_step_def)
qed (use assms in \<open>auto simp: Close_step_def split: if_splits\<close>)

lemma progress_inv: "progress g g' \<Longrightarrow> serving_inv cs g \<Longrightarrow> serving_inv cs g'"
proof (induction rule: progress.induct)
  case (closing g s)
  have "server_inv s" using Close_step_inv [OF _ closing(1)] closing(2) by (simp add: serving_inv_def)
  moreover have "\<forall>c\<in>set (sg_started g). c \<in> conn_closed s \<or> (c, Handling) \<in> set (handlers s)" "set (sg_refused g) \<subseteq> conn_closed s"
    using closing(2) Close_step_rest [OF closing(1)] unfolding serving_inv_def by auto
  moreover have "Server.closing s \<in> {WaitingConns, ClosedAll} \<longrightarrow> listener_closed s"
    using closing(2) Close_step_rest [OF closing(1)] unfolding serving_inv_def by blast
  ultimately show ?case using closing(2) Close_step_rest [OF closing(1)] unfolding serving_inv_def by simp
next
  case (take tcp g g')
  show ?case by (rule serve_take_inv [OF take(2,1)])
next
  case (go g g')
  show ?case by (rule serve_go_inv [OF go(2,1)])
next
  case (handle i g s)
  show ?case by (rule handle_inv [OF handle(3,1,2)])
qed

lemma serving_reach_inv: "serving_reach addr address opts cs g \<Longrightarrow> serving_inv cs g"
proof (induction rule: serving_reach.induct)
  case serve
  show ?case by (simp add: serving_inv_def Serve_def NewServer_def server_inv_def live_def wrap_s_def)
next
  case (progress g g')
  then show ?case using progress_inv by blast
next
  case (close g)
  have "server_inv (Close_begin (sg_server g))" using close.IH server_step_inv [OF server_step.close] by (auto simp: serving_inv_def)
  with close.IH show ?case by (auto simp: serving_inv_def Close_begin_def split: if_splits)
next
  case (report g tick)
  have "server_inv (reportMetrics_round tick (sg_server g))"
    using report.IH server_step_inv [OF server_step.report] by (auto simp: serving_inv_def)
  with report.IH show ?case by (auto simp: serving_inv_def reportMetrics_round_def split: if_splits)
qed

section \<open>Progress\<close>

fun phase_left :: "handler_phase \<Rightarrow> nat" where
  "phase_left Handling = 3" | "phase_left Removing = 2" | "phase_left Finishing = 1"

fun close_left :: "'c close_phase \<Rightarrow> nat" where
  "close_left (ClosingConns cs) = length cs + 3"
| "close_left ClosingListener = 2"
| "close_left WaitingConns = 1"
| "close_left _ = 0"

definition serving_left :: "'c serving \<Rightarrow> nat" where
  "serving_left g = 5 * length (sg_queue g) + 4 * length (option_list (accepted (sg_server g))) +
     (\<Sum>h\<in>#mset (handlers (sg_server g)). phase_left (snd h)) + close_left (closing (sg_server g))"

lemma handle_left:
  assumes "i < length (handlers s)" and "handler_step i s = Ret s'"
  shows "(\<Sum>h\<in>#mset (handlers s'). phase_left (snd h)) < (\<Sum>h\<in>#mset (handlers s). phase_left (snd h))"
proof -
  obtain d ph where h: "handlers s ! i = (d, ph)" by force
  obtain M where M: "mset (handlers s) = add_mset (d, ph) M" "\<And>y. mset ((handlers s)[i := y]) = add_mset y M"
    "mset (remove_nth i (handlers s)) = M" using mset_nth_split [OF assms(1)] h by metis
  then show ?thesis using assms(2) h by (cases ph) (auto simp: handler_step_def split: if_splits)
qed

lemma progress_left: "progress g g' \<Longrightarrow> serving_left g' < serving_left g"
proof (induction rule: progress.induct)
  case (take tcp g g')
  then show ?case
    by (auto simp: serve_take_def serving_left_def serve_accept_def addConnection_def Let_def split: list.splits if_splits)
next
  case (go g g')
  then show ?case by (auto simp: serve_go_def serving_left_def serve_spawn_def split: option.splits)
next
  case (handle i g s)
  then show ?case using handler_step_rest [OF handle] handle_left [OF handle] by (simp add: serving_left_def)
next
  case (closing g s)
  have "close_left (Server.closing s) < close_left (Server.closing (sg_server g))"
    using closing by (auto simp: Close_step_def split: close_phase.splits list.splits if_splits)
  then show ?case using Close_step_rest [OF closing] by (simp add: serving_left_def)
qed

lemma stuck:
  assumes inv: "serving_inv cs g" and "\<nexists>g'. progress g g'"
  shows "sg_queue g = [] \<and> accepted (sg_server g) = None \<and> handlers (sg_server g) = [] \<and> conns (sg_server g) = [] \<and>
    (sv_closed (sg_server g) \<longrightarrow> handler_closed (sg_server g) \<and> listener_closed (sg_server g))"
proof -
  let ?s = "sg_server g"
  have s: "server_inv ?s" "sv_listener ?s" using inv by (simp_all add: serving_inv_def)
  have no: "serve_take tcp g = None" "serve_go g = None" "Close_step ?s = None" for tcp
    using assms(2) progress.take progress.go progress.closing by (metis option.exhaust)+
  have a: "accepted ?s = None" using no(2) by (simp add: serve_go_def split: option.splits)
  have q: "sg_queue g = []" using no(1) [of False] a s(2) by (simp add: serve_take_def Let_def split: list.splits)
  have h: "handlers ?s = []"
  proof (rule ccontr)
    assume "handlers ?s \<noteq> []"
    then have "0 < length (handlers ?s)" by simp
    with handler_step_inv [OF s(1)] progress.handle assms(2) show False by metis
  qed
  have "mset (conns ?s) = {#}" using s(1) a h by (simp add: server_inv_def live_def)
  moreover have "handler_closed ?s \<and> listener_closed ?s" if "sv_closed ?s"
  proof -
    have "wgConns ?s = 0" "closing ?s \<noteq> NotClosing" using s(1) h that by (simp_all add: server_inv_def)
    then have "closing ?s = ClosedAll"
      using no(3) by (auto simp: Close_step_def split: close_phase.splits list.splits if_splits)
    then show ?thesis using inv by (simp add: serving_inv_def server_inv_def)
  qed
  ultimately show ?thesis using q a h by simp
qed

lemma stuck_end:
  assumes "serving_inv cs g" and "\<nexists>g'. progress g g'"
  shows "conns (sg_server g) = [] \<and> set cs \<subseteq> conn_closed (sg_server g) \<and>
    (if sv_closed (sg_server g) then handler_closed (sg_server g) \<and> listener_closed (sg_server g) else sg_started g = cs)"
proof -
  note e = stuck [OF assms]
  have "mset cs = mset (sg_started g @ sg_refused g)" using assms(1) e by (simp add: serving_inv_def)
  then have "set cs = set (sg_started g) \<union> set (sg_refused g)" by (metis set_append set_mset_mset)
  then have "set cs \<subseteq> conn_closed (sg_server g)" using assms(1) e by (auto simp: serving_inv_def)
  with assms(1) e show ?thesis by (simp add: serving_inv_def)
qed

section \<open>Properties\<close>

text \<open>
  C35: a server on a listener that delivers the connections \<open>cs\<close>, with temporary errors in between, and then fails.  The accept loop returns, and
  in every interleaving of the goroutines and of calls of \<^verbatim>\<open>Close\<close> each connection is still to come, just accepted, handled or
  refused, and refused only after \<^verbatim>\<open>Close\<close>; before, handlers are started in the order of delivery.  Every action of a goroutine brings the server
  closer to its end, and when no goroutine can act all connections were taken and are closed and removed, and \<^verbatim>\<open>Close\<close>, if it was called, has
  closed the listener and the handler and returned; if it was not called, every connection was handled.
\<close>

theorem server_handles_delivered:
  assumes "delivers accept l cs e l'" and "length cs < n"
  shows "\<exists>st. StartForeverAcceptLoop pow indef accept clock n l x rOpts = Some st \<and>
    (\<forall>g. serving_reach addr address opts (map the (sent st)) g \<longrightarrow>
      mset cs = mset (sg_queue g) + mset (option_list (accepted (sg_server g))) + mset (sg_started g) + mset (sg_refused g) \<and>
      (\<not> sv_closed (sg_server g) \<longrightarrow>
         sg_refused g = [] \<and> cs = sg_started g @ option_list (accepted (sg_server g)) @ sg_queue g) \<and>
      (\<forall>g'. progress g g' \<longrightarrow> serving_left g' < serving_left g) \<and>
      ((\<nexists>g'. progress g g') \<longrightarrow>
         conns (sg_server g) = [] \<and> set cs \<subseteq> conn_closed (sg_server g) \<and>
         (if sv_closed (sg_server g) then handler_closed (sg_server g) \<and> listener_closed (sg_server g) else sg_started g = cs)))"
proof -
  obtain st where st: "StartForeverAcceptLoop pow indef accept clock n l x rOpts = Some st" "sent st = map Some cs"
    using forever_accept_loop [OF assms] by metis
  have inv: "serving_inv cs g" if "serving_reach addr address opts (map the (sent st)) g" for g
    using serving_reach_inv [OF that] st(2) by (simp add: o_def)
  show ?thesis
  proof (intro exI [of _ st] conjI allI impI)
    show "StartForeverAcceptLoop pow indef accept clock n l x rOpts = Some st" by (rule st(1))
  next
    fix g assume "serving_reach addr address opts (map the (sent st)) g"
    note i = inv [OF this]
    show "mset cs = mset (sg_queue g) + mset (option_list (accepted (sg_server g))) + mset (sg_started g) + mset (sg_refused g)"
      using i by (simp add: serving_inv_def)
    show "sg_refused g = []" "cs = sg_started g @ option_list (accepted (sg_server g)) @ sg_queue g" if "\<not> sv_closed (sg_server g)"
      using i that by (simp_all add: serving_inv_def)
    show "serving_left g' < serving_left g" if "progress g g'" for g' using that by (rule progress_left)
    assume "\<nexists>g'. progress g g'"
    from stuck_end [OF i this] show "conns (sg_server g) = []" "set cs \<subseteq> conn_closed (sg_server g)"
      "if sv_closed (sg_server g) then handler_closed (sg_server g) \<and> listener_closed (sg_server g) else sg_started g = cs" by simp_all
  qed
qed

theorem server_handles_delivered_witness:
  "\<exists>st. StartForeverAcceptLoop (\<lambda>x y. x) 0 scripted (\<lambda>x. (0, x)) 9
     [Inr 1, Inl (Base ''busy'', True), Inr 2] () (retry_NewOptions () (\<lambda>n x. (0, x))) = Some st \<and>
     (\<forall>g. serving_reach ''a'' ''a'' (server_NewOptions () ()) (map the (sent st)) g \<longrightarrow> (\<nexists>g'. progress g g') \<longrightarrow>
       conns (sg_server g) = [] \<and> set [1, 2] \<subseteq> conn_closed (sg_server g))"
proof -
  have len: "length [1, 2 :: nat] < 9" by simp
  show ?thesis
    by (rule ex_forward [OF server_handles_delivered [OF scripted_delivers len]], elim conjE, intro conjI allI impI, assumption) blast+
qed

end
