(* ===== verification/TestSupport.thy ===== *)
theory TestSupport
  imports XTime
begin

text \<open>
  The packages' helpers for tests: the matcher of times (\<^verbatim>\<open>time/matcher.go\<close>), the matcher that compares deeply (\<^verbatim>\<open>test/matcher.go\<close>)
  and the reporter that panics on a fatal failure (\<^verbatim>\<open>test/reporter.go\<close>).  The comparison, the formats and the testing library are parameters.
\<close>

section \<open>Matchers\<close>

text \<open>A value given to a matcher: a time, or a value of another type.\<close>

datatype 'x time_matched = XTime_value instant | XNoTime 'x

definition NewMatcher :: "instant \<Rightarrow> instant" where "NewMatcher t = t"

definition time_matcher_Matches :: "instant \<Rightarrow> 'x time_matched \<Rightarrow> bool" where
  "time_matcher_Matches m x = (case x of XTime_value timeStruct \<Rightarrow> m = timeStruct | XNoTime _ \<Rightarrow> False)"

definition time_matcher_String :: "(instant \<Rightarrow> string) \<Rightarrow> instant \<Rightarrow> string" where
  "time_matcher_String time_text m = ''time: '' @ time_text m"

record ('x, 'o) cmp_matcher =
  cm_expected :: 'x
  cm_opts :: "'o list"

definition CmpMatcher :: "'x \<Rightarrow> 'o list \<Rightarrow> ('x, 'o) cmp_matcher" where
  "CmpMatcher x os = \<lparr>cm_expected = x, cm_opts = os\<rparr>"

definition cmp_matcher_Matches :: "('x \<Rightarrow> 'x \<Rightarrow> 'o list \<Rightarrow> bool) \<Rightarrow> ('x, 'o) cmp_matcher \<Rightarrow> 'x \<Rightarrow> bool" where
  "cmp_matcher_Matches cmp_Equal m x = cmp_Equal (cm_expected m) x (cm_opts m)"

definition cmp_matcher_String :: "('x \<Rightarrow> string) \<Rightarrow> ('x, 'o) cmp_matcher \<Rightarrow> string" where
  "cmp_matcher_String text_of m = text_of (cm_expected m)"

text \<open>A matcher of times accepts the time it was made for and nothing else.\<close>

lemma time_matcher_exact: "time_matcher_Matches (NewMatcher t) x \<longleftrightarrow> x = XTime_value t"
  by (auto simp: time_matcher_Matches_def NewMatcher_def split: time_matched.split)

section \<open>The reporter\<close>

text \<open>The test: its messages, and whether it has failed.  \<open>sprintf\<close> formats.\<close>

record test_state =
  t_failed :: bool
  t_messages :: "string list"

definition Reporter_Errorf :: "(string \<Rightarrow> 'a list \<Rightarrow> string) \<Rightarrow> string \<Rightarrow> 'a list \<Rightarrow> test_state \<Rightarrow> test_state" where
  "Reporter_Errorf sprintf format args t = t\<lparr>t_failed := True, t_messages := t_messages t @ [sprintf format args]\<rparr>"

definition Reporter_Fatalf :: "(string \<Rightarrow> 'a list \<Rightarrow> string) \<Rightarrow> string \<Rightarrow> 'a list \<Rightarrow> test_state \<Rightarrow> (string, test_state) outcome" where
  "Reporter_Fatalf sprintf format args t = Panic (sprintf format args)"

end
