(* ===== verification/Spec2Isabelle.thy ===== *)
theory Spec2Isabelle
  imports Prelude XTime XDuration HashMap Errors Jump Retry Checked Pool Bucketized Context Ident Watch Sync Net Server
    KeyedMaps Log Instrument Config ArrayPools IdentPool CheckedObject DebugMutex Resource Reporters
    ConfigLoad TraceSpans UnsafeBytes Matchers MapTraces Serving TestSupport
begin

text \<open>
  A verification of \<^verbatim>\<open>m3x\<close>, the library of shared Go packages of the M3 metrics platform.  The packages are mostly independent of each
  other; what they share are pools, reference counted bytes, contexts and options.  Every theory models one package or a
  few small ones, next to the theorems about it; this theory only collects them.

  \<^bold>\<open>Parts and how they interact.\<close>  The object pool (\<^verbatim>\<open>pool/object.go\<close>) hands out values made by an allocator; the bucketized pools choose
  an object pool by capacity, and the pools of bytes, floats and checked bytes are built on them.  Checked bytes (\<^verbatim>\<open>checked\<close>) carry a
  reference count and return to their pool when they are finalized.  Identifiers (\<^verbatim>\<open>ident\<close>) hold checked bytes and come from pools of
  their own; a context (\<^verbatim>\<open>context\<close>) runs the finalizers registered with it, among them those of identifiers, when it is closed and
  the contexts it depends on are.  The hash maps (\<^verbatim>\<open>generics/hashmap\<close>) are generated for byte slices and identifiers and take copies of their
  keys from those pools.  The server accepts connections with the loop of \<^verbatim>\<open>net\<close>, which retries with \<^verbatim>\<open>retry\<close>, which classifies errors with \<^verbatim>\<open>errors\<close>.
  Configuration structs become options, and options become pools, reporters, servers and tracers.

  \<^bold>\<open>Theories and sources.\<close>
  \<^item> \<^verbatim>\<open>Prelude\<close>: results, panics, Go's signed integers with wrap-around, truncating division, decimal numerals, and the locale of an option field.
  \<^item> \<^verbatim>\<open>XTime\<close>: \<^verbatim>\<open>time/time.go\<close>, \<^verbatim>\<open>unix_nano.go\<close>, \<^verbatim>\<open>range.go\<close>, \<^verbatim>\<open>ranges.go\<close>, \<^verbatim>\<open>range_iter.go\<close>.  A range is its two ends, a collection the list of its ranges.
  \<^item> \<^verbatim>\<open>XDuration\<close>: \<^verbatim>\<open>time/unit.go\<close>, \<^verbatim>\<open>duration.go\<close>: units, and durations written with days, weeks and years.
  \<^item> \<^verbatim>\<open>HashMap\<close>, \<^verbatim>\<open>MapTraces\<close>, \<^verbatim>\<open>KeyedMaps\<close>: \<^verbatim>\<open>generics/hashmap\<close>: the map with linear probing over a table indexed by 64-bit hashes, sequences of its
    operations, and its two generated forms.
  \<^item> \<^verbatim>\<open>Errors\<close>: \<^verbatim>\<open>errors/errors.go\<close>; the slice of a \<^verbatim>\<open>MultiError\<close> is an address into a heap of arrays, since its sharing matters.
  \<^item> \<^verbatim>\<open>Float64\<close>, \<^verbatim>\<open>Jump\<close>: rounding, product, quotient and conversions of binary floating point numbers, and the consistent hash of \<^verbatim>\<open>hash/jump\<close>.
  \<^item> \<^verbatim>\<open>Retry\<close>: \<^verbatim>\<open>retry\<close>: options, configuration, backoff and the retry loop with its metrics.
  \<^item> \<^verbatim>\<open>Checked\<close>: \<^verbatim>\<open>checked\<close>: reference counts, the traceback debugger, checked bytes.
  \<^item> \<^verbatim>\<open>Pool\<close>, \<^verbatim>\<open>Bucketized\<close>, \<^verbatim>\<open>CheckedObject\<close>, \<^verbatim>\<open>ArrayPools\<close>: \<^verbatim>\<open>pool\<close>, \<^verbatim>\<open>generics/arraypool\<close>, \<^verbatim>\<open>generics/leakcheckpool\<close> and the generated array pools.
  \<^item> \<^verbatim>\<open>Context\<close>: \<^verbatim>\<open>context\<close>: contexts as addresses into a world with the pool of contexts and the pending calls of \<^verbatim>\<open>finalize\<close>.
  \<^item> \<^verbatim>\<open>Ident\<close>, \<^verbatim>\<open>IdentPool\<close>, \<^verbatim>\<open>Matchers\<close>: \<^verbatim>\<open>ident\<close>: identifiers as addresses into a store, tags, iterators, the pool of identifiers together with
    contexts, matchers and copies of tags.
  \<^item> \<^verbatim>\<open>Watch\<close>, \<^verbatim>\<open>Sync\<close>, \<^verbatim>\<open>Net\<close>, \<^verbatim>\<open>Server\<close>, \<^verbatim>\<open>Serving\<close>, \<^verbatim>\<open>DebugMutex\<close>: the concurrent packages \<^verbatim>\<open>watch\<close>, \<^verbatim>\<open>sync\<close>, \<^verbatim>\<open>net\<close>, \<^verbatim>\<open>server\<close>, \<^verbatim>\<open>debug\<close>;
    \<open>Serving\<close> puts the accept loop and the server together.
  \<^item> \<^verbatim>\<open>Log\<close>, \<^verbatim>\<open>Instrument\<close>, \<^verbatim>\<open>Reporters\<close>: \<^verbatim>\<open>log\<close>, \<^verbatim>\<open>sampler\<close>, \<^verbatim>\<open>instrument\<close>, \<^verbatim>\<open>clock\<close>, \<^verbatim>\<open>process\<close>.
  \<^item> \<^verbatim>\<open>Config\<close>, \<^verbatim>\<open>ConfigLoad\<close>: \<^verbatim>\<open>config\<close> and \<^verbatim>\<open>server/config.go\<close>.
  \<^item> \<^verbatim>\<open>Resource\<close>, \<^verbatim>\<open>TraceSpans\<close>, \<^verbatim>\<open>UnsafeBytes\<close>: \<^verbatim>\<open>close\<close>, \<^verbatim>\<open>resource\<close>, \<^verbatim>\<open>tcp\<close>; \<^verbatim>\<open>opentracing\<close>, \<^verbatim>\<open>pprof\<close>; \<^verbatim>\<open>unsafe\<close>.
  \<^item> \<^verbatim>\<open>TestSupport\<close>: \<^verbatim>\<open>time/matcher.go\<close>, \<^verbatim>\<open>test\<close>.

  \<^bold>\<open>State and operations.\<close>  A struct is a record, an interface with the implementations of the package a datatype or an address into a store, a
  method a function from the old to the new state.  A definition has the name of its Go function, with the receiver in front where
  several types have a method of that name.  An error is the left summand of a result, a panic the constructor \<^const>\<open>Panic\<close> of an
  outcome; where a panic leaves a changed state behind, the state is returned with it.  A call that would block returns \<^const>\<open>None\<close>.  Goroutines are
  step functions on the shared state, one step per atomic action, and an inductive predicate holds of the states that every
  interleaving of steps and calls can reach.  Maps that Go iterates in an arbitrary order are taken through a permutation that the theorems quantify over.

  \<^bold>\<open>What the lemmas show.\<close>
  \<^item> Refinement: collections of ranges denote sets of instants, and adding and removing are union and difference; every sequence of operations
    on the hash map implements a finite map as long as keys do not collide or are not deleted; a \<^verbatim>\<open>MultiError\<close> is a list; the traceback debugger keeps the last cycles; the accept loop delivers what the listener gives;
    nested trace spans are a chain of child spans.
  \<^item> Invariants of interleavings: pools hand out only good objects and no object twice, worker pools lose no work and bound what runs, watchables
    panic in one race only, servers keep their lists and counters, the debugging mutex excludes and counts right.
  \<^item> Termination and liveness: probing, jump hashing and retrying return, a retrier that runs forever returns when the failures end, pooled workers drain their queues,
    a server handles or refuses every connection its listener delivers and ends when it is closed.
  \<^item> Round trips and bounds: durations print and parse, times convert to units and back, identifiers keep their strings, backoffs stay within their maximum.
  \<^item> Errors and panics: reference counts panic exactly on undisciplined use, classified errors keep their class when they are wrapped, policies and reporters fail as stated.
  \<^item> Some theorems show what the code does against its intention: a deletion from the hash map that loses another key, two ways to add to one \<^verbatim>\<open>MultiError\<close>, a
    dependency on a closed context, a child context that returns to the pool with its parent.

  \<^bold>\<open>Interfaces.\<close>  The locales state what one part relies on in another: \<open>set_update\<close> (ranges as sets), \<open>hash_keys\<close> (hash and equality of keys), \<open>option_field\<close>
  (getters and setters), \<open>good_allocator\<close>, \<open>fresh_allocator\<close>, \<open>sized_allocator\<close>, \<open>object_allocator\<close> (allocators of pools), \<open>iterator\<close>, \<open>key_pool\<close> (copies of keys).  Each is interpreted on the
  definitions of the model.

  \<^bold>\<open>Bounds and fuel.\<close>  Loops over data recurse on it or have a measure.  Fuel bounds the recursion through values that can be cyclic or come from outside:
  the depth of error messages and of parents of contexts (a recursion that runs out is the stack overflow of Go), the rounds of the
  accept loop (more than there are connections suffice), of the jump hash (the number of buckets suffices), of iterating a slice (one more than its length), of
  waiting for a file (the rounds are a list).  The theorems name the fuel that is enough.  Sizes that the code counts in 64 bits are assumed to be smaller
  than \<open>2 ^ 61\<close> to \<open>2 ^ 63\<close>, hash maps to have fewer than \<open>2 ^ 64\<close> entries; everywhere else the wrap-around is part of the definition.

  \<^bold>\<open>Parameters.\<close>  Code outside the repository is an argument: the hash function, the random numbers, the clock, the growth of slices, conversions of floating point numbers
  that Go leaves to the implementation (\<open>indef\<close>), powers of floating point numbers, listeners and connections, the file system, the decoder and the
  validator of configurations, the metrics, logging and tracing libraries.

  \<^bold>\<open>Not modelled.\<close>  Generated mocks; the matching of request paths in the HTTP library; the formats of times and durations in log fields; interface
  declarations, which have no behaviour of their own; memory reclamation, and data races other than those between the atomic actions of the step functions.
\<close>

end
